(* ===== verification/Prelude.thy ===== *)
theory Prelude
  imports Main "HOL-Library.Word"
begin

text \<open>
  Shared base of the development: what a C statement can do (return, block, exit, be killed by a
  signal, or run into undefined behaviour), how statements are sequenced, and the frame reasoning
  (\<open>frames\<close>) that says which parts of the state a statement leaves alone.
\<close>

named_theorems frame_intros
named_theorems cmd_simps

section \<open>Outcomes of C code\<close>

text \<open>
  Undefined behaviour of the C program is a value of its own, so that a theorem of the form
  "this returns" also says that no buffer was overrun on the way.
\<close>

datatype fault = Heap_Overflow | Over_Read | Null_Deref | Wild_Deref | Int_Overflow | Bad_Semaphore

datatype ('a, 's) outcome =
    Ret 'a 's
  | Blocked 's
  | Exited int 's
  | Killed int 's
  | Fault fault

type_synonym ('a, 's) cmd = "'s \<Rightarrow> ('a, 's) outcome"

definition ret :: "'a \<Rightarrow> ('a, 's) cmd" where
  "ret a = (\<lambda>s. Ret a s)"

definition modify :: "('s \<Rightarrow> 's) \<Rightarrow> (unit, 's) cmd" where
  "modify f = (\<lambda>s. Ret () (f s))"

definition faulting :: "fault \<Rightarrow> ('a, 's) cmd" where
  "faulting f = (\<lambda>s. Fault f)"

text \<open>\<open>x = m(); k(x)\<close>: anything but a normal return of \<open>m\<close> skips \<open>k\<close>.\<close>

definition bindC :: "('a, 's) cmd \<Rightarrow> ('a \<Rightarrow> ('b, 's) cmd) \<Rightarrow> ('b, 's) cmd" where
  "bindC m k = (\<lambda>s. case m s of
       Ret a s' \<Rightarrow> k a s'
     | Blocked s' \<Rightarrow> Blocked s'
     | Exited n s' \<Rightarrow> Exited n s'
     | Killed n s' \<Rightarrow> Killed n s'
     | Fault f \<Rightarrow> Fault f)"

text \<open>A compound statement whose parts return nothing.\<close>

fun block :: "(unit, 's) cmd list \<Rightarrow> (unit, 's) cmd" where
  "block [] = ret ()"
| "block (c # cs) = bindC c (\<lambda>_. block cs)"

text \<open>A call in statement position: the value is dropped.\<close>

definition ignore :: "('a, 's) cmd \<Rightarrow> (unit, 's) cmd" where
  "ignore c = bindC c (\<lambda>_. ret ())"

lemma ret_apply [simp, cmd_simps]: "ret a s = Ret a s"
  by (simp add: ret_def)

lemma modify_apply [simp, cmd_simps]: "modify f s = Ret () (f s)"
  by (simp add: modify_def)

lemma faulting_apply [simp, cmd_simps]: "faulting f s = Fault f"
  by (simp add: faulting_def)

lemma bindC_simps [simp, cmd_simps]:
  "m s = Ret a s' \<Longrightarrow> bindC m k s = k a s'"
  "m s = Blocked s' \<Longrightarrow> bindC m k s = Blocked s'"
  "m s = Exited n s' \<Longrightarrow> bindC m k s = Exited n s'"
  "m s = Killed n s' \<Longrightarrow> bindC m k s = Killed n s'"
  "m s = Fault f \<Longrightarrow> bindC m k s = Fault f"
  by (simp_all add: bindC_def)

lemma bindC_ret [simp, cmd_simps]: "bindC (ret a) k s = k a s"
  by (simp add: bindC_def)

lemma ignore_simps [simp, cmd_simps]:
  "c s = Ret a s' \<Longrightarrow> ignore c s = Ret () s'"
  "c s = Blocked s' \<Longrightarrow> ignore c s = Blocked s'"
  "c s = Killed n s' \<Longrightarrow> ignore c s = Killed n s'"
  "c s = Fault f \<Longrightarrow> ignore c s = Fault f"
  by (simp_all add: ignore_def)

lemma bindC_assoc: "bindC (bindC m k) h = bindC m (\<lambda>x. bindC (k x) h)"
  by (rule ext) (simp add: bindC_def split: outcome.split)

lemma block_append: "block (xs @ ys) = bindC (block xs) (\<lambda>_. block ys)"
proof (induction xs)
  case Nil
  show ?case by (rule ext) simp
next
  case (Cons c xs)
  then show ?case by (simp add: bindC_assoc)
qed

lemma bindC_Ret_iff:
  "bindC m k s = Ret b t \<longleftrightarrow> (\<exists>a s'. m s = Ret a s' \<and> k a s' = Ret b t)"
  by (simp add: bindC_def split: outcome.split)

section \<open>Frames: what a command leaves alone\<close>

text \<open>The state a command ends in, whatever way it ends; a fault has none.\<close>

fun outcome_all :: "('s \<Rightarrow> bool) \<Rightarrow> ('a, 's) outcome \<Rightarrow> bool" where
  "outcome_all P (Ret _ s) = P s"
| "outcome_all P (Blocked s) = P s"
| "outcome_all P (Exited _ s) = P s"
| "outcome_all P (Killed _ s) = P s"
| "outcome_all P (Fault _) = True"

definition frames :: "('s \<Rightarrow> 'b) \<Rightarrow> ('a, 's) cmd \<Rightarrow> bool" where
  "frames f c \<longleftrightarrow> (\<forall>s. outcome_all (\<lambda>s'. f s' = f s) (c s))"

lemma framesI: "(\<And>s. outcome_all (\<lambda>s'. f s' = f s) (c s)) \<Longrightarrow> frames f c"
  by (simp add: frames_def)

lemma frames_Ret: "frames f c \<Longrightarrow> c s = Ret a s' \<Longrightarrow> f s' = f s"
  unfolding frames_def by (drule spec [of _ s]) simp

lemma frames_Blocked: "frames f c \<Longrightarrow> c s = Blocked s' \<Longrightarrow> f s' = f s"
  unfolding frames_def by (drule spec [of _ s]) simp

lemma outcome_all_mono:
  "outcome_all P r \<Longrightarrow> (\<And>s. P s \<Longrightarrow> Q s) \<Longrightarrow> outcome_all Q r"
  by (cases r) auto

lemma frames_ret [frame_intros]: "frames f (ret a)"
  by (simp add: frames_def)

lemma frames_faulting [frame_intros]: "frames f (faulting e)"
  by (simp add: frames_def)

lemma frames_modify [frame_intros]: "(\<And>s. f (g s) = f s) \<Longrightarrow> frames f (modify g)"
  by (simp add: frames_def)

lemma frames_bind [frame_intros]:
  assumes "frames f m" and "\<And>a. frames f (k a)"
  shows "frames f (bindC m k)"
proof (rule framesI)
  fix s
  show "outcome_all (\<lambda>s'. f s' = f s) (bindC m k s)"
  proof (cases "m s")
    case (Ret a s')
    have "outcome_all (\<lambda>t. f t = f s') (k a s')"
      using assms(2) by (simp add: frames_def)
    moreover have "f s' = f s" using assms(1) Ret by (rule frames_Ret)
    ultimately show ?thesis using Ret by simp
  qed (use assms(1) in \<open>auto simp: frames_def elim!: allE [of _ s]\<close>)
qed

lemma frames_ignore [frame_intros]: "frames f c \<Longrightarrow> frames f (ignore c)"
  unfolding ignore_def by (rule frames_bind) (rule frame_intros | assumption)+

lemma frames_block [frame_intros]: "(\<And>c. c \<in> set cs \<Longrightarrow> frames f c) \<Longrightarrow> frames f (block cs)"
proof (induction cs)
  case Nil
  show ?case unfolding block.simps by (rule frames_ret)
next
  case (Cons c cs)
  then have "frames f c" and "frames f (block cs)" by auto
  then show ?case unfolding block.simps by (rule frames_bind)
qed

lemma frames_if [frame_intros]:
  "(b \<Longrightarrow> frames f c) \<Longrightarrow> (\<not> b \<Longrightarrow> frames f d) \<Longrightarrow> frames f (if b then c else d)"
  by simp

text \<open>A command chosen by looking at the state.\<close>

definition get :: "('s \<Rightarrow> ('a, 's) cmd) \<Rightarrow> ('a, 's) cmd" where
  "get k = (\<lambda>s. k s s)"

lemma get_apply [simp, cmd_simps]: "get k s = k s s"
  by (simp add: get_def)

lemma bindC_get [simp]: "bindC (get k) h s = bindC (k s) h s"
  by (simp add: bindC_def)

lemma frames_get [frame_intros]: "(\<And>s. frames f (k s)) \<Longrightarrow> frames f (get k)"
  by (simp add: frames_def)

section \<open>Invariants of a command\<close>

text \<open>\<open>P\<close> still holds in whatever state the command ends in, if it held before.\<close>

definition keeps :: "('s \<Rightarrow> bool) \<Rightarrow> ('a, 's) cmd \<Rightarrow> bool" where
  "keeps P c \<longleftrightarrow> (\<forall>s. P s \<longrightarrow> outcome_all P (c s))"

lemma keepsI: "(\<And>s. P s \<Longrightarrow> outcome_all P (c s)) \<Longrightarrow> keeps P c"
  by (simp add: keeps_def)

lemma keepsD: "keeps P c \<Longrightarrow> P s \<Longrightarrow> outcome_all P (c s)"
  by (simp add: keeps_def)

lemma keeps_Ret: "keeps P c \<Longrightarrow> P s \<Longrightarrow> c s = Ret a s' \<Longrightarrow> P s'"
  using keepsD [of P c s] by simp

lemma keeps_frames:
  assumes "frames f c" and "\<And>s t. f s = f t \<Longrightarrow> P s \<Longrightarrow> P t"
  shows "keeps P c"
proof (rule keepsI)
  fix s
  assume "P s"
  have "outcome_all (\<lambda>s'. f s' = f s) (c s)" using assms(1) by (simp add: frames_def)
  then show "outcome_all P (c s)"
    by (rule outcome_all_mono) (metis assms(2) \<open>P s\<close>)
qed

lemma keeps_ret: "keeps P (ret a)"
  by (rule keepsI) simp

lemma keeps_modify: "(\<And>s. P s \<Longrightarrow> P (f s)) \<Longrightarrow> keeps P (modify f)"
  by (rule keepsI) simp

lemma outcome_all_bind:
  assumes "outcome_all P (m s)" and "\<And>a s'. m s = Ret a s' \<Longrightarrow> outcome_all P (k a s')"
  shows "outcome_all P (bindC m k s)"
  using assms by (cases "m s") auto

lemma outcome_all_bind_ret: "outcome_all P (c s) \<Longrightarrow> outcome_all P (bindC c ret s)"
  by (cases "c s") auto

lemma keeps_bind: "keeps P m \<Longrightarrow> (\<And>a. keeps P (k a)) \<Longrightarrow> keeps P (bindC m k)"
  by (auto intro!: keepsI outcome_all_bind dest: keepsD keeps_Ret)

lemma keeps_get: "(\<And>s. keeps P (k s)) \<Longrightarrow> keeps P (get k)"
  by (simp add: keeps_def)

lemma keeps_if: "(b \<Longrightarrow> keeps P c) \<Longrightarrow> (\<not> b \<Longrightarrow> keeps P d) \<Longrightarrow> keeps P (if b then c else d)"
  by simp

lemma keeps_block: "(\<And>c. c \<in> set cs \<Longrightarrow> keeps P c) \<Longrightarrow> keeps P (block cs)"
proof (induction cs)
  case Nil
  show ?case unfolding block.simps by (rule keeps_ret)
next
  case (Cons c cs)
  then show ?case unfolding block.simps by (intro keeps_bind) auto
qed

section \<open>Faults a command cannot have\<close>

definition never :: "fault \<Rightarrow> ('a, 's) cmd \<Rightarrow> bool" where
  "never f c \<longleftrightarrow> (\<forall>s. c s \<noteq> Fault f)"

lemma never_bind: "never f m \<Longrightarrow> (\<And>a. never f (k a)) \<Longrightarrow> never f (bindC m k)"
  by (auto simp: never_def bindC_def split: outcome.split)

lemma never_ret: "never f (ret a)"
  by (simp add: never_def)

lemma never_modify: "never f (modify g)"
  by (simp add: never_def)

lemma never_block: "(\<And>c. c \<in> set cs \<Longrightarrow> never f c) \<Longrightarrow> never f (block cs)"
proof (induction cs)
  case Nil
  show ?case unfolding block.simps by (rule never_ret)
next
  case (Cons c cs)
  then show ?case unfolding block.simps by (intro never_bind) auto
qed

section \<open>Sums over the threads\<close>

definition sum_over :: "('p \<Rightarrow> 'a::comm_monoid_add) \<Rightarrow> nat \<Rightarrow> (nat \<Rightarrow> 'p) \<Rightarrow> 'a" where
  "sum_over w n f = (\<Sum>t < n. w (f t))"

lemma sum_over_upd: "t < n \<Longrightarrow> sum_over w n (f(t := p)) + w (f t) = sum_over w n f + w p"
proof -
  assume t: "t < n"
  have split: "sum_over w n g = w (g t) + (\<Sum>u \<in> {..<n} - {t}. w (g u))" for g
    unfolding sum_over_def using t by (subst sum.remove [of _ t]) auto
  have "(\<Sum>u \<in> {..<n} - {t}. w ((f(t := p)) u)) = (\<Sum>u \<in> {..<n} - {t}. w (f u))"
    by (rule sum.cong) auto
  then show ?thesis by (simp add: split [of f] split [of "f(t := p)"] ac_simps)
qed

lemma sum_over_zero: "sum_over w n f = (0 :: nat) \<longleftrightarrow> (\<forall>t < n. w (f t) = 0)"
  by (auto simp: sum_over_def)

lemma sum_over_ge: "t < n \<Longrightarrow> w (f t) \<le> (sum_over w n f :: nat)"
  unfolding sum_over_def by (rule member_le_sum) auto

lemma sum_over_two:
  assumes "t < n" and "u < n" and "t \<noteq> u"
  shows "w (f t) + w (f u) \<le> (sum_over w n f :: nat)"
proof -
  have "(\<Sum>i \<in> {t, u}. w (f i)) \<le> (\<Sum>i < n. w (f i))"
    using assms by (intro sum_mono2) auto
  then show ?thesis using assms(3) by (simp add: sum_over_def)
qed

end
