(* ===== verification/Clib.thy ===== *)
theory Clib
  imports Prelude
begin

text \<open>
  The parts of the C library the servers use: C strings in byte buffers, the comparison
  \<open>strncasecmp\<close>, the number reader \<open>strtol\<close> and the \<open>%d\<close> conversion of \<open>snprintf\<close>. A byte
  is a HOL \<open>char\<close> (eight bits); a buffer is a function from indices to bytes, its size is kept
  by the code that uses it.
\<close>

type_synonym buffer = "nat \<Rightarrow> char"

abbreviation NUL :: char where "NUL \<equiv> CHR 0x00"
abbreviation LF :: char where "LF \<equiv> CHR 0x0A"
abbreviation CR :: char where "CR \<equiv> CHR 0x0D"
abbreviation SP :: char where "SP \<equiv> CHR 0x20"

definition CRLF :: string where
  "CRLF = [CR, LF]"

section \<open>Splitting a string at the first occurrence of a byte\<close>

lemma takeWhile_first [simp]: "x \<notin> set p \<Longrightarrow> takeWhile (\<lambda>c. c \<noteq> x) (p @ x # r) = p"
  by (induction p) auto

lemma dropWhile_first [simp]: "x \<notin> set p \<Longrightarrow> dropWhile (\<lambda>c. c \<noteq> x) (p @ x # r) = x # r"
  by (induction p) auto

lemma takeWhile_none [simp]: "x \<notin> set p \<Longrightarrow> takeWhile (\<lambda>c. c \<noteq> x) p = p"
  by (induction p) auto

lemma dropWhile_none [simp]: "x \<notin> set p \<Longrightarrow> dropWhile (\<lambda>c. c \<noteq> x) p = []"
  by (induction p) auto

section \<open>C strings in buffers\<close>

text \<open>\<open>cstr b i lim\<close> is the C string at \<open>b + i\<close> in a buffer of \<open>lim\<close> bytes.\<close>

function cstr :: "buffer \<Rightarrow> nat \<Rightarrow> nat \<Rightarrow> string" where
  "cstr b i lim = (if i < lim \<and> b i \<noteq> NUL then b i # cstr b (Suc i) lim else [])"
  by pat_completeness auto
termination
  by (relation "measure (\<lambda>(b, i, lim). lim - i)") auto

declare cstr.simps [simp del]

lemma cstr_takeWhile: "cstr b i lim = takeWhile (\<lambda>c. c \<noteq> NUL) (map b [i..<lim])"
proof (induction b i lim rule: cstr.induct)
  case (1 b i lim)
  show ?case
  proof (cases "i < lim")
    case True
    then show ?thesis using 1 by (subst cstr.simps) (simp add: upt_conv_Cons)
  next
    case False
    then show ?thesis by (subst cstr.simps) simp
  qed
qed

lemma cstr_no_NUL: "NUL \<notin> set (cstr b i lim)"
  by (auto simp: cstr_takeWhile dest: set_takeWhileD)

lemma length_cstr: "length (cstr b i lim) \<le> lim - i"
proof -
  have "length (cstr b i lim) \<le> length (map b [i..<lim])"
    unfolding cstr_takeWhile by (rule length_takeWhile_le)
  then show ?thesis by simp
qed

lemma cstr_NUL [simp]: "b i = NUL \<Longrightarrow> cstr b i lim = []"
  by (subst cstr.simps) simp

lemma cstr_end [simp]: "lim \<le> i \<Longrightarrow> cstr b i lim = []"
  by (subst cstr.simps) simp

lemma cstr_Cons: "i < lim \<Longrightarrow> b i \<noteq> NUL \<Longrightarrow> cstr b i lim = b i # cstr b (Suc i) lim"
  by (subst cstr.simps) simp

lemma cstr_nth:
  assumes "k < length (cstr b i lim)"
  shows "b (i + k) = cstr b i lim ! k" and "b (i + k) \<noteq> NUL"
proof -
  have lt: "i + k < lim" using assms length_cstr [of b i lim] by simp
  have "cstr b i lim ! k = map b [i..<lim] ! k"
    using assms unfolding cstr_takeWhile by (rule takeWhile_nth)
  then show eq: "b (i + k) = cstr b i lim ! k" using lt by simp
  show "b (i + k) \<noteq> NUL" using cstr_no_NUL [of b i lim] nth_mem [OF assms] eq by auto
qed

lemma cstr_stop:
  assumes "i + length (cstr b i lim) < lim"
  shows "b (i + length (cstr b i lim)) = NUL"
  using assms nth_length_takeWhile [of "\<lambda>c. c \<noteq> NUL" "map b [i..<lim]"]
  unfolding cstr_takeWhile by simp

text \<open>Bytes stored one after the other, as the receive loops do.\<close>

fun store :: "buffer \<Rightarrow> nat \<Rightarrow> string \<Rightarrow> buffer" where
  "store b i [] = b"
| "store b i (c # cs) = store (b(i := c)) (Suc i) cs"

lemma store_apply:
  "store b i cs k = (if i \<le> k \<and> k < i + length cs then cs ! (k - i) else b k)"
proof (induction cs arbitrary: b i)
  case Nil
  then show ?case by auto
next
  case (Cons c cs)
  have "k - i = Suc (k - Suc i)" if "Suc i \<le> k" using that by simp
  then show ?case
    unfolding store.simps Cons [of "b(i := c)" "Suc i"]
    by (cases "k = i") (auto simp: not_less_eq_eq le_Suc_eq)
qed

lemma store_upd_after: "(store b i cs)(i + length cs := c) = store b i (cs @ [c])"
  by (rule ext) (auto simp: store_apply nth_append)

lemma cstr_store:
  assumes "NUL \<notin> set cs" and "i + length cs < lim"
    and "b' = (store b i cs)(i + length cs := NUL)"
  shows "cstr b' i lim = cs"
proof -
  have split: "[i..<lim] = [i..<i + length cs] @ (i + length cs) # [Suc (i + length cs)..<lim]"
    using assms(2) by (metis le_add1 less_imp_add_positive upt_add_eq_append upt_conv_Cons)
  have "map b' [i..<i + length cs] = cs"
    by (rule nth_equalityI) (auto simp: assms(3) store_apply)
  then have "map b' [i..<lim] = cs @ NUL # map b' [Suc (i + length cs)..<lim]"
    unfolding split using assms(3) by simp
  then show ?thesis
    using assms(1) by (simp add: cstr_takeWhile takeWhile_append)
qed

lemma cstr_drop: "k \<le> length (cstr b i lim) \<Longrightarrow> cstr b (i + k) lim = drop k (cstr b i lim)"
proof (induction k arbitrary: i)
  case 0
  then show ?case by simp
next
  case (Suc k)
  then have "i < lim \<and> b i \<noteq> NUL" by (subst (asm) cstr.simps) (auto split: if_splits)
  then have c: "cstr b i lim = b i # cstr b (Suc i) lim" by (simp add: cstr_Cons)
  then show ?case using Suc.IH [of "Suc i"] Suc.prems by simp
qed

lemma cstr_store_append:
  "NUL \<notin> set cs \<Longrightarrow> i + length cs \<le> lim \<Longrightarrow>
   cstr (store b i cs) i lim = cs @ cstr (store b i cs) (i + length cs) lim"
proof (induction cs arbitrary: b i)
  case Nil
  then show ?case by simp
next
  case (Cons c cs)
  have "store (b(i := c)) (Suc i) cs i = c" by (simp add: store_apply)
  then show ?case using Cons.IH [of "Suc i" "b(i := c)"] Cons.prems by (subst cstr_Cons) (auto simp del: fun_upd_apply)
qed

section \<open>strncasecmp\<close>

definition tolower :: "char \<Rightarrow> int" where
  "tolower c = (let n = of_char c in if 65 \<le> n \<and> n \<le> 90 then n + 32 else n)"

text \<open>On C strings (the terminator is the end of the list), at most \<open>n\<close> bytes of each.\<close>

fun strncasecmp :: "string \<Rightarrow> string \<Rightarrow> nat \<Rightarrow> int" where
  "strncasecmp _ _ 0 = 0"
| "strncasecmp [] [] (Suc n) = 0"
| "strncasecmp (a # as) [] (Suc n) = tolower a"
| "strncasecmp [] (b # bs) (Suc n) = - tolower b"
| "strncasecmp (a # as) (b # bs) (Suc n) =
     (if tolower a = tolower b then strncasecmp as bs n else tolower a - tolower b)"

lemma strncasecmp_append:
  "n \<le> length xs \<Longrightarrow> n \<le> length ys \<Longrightarrow> strncasecmp xs (ys @ zs) n = strncasecmp xs ys n"
  by (induction xs ys n rule: strncasecmp.induct) auto

lemma of_char_eq_0: "(of_char c :: int) = 0 \<longleftrightarrow> c = NUL"
  by (cases c) (simp add: of_char_def)

lemma tolower_0 [simp]: "tolower c = 0 \<longleftrightarrow> c = NUL"
  using of_char_eq_0 [of c] by (auto simp: tolower_def Let_def)

lemma strncasecmp_0_iff:
  "NUL \<notin> set xs \<Longrightarrow> NUL \<notin> set ys \<Longrightarrow>
   strncasecmp xs ys n = 0 \<longleftrightarrow> map tolower (take n xs) = map tolower (take n ys)"
  by (induction xs ys n rule: strncasecmp.induct) auto

section \<open>Numbers\<close>

text \<open>\<open>isspace\<close> and \<open>isdigit\<close> in the C locale.\<close>

definition isspace :: "char \<Rightarrow> bool" where
  "isspace c \<longleftrightarrow> (let n = of_char c :: int in n = 32 \<or> (9 \<le> n \<and> n \<le> 13))"

definition isdigit :: "char \<Rightarrow> bool" where
  "isdigit c \<longleftrightarrow> (let n = of_char c :: int in 48 \<le> n \<and> n \<le> 57)"

definition digit_val :: "char \<Rightarrow> int" where
  "digit_val c = of_char c - 48"

fun digits_val :: "int \<Rightarrow> string \<Rightarrow> int" where
  "digits_val acc [] = acc"
| "digits_val acc (c # cs) =
     (if isdigit c then digits_val (10 * acc + digit_val c) cs else acc)"

definition LONG_MIN :: int where "LONG_MIN = - (2 ^ 63)"
definition LONG_MAX :: int where "LONG_MAX = 2 ^ 63 - 1"
definition INT_MAX :: int where "INT_MAX = 2 ^ 31 - 1"

text \<open>\<open>strtol(s, NULL, 10)\<close> with a 64-bit \<open>long\<close>: blanks, a sign, digits, saturation.\<close>

definition strtol :: "string \<Rightarrow> int" where
  "strtol s =
     (let t = dropWhile isspace s;
          v = (case t of
                 [] \<Rightarrow> 0
               | c # cs \<Rightarrow> (if c = CHR ''-'' then - digits_val 0 cs
                             else if c = CHR ''+'' then digits_val 0 cs
                             else digits_val 0 t))
      in max LONG_MIN (min LONG_MAX v))"

text \<open>Assigning a \<open>long\<close> to an \<open>int\<close> keeps the low 32 bits.\<close>

definition long_to_int :: "int \<Rightarrow> int" where
  "long_to_int n = signed_take_bit 31 n"

definition atoi :: "string \<Rightarrow> int" where
  "atoi s = long_to_int (strtol s)"

text \<open>The \<open>%d\<close> conversion.\<close>

definition digit_char :: "nat \<Rightarrow> char" where
  "digit_char d = char_of (48 + d)"

fun dec_nat :: "nat \<Rightarrow> string" where
  "dec_nat n = (if n < 10 then [digit_char n] else dec_nat (n div 10) @ [digit_char (n mod 10)])"

declare dec_nat.simps [simp del]

definition dec_int :: "int \<Rightarrow> string" where
  "dec_int n = (if n < 0 then CHR ''-'' # dec_nat (nat (- n)) else dec_nat (nat n))"

lemma of_char_digit: "d < 10 \<Longrightarrow> of_char (digit_char d) = 48 + int d"
  unfolding digit_char_def
  by (subst of_nat_of_char [symmetric]) simp

lemma isdigit_digit_char: "d < 10 \<Longrightarrow> isdigit (digit_char d)"
  by (simp add: isdigit_def of_char_digit)

lemma digit_val_digit_char: "d < 10 \<Longrightarrow> digit_val (digit_char d) = int d"
  by (simp add: digit_val_def of_char_digit)

lemma dec_nat_digits: "\<forall>c \<in> set (dec_nat n). isdigit c"
proof (induction n rule: dec_nat.induct)
  case (1 n)
  then show ?case
    by (subst dec_nat.simps) (auto simp: isdigit_digit_char)
qed

lemma dec_nat_nonempty: "dec_nat n \<noteq> []"
  by (subst dec_nat.simps) simp

lemma digits_val_append:
  "\<forall>c \<in> set xs. isdigit c \<Longrightarrow> digits_val a (xs @ ys) = digits_val (digits_val a xs) ys"
  by (induction xs arbitrary: a) auto

lemma digits_val_dec_nat: "digits_val 0 (dec_nat n) = int n"
proof (induction n rule: dec_nat.induct)
  case (1 n)
  show ?case
  proof (cases "n < 10")
    case True
    then show ?thesis
      by (subst dec_nat.simps) (simp add: isdigit_digit_char digit_val_digit_char)
  next
    case False
    have "int n = 10 * int (n div 10) + int (n mod 10)"
      by (metis mult_div_mod_eq of_nat_add of_nat_mult of_nat_numeral)
    with False 1 show ?thesis
      by (subst dec_nat.simps)
        (simp add: digits_val_append dec_nat_digits isdigit_digit_char digit_val_digit_char)
  qed
qed

lemma isdigit_not_special: "isdigit c \<Longrightarrow> \<not> isspace c \<and> c \<noteq> CHR ''-'' \<and> c \<noteq> CHR ''+'' \<and> c \<noteq> NUL"
  by (auto simp: isdigit_def isspace_def Let_def)

text \<open>Printing a number with \<open>%d\<close> and reading it back with \<open>strtol\<close> gives the number.\<close>

lemma strtol_dec_int:
  assumes "LONG_MIN \<le> n" and "n \<le> LONG_MAX"
  shows "strtol (dec_int n) = n"
proof (cases "n < 0")
  case True
  have "\<not> isspace (CHR ''-'')" by (simp add: isspace_def)
  with True assms show ?thesis
    by (simp add: strtol_def dec_int_def digits_val_dec_nat)
next
  case False
  obtain c cs where d: "dec_nat (nat n) = c # cs"
    using dec_nat_nonempty by (cases "dec_nat (nat n)") auto
  then have "isdigit c" using dec_nat_digits [of "nat n"] by simp
  from isdigit_not_special [OF this] False assms show ?thesis
    using digits_val_dec_nat [of "nat n"] by (simp add: strtol_def dec_int_def d)
qed

lemma long_to_int_id: "- (2 ^ 31) \<le> n \<Longrightarrow> n \<le> INT_MAX \<Longrightarrow> long_to_int n = n"
  unfolding long_to_int_def INT_MAX_def by (intro signed_take_bit_int_eq_self) auto

lemma dec_int_no_NUL: "NUL \<notin> set (dec_int n)"
  using dec_nat_digits isdigit_not_special by (auto simp: dec_int_def)

section \<open>Logging\<close>

text \<open>\<open>log_print\<close> of \<open>server.h\<close>, on the text after formatting: it reaches \<open>stderr\<close> only if \<open>DEBUG\<close> is defined.\<close>

definition log_print :: "bool \<Rightarrow> string \<Rightarrow> string \<Rightarrow> string" where
  "log_print debug line err = (if \<not> debug then err else err @ line)"

end
