(* ===== verification/Http.thy ===== *)
theory Http
  imports Clib
begin

text \<open>
  \<open>server.h\<close> and the request-line parser that every server program carries a copy of
  (\<open>parse_method\<close>, \<open>parse_version\<close> and the state machine of \<open>read_request_line\<close>). The parser
  works on the connection's bytes and on the two buffers \<open>req_buf\<close> and \<open>recv_buffer\<close>, which
  are part of its state because a pool thread keeps them from one request to the next.
\<close>

section \<open>server.h\<close>

definition BUFFSIZE :: nat where "BUFFSIZE = 8192"
definition URI_LIMIT :: nat where "URI_LIMIT = 1024"

definition is_valid :: "char \<Rightarrow> bool" where
  "is_valid c \<longleftrightarrow> (let n = of_char c :: int in n \<ge> 33 \<and> n \<le> 126)"

datatype http_method = GET | POST | OTHER | Unset

text \<open>\<open>Unset\<close> is the 0 that \<open>calloc\<close> leaves in a fresh \<open>struct req_line\<close>: no enum constant.\<close>

record http_version =
  major :: int
  minor :: int

record req_line =
  meth :: http_method
  req_uri :: buffer
  version :: http_version

definition calloc_req_line :: req_line where
  "calloc_req_line = \<lparr>meth = Unset, req_uri = (\<lambda>_. NUL), version = \<lparr>major = 0, minor = 0\<rparr>\<rparr>"

definition calloc_buffer :: buffer where
  "calloc_buffer = (\<lambda>_. NUL)"

section \<open>parse_method\<close>

text \<open>The length argument \<open>n\<close> of the C function is not used by its body.\<close>

definition parse_method :: "buffer \<Rightarrow> nat \<Rightarrow> http_method" where
  "parse_method buff n =
     (let first_char = buff 0
      in if first_char = CHR ''G'' then
           (if strncasecmp ''GET'' (cstr buff 0 BUFFSIZE) 3 = 0 then GET else OTHER)
         else if first_char = CHR ''P'' then
           (if strncasecmp ''POST'' (cstr buff 0 BUFFSIZE) 3 = 0 then POST else OTHER)
         else OTHER)"

section \<open>parse_version\<close>

text \<open>\<open>for (i = i0; i < n; ++i) if (p(buff[i])) break;\<close> gives the final \<open>i\<close>.\<close>

function scan :: "(char \<Rightarrow> bool) \<Rightarrow> buffer \<Rightarrow> nat \<Rightarrow> nat \<Rightarrow> nat" where
  "scan p b i n = (if i < n \<and> \<not> p (b i) then scan p b (Suc i) n else i)"
  by pat_completeness auto
termination
  by (relation "measure (\<lambda>(p, b, i, n). n - i)") auto

declare scan.simps [simp del]

text \<open>
  The result is the parsed version and the buffer afterwards; \<open>None\<close> is the write
  \<open>buff[n] = 0\<close> past the end of the \<open>BUFFSIZE\<close> bytes.
\<close>

definition parse_version :: "buffer \<Rightarrow> nat \<Rightarrow> (http_version \<times> buffer) option" where
  "parse_version buff n =
     (let slash = scan (\<lambda>c. c = CHR ''/'') buff 0 n;
          cnt = (if slash < n then Suc slash else slash);
          end = scan (\<lambda>c. c = CHR ''.'') buff cnt n;
          (maj, cnt', buff') =
            (if end < n then
               (let b0 = buff(end := NUL)
                in (long_to_int (strtol (cstr b0 cnt BUFFSIZE)), Suc end, b0(end := CHR ''.'')))
             else (-1, cnt, buff))
      in if cnt' < n then
           (if n < BUFFSIZE then
              (let b1 = buff'(n := NUL)
               in Some (\<lparr>major = maj,
                         minor = (if maj \<noteq> -1
                                  then long_to_int (strtol (cstr b1 cnt' BUFFSIZE)) else -1)\<rparr>, b1))
            else None)
         else Some (\<lparr>major = maj, minor = -1\<rparr>, buff'))"

section \<open>read_request_line\<close>

datatype req_state = S_method | S_url | S_version | S_done

record reader =
  rd_state :: req_state
  recv_num :: nat
  rd_req :: req_line
  rd_buf :: buffer

text \<open>How the loop is left: \<open>return 0\<close>, \<open>goto ERROR\<close>, or a write past \<open>recv_buffer\<close>.\<close>

datatype rl_exit = RL_ok | RL_error | RL_overflow

text \<open>One turn of the loop on the byte \<open>c\<close> that \<open>recv\<close> delivered.\<close>

definition rl_step :: "char \<Rightarrow> reader \<Rightarrow> rl_exit + reader" where
  "rl_step c r =
     (case rd_state r of
        S_method \<Rightarrow>
          (if is_valid c then
             (if recv_num r < BUFFSIZE
              then Inr (r\<lparr>rd_buf := (rd_buf r)(recv_num r := c), recv_num := Suc (recv_num r)\<rparr>)
              else Inl RL_overflow)
           else if c = SP then
             Inr (r\<lparr>rd_req := (rd_req r)\<lparr>meth := parse_method (rd_buf r) (recv_num r)\<rparr>,
                    recv_num := 0, rd_state := S_url\<rparr>)
           else Inl RL_error)
      | S_url \<Rightarrow>
          (if is_valid c \<and> recv_num r + 1 < URI_LIMIT then
             Inr (r\<lparr>rd_req := (rd_req r)\<lparr>req_uri := (req_uri (rd_req r))(recv_num r := c)\<rparr>,
                    recv_num := Suc (recv_num r)\<rparr>)
           else if c = SP \<and> recv_num r + 1 < URI_LIMIT then
             Inr (r\<lparr>rd_req := (rd_req r)\<lparr>req_uri := (req_uri (rd_req r))(recv_num r := NUL)\<rparr>,
                    recv_num := 0, rd_state := S_version\<rparr>)
           else Inl RL_error)
      | S_version \<Rightarrow>
          (if is_valid c then
             (if recv_num r < BUFFSIZE
              then Inr (r\<lparr>rd_buf := (rd_buf r)(recv_num r := c), recv_num := Suc (recv_num r)\<rparr>)
              else Inl RL_overflow)
           else if c = CR then
             (case parse_version (rd_buf r) (recv_num r) of
                None \<Rightarrow> Inl RL_overflow
              | Some (v, b) \<Rightarrow>
                  Inr (r\<lparr>rd_req := (rd_req r)\<lparr>version := v\<rparr>, rd_buf := b,
                         recv_num := 0, rd_state := S_done\<rparr>))
           else Inl RL_error)
      | S_done \<Rightarrow> (if c = LF then Inl RL_ok else Inl RL_error))"

text \<open>
  The loop over the bytes the peer sends; the end of the list is \<open>recv\<close> returning 0 or -1.
  The result holds the reader's last state and the bytes not yet received.
\<close>

fun rl_loop :: "string \<Rightarrow> reader \<Rightarrow> rl_exit \<times> reader \<times> string" where
  "rl_loop [] r = (RL_error, r, [])"
| "rl_loop (c # cs) r =
     (case rl_step c r of
        Inl e \<Rightarrow> (e, r, cs)
      | Inr r' \<Rightarrow> rl_loop cs r')"

definition rl_start :: "req_line \<Rightarrow> buffer \<Rightarrow> reader" where
  "rl_start q b = \<lparr>rd_state = S_method, recv_num = 0, rd_req = q, rd_buf = b\<rparr>"

end
