(* ===== verification/Request_Line.thy ===== *)
theory Request_Line
  imports Http
begin

text \<open>
  The request-line parser against its grammar: which byte sequences it accepts
  (\<open>Method SP URI SP Version CR LF\<close> with the lengths the code allows), what it stores, that it
  stops, and where it writes past \<open>recv_buffer\<close>. All four states of the machine are treated by
  one phase lemma each; the properties compose these.
\<close>

named_theorems rl_simps

section \<open>Byte classes\<close>

lemma not_valid [simp, rl_simps]: "\<not> is_valid SP" "\<not> is_valid CR" "\<not> is_valid LF" "\<not> is_valid NUL"
  by (simp_all add: is_valid_def)

lemma valid_neq: "is_valid c \<Longrightarrow> c \<noteq> SP \<and> c \<noteq> CR \<and> c \<noteq> LF \<and> c \<noteq> NUL"
  by auto

definition all_valid :: "string \<Rightarrow> bool" where
  "all_valid xs \<longleftrightarrow> list_all is_valid xs"

lemma all_valid_simps [simp]:
  "all_valid []" "all_valid (c # cs) \<longleftrightarrow> is_valid c \<and> all_valid cs"
  "all_valid (xs @ ys) \<longleftrightarrow> all_valid xs \<and> all_valid ys"
  by (simp_all add: all_valid_def)

lemma all_valid_no_NUL: "all_valid xs \<Longrightarrow> NUL \<notin> set xs"
  by (induction xs) auto

lemma all_valid_takeWhile: "all_valid (takeWhile is_valid xs)"
  by (induction xs) auto

section \<open>scan\<close>

lemma scan_found:
  assumes "i \<le> j" and "j < n" and "\<And>k. i \<le> k \<Longrightarrow> k < j \<Longrightarrow> \<not> p (b k)" and "p (b j)"
  shows "scan p b i n = j"
  using assms
proof (induction p b i n rule: scan.induct)
  case (1 p b i n)
  show ?case
  proof (cases "i = j")
    case True
    with 1 show ?thesis by (subst scan.simps) simp
  next
    case False
    with 1 have "scan p b (Suc i) n = j" by simp
    with False 1 show ?thesis by (subst scan.simps) simp
  qed
qed

lemma scan_none:
  assumes "i \<le> n" and "\<And>k. i \<le> k \<Longrightarrow> k < n \<Longrightarrow> \<not> p (b k)"
  shows "scan p b i n = n"
  using assms
proof (induction p b i n rule: scan.induct)
  case (1 p b i n)
  show ?case
  proof (cases "i < n")
    case True
    with 1 show ?thesis by (subst scan.simps) simp
  next
    case False
    with 1 show ?thesis by (subst scan.simps) simp
  qed
qed

lemma scan_cong:
  assumes "\<And>k. k < n \<Longrightarrow> b k = b' k"
  shows "scan p b i n = scan p b' i n"
  using assms
proof (induction p b i n rule: scan.induct)
  case (1 p b i n)
  show ?case
  proof (cases "i < n \<and> \<not> p (b i)")
    case True
    with 1 have "scan p b (Suc i) n = scan p b' (Suc i) n" and "b i = b' i" by auto
    with True show ?thesis by (simp add: scan.simps [of p b i n] scan.simps [of p b' i n])
  next
    case False
    then show ?thesis using "1.prems" by (auto simp: scan.simps [of p b i n] scan.simps [of p b' i n])
  qed
qed

lemma scan_bounds: "i \<le> n \<Longrightarrow> i \<le> scan p b i n \<and> scan p b i n \<le> n"
proof (induction p b i n rule: scan.induct)
  case (1 p b i n)
  then show ?case by (subst (1 2) scan.simps) auto
qed

section \<open>parse_version\<close>

text \<open>What the C loops find in a version string, as an operation on the string.\<close>

definition version_spec :: "string \<Rightarrow> http_version" where
  "version_spec v =
     (let a = drop 1 (dropWhile (\<lambda>c. c \<noteq> CHR ''/'') v);
          d = dropWhile (\<lambda>c. c \<noteq> CHR ''.'') a;
          maj = (if d = [] then -1
                 else long_to_int (strtol (takeWhile (\<lambda>c. c \<noteq> CHR ''.'') a)))
      in \<lparr>major = maj,
          minor = (if maj \<noteq> -1 \<and> drop 1 d \<noteq> [] then long_to_int (strtol (drop 1 d)) else -1)\<rparr>)"

lemma scan_store:
  assumes "xs = ys @ zs" and "length ys = i"
  shows "scan p (store b 0 xs) i (length xs) = i + length (takeWhile (\<lambda>c. \<not> p c) zs)"
proof (cases "\<exists>c \<in> set zs. p c")
  case False
  then have t: "takeWhile (\<lambda>c. \<not> p c) zs = zs" by (simp add: takeWhile_eq_all_conv)
  have "scan p (store b 0 xs) i (length xs) = length xs"
    using assms False by (intro scan_none) (auto simp: store_apply nth_append)
  then show ?thesis using assms unfolding t by simp
next
  case True
  let ?t = "takeWhile (\<lambda>c. \<not> p c) zs"
  have len: "length ?t < length zs"
    using True by (metis length_takeWhile_le nat_less_le takeWhile_eq_take take_all_iff
        takeWhile_eq_all_conv)
  show ?thesis
  proof (rule scan_found)
    show "p (store b 0 xs (i + length ?t))"
      using assms len nth_length_takeWhile [OF len] by (simp add: store_apply nth_append)
    show "\<not> p (store b 0 xs k)" if "i \<le> k" "k < i + length ?t" for k
    proof -
      have "k - i < length ?t" using that by simp
      then have "?t ! (k - i) \<in> set ?t" by (rule nth_mem)
      then have "\<not> p (?t ! (k - i))" by (auto dest: set_takeWhileD)
      then have "\<not> p (zs ! (k - i))" using \<open>k - i < length ?t\<close> by (simp add: takeWhile_nth)
      then show ?thesis using assms that len by (simp add: store_apply nth_append)
    qed
  qed (use assms len in auto)
qed

lemma cstr_between:
  assumes "NUL \<notin> set ys" and "i + length ys < lim" and "\<And>k. k < length ys \<Longrightarrow> b (i + k) = ys ! k"
    and "b (i + length ys) = NUL"
  shows "cstr b i lim = ys"
proof (rule cstr_store)
  show "b = (store b i ys)(i + length ys := NUL)"
  proof
    fix k
    show "b k = ((store b i ys)(i + length ys := NUL)) k"
      using assms(3) [of "k - i"] assms(4) by (auto simp: store_apply)
  qed
qed (use assms in auto)

lemma version_spec_split:
  assumes "CHR ''/'' \<notin> set p" and "CHR ''.'' \<notin> set a"
  shows "version_spec (p @ CHR ''/'' # a @ CHR ''.'' # c) =
    \<lparr>major = long_to_int (strtol a),
     minor = (if long_to_int (strtol a) \<noteq> -1 \<and> c \<noteq> [] then long_to_int (strtol c) else -1)\<rparr>"
  using assms by (simp add: version_spec_def Let_def)

lemma version_spec_no_dot:
  "CHR ''/'' \<notin> set p \<Longrightarrow> CHR ''.'' \<notin> set a \<Longrightarrow>
   version_spec (p @ CHR ''/'' # a) = \<lparr>major = -1, minor = -1\<rparr>"
  by (simp add: version_spec_def Let_def)

lemma version_spec_no_slash:
  "CHR ''/'' \<notin> set v \<Longrightarrow> version_spec v = \<lparr>major = -1, minor = -1\<rparr>"
  by (simp add: version_spec_def Let_def)

lemma parse_version_major_found:
  assumes v: "v = p @ CHR ''/'' # a @ CHR ''.'' # c" and p: "CHR ''/'' \<notin> set p" and a: "CHR ''.'' \<notin> set a"
    and valid: "all_valid v" and len: "length v < BUFFSIZE"
  shows "\<exists>b'. parse_version (store b 0 v) (length v) = Some (version_spec v, b')"
proof -
  define n where "n = length v"
  define B where "B = store b 0 v"
  define cnt where "cnt = Suc (length p)"
  define e where "e = cnt + length a"
  have slash: "scan (\<lambda>c. c = CHR ''/'') B 0 n = length p"
    using scan_store [of v "[]" v 0 "\<lambda>c. c = CHR ''/''" b] p by (simp add: v n_def B_def)
  have dot: "scan (\<lambda>c. c = CHR ''.'') B cnt n = e"
    using scan_store [of v "p @ [CHR ''/'']" "a @ CHR ''.'' # c" cnt "\<lambda>c. c = CHR ''.''" b] a
    by (simp add: v n_def B_def cnt_def e_def)
  have noNUL: "NUL \<notin> set v" using valid by (rule all_valid_no_NUL)
  have maj: "cstr (B(e := NUL)) cnt BUFFSIZE = a"
    using len noNUL unfolding v B_def cnt_def e_def
    by (intro cstr_between) (auto simp: store_apply nth_append)
  have "B e = CHR ''.''" unfolding v B_def cnt_def e_def by (simp add: store_apply nth_append)
  then have bdot: "B(e := NUL, e := CHR ''.'') = B" by auto
  have min: "cstr (B(n := NUL)) (Suc e) BUFFSIZE = c"
    using len noNUL unfolding v B_def cnt_def e_def n_def
    by (intro cstr_between) (auto simp: store_apply nth_append)
  have idx: "length p < n" "e < n" "Suc e < n \<longleftrightarrow> c \<noteq> []" "n < BUFFSIZE"
    using len by (auto simp: v n_def e_def cnt_def)
  have "parse_version B n = Some (\<lparr>major = long_to_int (strtol a),
     minor = (if long_to_int (strtol a) \<noteq> -1 \<and> c \<noteq> [] then long_to_int (strtol c) else -1)\<rparr>,
     if c \<noteq> [] then B(n := NUL) else B)"
    unfolding parse_version_def Let_def slash using idx
    by (simp add: cnt_def [symmetric] dot maj bdot min del: fun_upd_upd)
  then show ?thesis using version_spec_split [OF p a] by (auto simp: v B_def n_def)
qed

lemma parse_version_no_slash:
  assumes "CHR ''/'' \<notin> set v"
  shows "parse_version (store b 0 v) (length v) = Some (version_spec v, store b 0 v)"
proof -
  have "scan (\<lambda>c. c = CHR ''/'') (store b 0 v) 0 (length v) = length v"
    using assms scan_store [of v "[]" v 0 "\<lambda>c. c = CHR ''/''" b] by simp
  moreover have "scan (\<lambda>c. c = CHR ''.'') (store b 0 v) (length v) (length v) = length v"
    by (subst scan.simps) simp
  ultimately show ?thesis
    by (simp add: parse_version_def version_spec_no_slash [OF assms])
qed

lemma parse_version_no_dot:
  assumes v: "v = p @ CHR ''/'' # a" and p: "CHR ''/'' \<notin> set p" and a: "CHR ''.'' \<notin> set a"
    and len: "length v < BUFFSIZE"
  shows "\<exists>b'. parse_version (store b 0 v) (length v) = Some (version_spec v, b')"
proof -
  have slash: "scan (\<lambda>c. c = CHR ''/'') (store b 0 v) 0 (length v) = length p"
    using scan_store [of v "[]" v 0 "\<lambda>c. c = CHR ''/''" b] p by (simp add: v)
  have dot: "scan (\<lambda>c. c = CHR ''.'') (store b 0 v) (Suc (length p)) (length v) = length v"
    using scan_store [of v "p @ [CHR ''/'']" a "Suc (length p)" "\<lambda>c. c = CHR ''.''" b] a
    by (simp add: v)
  have "length p < length v" and "version_spec v = \<lparr>major = -1, minor = -1\<rparr>"
    using version_spec_no_dot [OF p a] by (simp_all add: v)
  then show ?thesis
    using len by (simp add: parse_version_def slash dot Let_def)
qed

text \<open>The two loops of \<open>parse_version\<close> compute the reference function, for any old buffer.\<close>

lemma parse_version_spec:
  assumes "all_valid v" and "length v < BUFFSIZE"
  shows "\<exists>b'. parse_version (store b 0 v) (length v) = Some (version_spec v, b')"
proof (cases "CHR ''/'' \<in> set v")
  case False
  then show ?thesis using parse_version_no_slash by blast
next
  case True
  then obtain p r where v: "v = p @ CHR ''/'' # r" and p: "CHR ''/'' \<notin> set p"
    by (meson split_list_first)
  show ?thesis
  proof (cases "CHR ''.'' \<in> set r")
    case False
    with v p show ?thesis using parse_version_no_dot assms(2) by blast
  next
    case True
    then obtain a c where "r = a @ CHR ''.'' # c" and "CHR ''.'' \<notin> set a"
      by (meson split_list_first)
    with v p show ?thesis using parse_version_major_found assms by blast
  qed
qed

text \<open>Whether \<open>buff[n] = 0\<close> stays inside the buffer depends on the version bytes alone.\<close>

lemma parse_version_None_cong:
  assumes "\<And>k. k < n \<Longrightarrow> b k = b' k"
  shows "parse_version b n = None \<longleftrightarrow> parse_version b' n = None"
  using scan_cong [of n b b'] assms by (simp add: parse_version_def Let_def)

lemma parse_version_None_length: "parse_version b n = None \<Longrightarrow> BUFFSIZE \<le> n"
  by (auto simp: parse_version_def Let_def split: if_splits)

definition version_fits :: "string \<Rightarrow> bool" where
  "version_fits v \<longleftrightarrow> parse_version (store calloc_buffer 0 v) (length v) \<noteq> None"

lemma version_fits_iff: "version_fits v \<longleftrightarrow> parse_version (store b 0 v) (length v) \<noteq> None"
  unfolding version_fits_def
  by (subst parse_version_None_cong [of _ _ "store b 0 v"]) (auto simp: store_apply)

lemma version_fits_short: "length v < BUFFSIZE \<Longrightarrow> version_fits v"
  using parse_version_None_length by (fastforce simp: version_fits_def)

lemma version_spec_print:
  assumes "0 \<le> a" "a \<le> INT_MAX" "0 \<le> b" "b \<le> INT_MAX"
  shows "version_spec (''HTTP/'' @ dec_int a @ ''.'' @ dec_int b) = \<lparr>major = a, minor = b\<rparr>"
proof -
  have dot: "CHR ''.'' \<notin> set (dec_int n)" if "0 \<le> n" for n
    using that dec_nat_digits [of "nat n"] by (auto simp: dec_int_def isdigit_def Let_def)
  have ne: "dec_int b \<noteq> []" using assms(3) by (simp add: dec_int_def dec_nat_nonempty)
  have val: "long_to_int (strtol (dec_int n)) = n" if "0 \<le> n" "n \<le> INT_MAX" for n
    using that strtol_dec_int [of n] long_to_int_id [of n]
    by (simp add: LONG_MIN_def LONG_MAX_def INT_MAX_def)
  show ?thesis
    using assms ne val version_spec_split [of "''HTTP''" "dec_int a" "dec_int b"] dot [OF assms(1)]
    by simp
qed

section \<open>One phase of the state machine at a time\<close>

text \<open>Bytes accepted in the states \<open>method\<close> and \<open>version\<close> go to \<open>recv_buffer\<close>.\<close>

lemma store_phase:
  assumes "all_valid xs" and "rd_state r = S_method \<or> rd_state r = S_version"
    and "recv_num r + length xs \<le> BUFFSIZE"
  shows "rl_loop (xs @ rest) r =
    rl_loop rest (r\<lparr>rd_buf := store (rd_buf r) (recv_num r) xs, recv_num := recv_num r + length xs\<rparr>)"
  using assms
proof (induction xs arbitrary: r)
  case Nil
  then show ?case by simp
next
  case (Cons c cs)
  let ?r = "r\<lparr>rd_buf := (rd_buf r)(recv_num r := c), recv_num := Suc (recv_num r)\<rparr>"
  have "rl_step c r = Inr ?r" using Cons.prems by (auto simp: rl_step_def)
  moreover have "rl_loop (cs @ rest) ?r =
      rl_loop rest (?r\<lparr>rd_buf := store (rd_buf ?r) (recv_num ?r) cs, recv_num := recv_num ?r + length cs\<rparr>)"
    by (rule Cons.IH) (use Cons.prems in auto)
  ultimately show ?case by simp
qed

lemma store_phase_overflow:
  assumes "all_valid xs" and "rd_state r = S_method \<or> rd_state r = S_version"
    and "recv_num r \<le> BUFFSIZE" and "BUFFSIZE < recv_num r + length xs"
  shows "fst (rl_loop (xs @ rest) r) = RL_overflow"
  using assms
proof (induction xs arbitrary: r)
  case Nil
  then show ?case by simp
next
  case (Cons c cs)
  show ?case
  proof (cases "recv_num r < BUFFSIZE")
    case True
    let ?r = "r\<lparr>rd_buf := (rd_buf r)(recv_num r := c), recv_num := Suc (recv_num r)\<rparr>"
    have "rl_step c r = Inr ?r" using Cons.prems True by (auto simp: rl_step_def)
    moreover have "fst (rl_loop (cs @ rest) ?r) = RL_overflow"
      by (rule Cons.IH) (use Cons.prems True in auto)
    ultimately show ?thesis by simp
  next
    case False
    then have "rl_step c r = Inl RL_overflow" using Cons.prems by (auto simp: rl_step_def)
    then show ?thesis by simp
  qed
qed

lemma url_phase:
  assumes "all_valid xs" and "rd_state r = S_url" and "recv_num r + length xs < URI_LIMIT"
  shows "rl_loop (xs @ rest) r =
    rl_loop rest (r\<lparr>rd_req := (rd_req r)\<lparr>req_uri := store (req_uri (rd_req r)) (recv_num r) xs\<rparr>,
                   recv_num := recv_num r + length xs\<rparr>)"
  using assms
proof (induction xs arbitrary: r)
  case Nil
  then show ?case by simp
next
  case (Cons c cs)
  let ?r = "r\<lparr>rd_req := (rd_req r)\<lparr>req_uri := (req_uri (rd_req r))(recv_num r := c)\<rparr>,
               recv_num := Suc (recv_num r)\<rparr>"
  have "rl_step c r = Inr ?r" using Cons.prems by (auto simp: rl_step_def)
  moreover have "rl_loop (cs @ rest) ?r =
      rl_loop rest (?r\<lparr>rd_req := (rd_req ?r)\<lparr>req_uri := store (req_uri (rd_req ?r)) (recv_num ?r) cs\<rparr>,
                   recv_num := recv_num ?r + length cs\<rparr>)"
    by (rule Cons.IH) (use Cons.prems in auto)
  ultimately show ?case by simp
qed

lemma url_phase_too_long:
  assumes "all_valid xs" and "rd_state r = S_url" and "recv_num r < URI_LIMIT"
    and "URI_LIMIT \<le> recv_num r + length xs"
  shows "fst (rl_loop (xs @ rest) r) = RL_error"
  using assms
proof (induction xs arbitrary: r)
  case Nil
  then show ?case by simp
next
  case (Cons c cs)
  show ?case
  proof (cases "recv_num r + 1 < URI_LIMIT")
    case True
    let ?r = "r\<lparr>rd_req := (rd_req r)\<lparr>req_uri := (req_uri (rd_req r))(recv_num r := c)\<rparr>,
               recv_num := Suc (recv_num r)\<rparr>"
    have "rl_step c r = Inr ?r" using Cons.prems True by (auto simp: rl_step_def)
    moreover have "fst (rl_loop (cs @ rest) ?r) = RL_error"
      by (rule Cons.IH) (use Cons.prems True in auto)
    ultimately show ?thesis by simp
  next
    case False
    then have "rl_step c r = Inl RL_error" using Cons.prems by (auto simp: rl_step_def)
    then show ?thesis by simp
  qed
qed

section \<open>The accepted language\<close>

definition render_request :: "string \<Rightarrow> string \<Rightarrow> string \<Rightarrow> string" where
  "render_request m u v = m @ [SP] @ u @ [SP] @ v @ [CR, LF]"

definition request_ok :: "string \<Rightarrow> string \<Rightarrow> string \<Rightarrow> bool" where
  "request_ok m u v \<longleftrightarrow>
     all_valid m \<and> all_valid u \<and> all_valid v \<and>
     length m \<le> BUFFSIZE \<and> length u + 1 < URI_LIMIT \<and>
     length v \<le> BUFFSIZE \<and> version_fits v"

text \<open>The reader's buffers after a complete request line.\<close>

definition after_method :: "req_line \<Rightarrow> buffer \<Rightarrow> string \<Rightarrow> reader" where
  "after_method q b m =
     \<lparr>rd_state = S_url, recv_num = 0,
      rd_req = q\<lparr>meth := parse_method (store b 0 m) (length m)\<rparr>, rd_buf = store b 0 m\<rparr>"

definition after_url :: "req_line \<Rightarrow> buffer \<Rightarrow> string \<Rightarrow> string \<Rightarrow> reader" where
  "after_url q b m u =
     (let r = after_method q b m
      in r\<lparr>rd_state := S_version,
           rd_req := (rd_req r)\<lparr>req_uri := (store (req_uri q) 0 u)(length u := NUL)\<rparr>\<rparr>)"

definition after_version :: "req_line \<Rightarrow> buffer \<Rightarrow> string \<Rightarrow> string \<Rightarrow> string \<Rightarrow> reader" where
  "after_version q b m u v =
     (let r = after_url q b m u;
          (ver, b') = the (parse_version (store (rd_buf r) 0 v) (length v))
      in r\<lparr>rd_req := (rd_req r)\<lparr>version := ver\<rparr>, rd_buf := b', recv_num := 0, rd_state := S_done\<rparr>)"

lemma method_done:
  assumes "all_valid m" and "length m \<le> BUFFSIZE"
  shows "rl_loop (m @ SP # rest) (rl_start q b) = rl_loop rest (after_method q b m)"
  using assms
  by (subst store_phase) (simp_all add: rl_start_def rl_step_def after_method_def)

lemma url_done:
  assumes "all_valid u" and "length u + 1 < URI_LIMIT"
  shows "rl_loop (u @ SP # rest) (after_method q b m) = rl_loop rest (after_url q b m u)"
  using assms
  by (subst url_phase) (simp_all add: after_method_def rl_step_def after_url_def)

lemma version_done:
  assumes "all_valid v" and "length v \<le> BUFFSIZE" and "version_fits v"
  shows "rl_loop (v @ CR # rest) (after_url q b m u) = rl_loop rest (after_version q b m u v)"
proof -
  let ?r = "after_url q b m u"
  have r: "rd_state ?r = S_version" "recv_num ?r = 0"
    by (simp_all add: after_url_def after_method_def Let_def)
  obtain ver b' where pv: "parse_version (store (rd_buf ?r) 0 v) (length v) = Some (ver, b')"
    using assms(3) version_fits_iff [of v "rd_buf ?r"] by auto
  have "rl_loop (v @ CR # rest) ?r =
      rl_loop (CR # rest) (?r\<lparr>rd_buf := store (rd_buf ?r) 0 v, recv_num := length v\<rparr>)"
    using assms r by (subst store_phase) simp_all
  then show ?thesis
    using r pv by (simp add: rl_step_def after_version_def Let_def)
qed

lemma rl_loop_accepts:
  assumes "request_ok m u v"
  shows "rl_loop (render_request m u v @ rest) (rl_start q b) = (RL_ok, after_version q b m u v, rest)"
proof -
  have "rd_state (after_version q b m u v) = S_done"
    by (simp add: after_version_def Let_def split: prod.split)
  then have "rl_loop (LF # rest) (after_version q b m u v) = (RL_ok, after_version q b m u v, rest)"
    by (simp add: rl_step_def)
  then show ?thesis
    using assms by (simp add: render_request_def request_ok_def method_done url_done version_done)
qed

text \<open>
  The other direction: a run that returns 0 has read exactly one such line. The input is cut
  where the valid bytes of each phase end; whatever else comes there leaves the loop by
  \<open>goto ERROR\<close> or by the overrun.
\<close>

lemma rl_step_not_ok: "rd_state r \<noteq> S_done \<Longrightarrow> rl_step c r \<noteq> Inl RL_ok"
  by (auto simp: rl_step_def split: req_state.splits option.splits if_splits)

lemma rl_loop_stop:
  "rl_step c r = Inl e \<Longrightarrow> fst (rl_loop (c # cs) r) = e"
  by simp

lemma valid_prefix:
  obtains xs rest where "inp = xs @ rest" and "all_valid xs" and "rest = [] \<or> \<not> is_valid (hd rest)"
proof
  show "inp = takeWhile is_valid inp @ dropWhile is_valid inp" by simp
  show "all_valid (takeWhile is_valid inp)" by (rule all_valid_takeWhile)
  show "dropWhile is_valid inp = [] \<or> \<not> is_valid (hd (dropWhile is_valid inp))"
    using hd_dropWhile [of is_valid inp] by blast
qed

lemma method_inv:
  assumes "fst (rl_loop inp (rl_start q b)) = RL_ok"
  obtains m rest where "inp = m @ SP # rest" and "all_valid m" and "length m \<le> BUFFSIZE"
    and "fst (rl_loop rest (after_method q b m)) = RL_ok"
proof -
  obtain m r where inp: "inp = m @ r" "all_valid m" "r = [] \<or> \<not> is_valid (hd r)"
    by (rule valid_prefix)
  have len: "length m \<le> BUFFSIZE"
    using store_phase_overflow [of m "rl_start q b" r] assms inp by (force simp: rl_start_def)
  obtain c rest where r: "r = c # rest"
    using assms inp len store_phase [of m "rl_start q b" "[]"]
    by (cases r) (auto simp: rl_start_def)
  have "c = SP"
  proof (rule ccontr)
    assume "c \<noteq> SP"
    then have "fst (rl_loop (m @ c # rest) (rl_start q b)) = RL_error"
      using inp len r by (subst store_phase) (auto simp: rl_start_def rl_step_def)
    then show False using assms inp r by simp
  qed
  then show ?thesis
    using that [of m rest] inp r len assms by (simp add: method_done)
qed

lemma url_inv:
  assumes "fst (rl_loop inp (after_method q b m)) = RL_ok"
  obtains u rest where "inp = u @ SP # rest" and "all_valid u" and "length u + 1 < URI_LIMIT"
    and "fst (rl_loop rest (after_url q b m u)) = RL_ok"
proof -
  obtain u r where inp: "inp = u @ r" "all_valid u" "r = [] \<or> \<not> is_valid (hd r)"
    by (rule valid_prefix)
  have lt: "length u < URI_LIMIT"
    using url_phase_too_long [of u "after_method q b m" r] assms inp
    by (force simp: after_method_def URI_LIMIT_def)
  obtain c rest where r: "r = c # rest"
    using assms inp lt url_phase [of u "after_method q b m" "[]"]
    by (cases r) (auto simp: after_method_def)
  have "c = SP \<and> length u + 1 < URI_LIMIT"
  proof (rule ccontr)
    assume "\<not> (c = SP \<and> length u + 1 < URI_LIMIT)"
    then have "fst (rl_loop (u @ c # rest) (after_method q b m)) = RL_error"
      using inp lt r by (subst url_phase) (auto simp: after_method_def rl_step_def)
    then show False using assms inp r by simp
  qed
  then show ?thesis
    using that [of u rest] inp r assms by (simp add: url_done)
qed

lemma version_inv:
  assumes "fst (rl_loop inp (after_url q b m u)) = RL_ok"
  obtains v rest where "inp = v @ [CR, LF] @ rest" and "all_valid v" and "length v \<le> BUFFSIZE"
    and "version_fits v"
proof -
  let ?r = "after_url q b m u"
  have st: "rd_state ?r = S_version" "recv_num ?r = 0"
    by (simp_all add: after_url_def after_method_def Let_def)
  obtain v r where inp: "inp = v @ r" "all_valid v" "r = [] \<or> \<not> is_valid (hd r)"
    by (rule valid_prefix)
  have len: "length v \<le> BUFFSIZE"
    using store_phase_overflow [of v ?r r] assms inp st by force
  let ?s = "?r\<lparr>rd_buf := store (rd_buf ?r) 0 v, recv_num := length v\<rparr>"
  have run: "rl_loop inp ?r = rl_loop r ?s"
    using inp len st by (simp add: store_phase)
  obtain c rest where r: "r = c # rest"
    using assms run by (cases r) auto
  have c: "c = CR \<and> version_fits v"
  proof (rule ccontr)
    assume "\<not> (c = CR \<and> version_fits v)"
    then have "rl_step c ?s = Inl RL_error \<or> rl_step c ?s = Inl RL_overflow"
      using inp(3) r st version_fits_iff [of v "rd_buf ?r"]
      by (auto simp: rl_step_def split: option.splits)
    then show False using assms run r by auto
  qed
  then have "fst (rl_loop rest (after_version q b m u v)) = RL_ok"
    using assms inp r len by (simp add: version_done)
  moreover have "rd_state (after_version q b m u v) = S_done"
    by (simp add: after_version_def Let_def split: prod.split)
  ultimately obtain rest' where "rest = LF # rest'"
    by (cases rest) (auto simp: rl_step_def split: if_splits)
  then show ?thesis using that inp r c len by auto
qed

lemma rl_loop_ok_inv:
  assumes "fst (rl_loop inp (rl_start q b)) = RL_ok"
  obtains m u v rest where "inp = render_request m u v @ rest" and "request_ok m u v"
proof -
  obtain m r1 where 1: "inp = m @ SP # r1" "all_valid m" "length m \<le> BUFFSIZE"
    and ok1: "fst (rl_loop r1 (after_method q b m)) = RL_ok"
    using assms by (rule method_inv)
  obtain u r2 where 2: "r1 = u @ SP # r2" "all_valid u" "length u + 1 < URI_LIMIT"
    and ok2: "fst (rl_loop r2 (after_url q b m u)) = RL_ok"
    using ok1 by (rule url_inv)
  obtain v r3 where 3: "r2 = v @ [CR, LF] @ r3" "all_valid v" "length v \<le> BUFFSIZE" "version_fits v"
    using ok2 by (rule version_inv)
  show ?thesis
    by (rule that [of m u v r3]) (use 1 2 3 in \<open>auto simp: render_request_def request_ok_def\<close>)
qed

section \<open>What the buffers hold after an accepted line\<close>

text \<open>The first three bytes decide the method; the rest of the token is not looked at.\<close>

definition method_spec :: "string \<Rightarrow> http_method" where
  "method_spec m =
     (if hd m = CHR ''G'' \<and> strncasecmp ''GET'' m 3 = 0 then GET
      else if hd m = CHR ''P'' \<and> strncasecmp ''POST'' m 3 = 0 then POST else OTHER)"

lemma parse_method_spec:
  assumes "all_valid m" and "3 \<le> length m" and "length m \<le> BUFFSIZE"
  shows "parse_method (store b 0 m) n = method_spec m"
proof -
  have "cstr (store b 0 m) 0 BUFFSIZE = m @ cstr (store b 0 m) (length m) BUFFSIZE"
    using cstr_store_append [of m 0 BUFFSIZE b] assms by (simp add: all_valid_no_NUL)
  moreover have "store b 0 m 0 = hd m" using assms(2) by (cases m) (auto simp: store_apply)
  moreover have "strncasecmp ''GET'' (m @ x) 3 = strncasecmp ''GET'' m 3"
    "strncasecmp ''POST'' (m @ x) 3 = strncasecmp ''POST'' m 3" for x
    using assms(2) by (simp_all add: strncasecmp_append)
  ultimately show ?thesis by (simp add: parse_method_def method_spec_def Let_def)
qed

lemma after_version_meth: "meth (rd_req (after_version q b m u v)) = parse_method (store b 0 m) (length m)"
  by (simp add: after_version_def after_url_def after_method_def Let_def split: prod.split)

lemma after_version_uri:
  assumes "all_valid u" and "length u + 1 < URI_LIMIT"
  shows "cstr (req_uri (rd_req (after_version q b m u v))) 0 URI_LIMIT = u"
proof -
  have "req_uri (rd_req (after_version q b m u v)) = (store (req_uri q) 0 u)(length u := NUL)"
    by (simp add: after_version_def after_url_def after_method_def Let_def split: prod.split)
  then show ?thesis using cstr_store [of u 0 URI_LIMIT _ "req_uri q"] assms by (simp add: all_valid_no_NUL)
qed

lemma after_version_version:
  assumes "all_valid v" and "length v < BUFFSIZE"
  shows "version (rd_req (after_version q b m u v)) = version_spec v"
  using parse_version_spec [OF assms, of "rd_buf (after_url q b m u)"]
  by (auto simp: after_version_def Let_def)

section \<open>No overrun on short input\<close>

lemma rl_step_room:
  assumes "rl_step c r = Inr r'" and "recv_num r < BUFFSIZE"
  shows "recv_num r' \<le> recv_num r + 1"
  using assms by (auto simp: rl_step_def split: req_state.splits option.splits if_splits)

lemma rl_step_overflow: "rl_step c r = Inl RL_overflow \<Longrightarrow> BUFFSIZE \<le> recv_num r"
  using parse_version_None_length
  by (auto simp: rl_step_def split: req_state.splits option.splits if_splits)

lemma rl_loop_short: "recv_num r + length inp \<le> BUFFSIZE \<Longrightarrow> fst (rl_loop inp r) \<noteq> RL_overflow"
proof (induction inp arbitrary: r)
  case Nil
  then show ?case by simp
next
  case (Cons c cs)
  show ?case
  proof (cases "rl_step c r")
    case (Inl e)
    then show ?thesis using rl_step_overflow [of c r] Cons.prems by auto
  next
    case (Inr r')
    then have "recv_num r' + length cs \<le> BUFFSIZE"
      using rl_step_room [OF Inr] Cons.prems by simp
    then show ?thesis using Cons.IH Inr by simp
  qed
qed

text \<open>A method of more than \<open>BUFFSIZE\<close> bytes is written past the buffer.\<close>

lemma rl_loop_long_method:
  "all_valid m \<Longrightarrow> BUFFSIZE < length m \<Longrightarrow> fst (rl_loop (m @ rest) (rl_start q b)) = RL_overflow"
  by (rule store_phase_overflow) (simp_all add: rl_start_def)

lemma rl_loop_long_version:
  assumes "all_valid m" "all_valid u" "length u + 1 < URI_LIMIT" "all_valid v" "BUFFSIZE < length v"
  shows "fst (rl_loop (m @ SP # u @ SP # v @ rest) (rl_start q b)) = RL_overflow"
proof (cases "length m \<le> BUFFSIZE")
  case True
  have "rl_loop (m @ SP # u @ SP # v @ rest) (rl_start q b) = rl_loop (v @ rest) (after_url q b m u)"
    using assms True by (simp add: method_done url_done)
  moreover have "fst (rl_loop (v @ rest) (after_url q b m u)) = RL_overflow"
    by (rule store_phase_overflow) (use assms in \<open>simp_all add: after_url_def after_method_def Let_def\<close>)
  ultimately show ?thesis by simp
qed (use assms(1) rl_loop_long_method in simp)

end
