(* ===== verification/Machine.thy ===== *)
theory Machine
  imports Request_Line
begin

text \<open>
  The state one server process or thread works on, and the system calls the code makes on it.
  The kernel's side of a call is either part of the state (the bytes the peer has sent, the
  scripted results of the next \<open>send\<close> and \<open>waitpid\<close> calls) or a field of \<open>env\<close>, the parameter
  that stands for the file system and for the programs the server starts.
\<close>

section \<open>Constants of the platform\<close>

definition EINTR :: int where "EINTR = 4"
definition ECHILD :: int where "ECHILD = 10"
definition EACCES :: int where "EACCES = 13"
definition EPIPE :: int where "EPIPE = 32"
definition SIGKILL :: int where "SIGKILL = 9"
definition SIGPIPE :: int where "SIGPIPE = 13"
definition SIGALRM :: int where "SIGALRM = 14"
definition SIGTERM :: int where "SIGTERM = 15"

lemmas platform_defs = EINTR_def ECHILD_def EACCES_def EPIPE_def SIGKILL_def SIGPIPE_def SIGALRM_def SIGTERM_def

section \<open>What the kernel does\<close>

text \<open>Results of \<open>read\<close>: bytes, an interruption, an error; the end of the list is end of file.\<close>

datatype read_ev = Rd string | Rd_intr | Rd_err int

text \<open>Results of \<open>send\<close>: all bytes, some bytes, an error; the empty script means all bytes.\<close>

datatype send_ev = Snd_all | Snd_part nat | Snd_err int

text \<open>What happens while \<open>waitpid\<close> waits: a child is reaped, the call fails, or SIGALRM arrives.\<close>

datatype wait_ev = W_child | W_fail int | W_alarm

text \<open>
  Calls the code makes while it sets a server up or takes it down. They are recorded in order;
  \<open>fails\<close> below says which of them fail, and with which \<open>errno\<close>.
\<close>

datatype sockopt = SO_REUSEADDR | SO_REUSEPORT

datatype sys_call =
    C_socket
  | C_setsockopt int sockopt
  | C_bind int "16 word"
  | C_listen int int
  | C_chdir string
  | C_shm_rm int
  | C_sem_destroy
  | C_pthread_create nat
  | C_fork
  | C_write string

text \<open>
  The answers of the kernel. \<open>Inl\<close> is a failed call with its \<open>errno\<close>; a \<open>Some\<close> of
  \<open>faccess_errno\<close>, \<open>pipe_errno\<close> and \<open>fails\<close> is a failure too. \<open>fork_res\<close> is what the parent
  of a \<open>fork\<close> for a script sees, \<open>shmget_res\<close> the identifier that \<open>shmget\<close> returns, if any,
  and \<open>is_linux\<close> which branch of \<open>#ifdef __linux__\<close> is compiled.
\<close>

record env =
  stat_isdir :: "string \<Rightarrow> int + bool"
  faccess_errno :: "string \<Rightarrow> int option"
  open_rdonly :: "string \<Rightarrow> int + read_ev list"
  open_dir :: "string \<Rightarrow> int + string list"
  strerror :: "int \<Rightarrow> string"
  pipe_errno :: "int option"
  fork_res :: "int + int"
  is_linux :: bool
  sem_open_ok :: bool
  ftok_ok :: bool
  shmget_res :: "int option"
  shmat_ok :: bool
  fails :: "sys_call \<Rightarrow> int option"

text \<open>Data read in one call is not empty and fits the buffer given to \<open>read\<close>.\<close>

fun read_ev_ok :: "read_ev \<Rightarrow> bool" where
  "read_ev_ok (Rd d) \<longleftrightarrow> d \<noteq> [] \<and> length d \<le> BUFFSIZE"
| "read_ev_ok _ \<longleftrightarrow> True"

section \<open>The state\<close>

record share_statistics =
  title :: string
  requests :: int
  code_2xx :: int
  code_3xx :: int
  code_4xx :: int
  code_5xx :: int

datatype shut_how = SHUT_RD | SHUT_WR | SHUT_RDWR

text \<open>Handlers the code installs for SIGALRM: \<open>handle_sigalrm\<close>, \<open>handle_sigalrm_stop_scipt\<close>.\<close>

datatype sig_handler = H_default | H_sigalrm | H_sigalrm_stop_script

text \<open>
  The pointer \<open>share_address\<close>: null, into the attached segment, or neither (\<open>shmat\<close> reports a
  failure as \<open>(void *)-1\<close>, and \<open>shmdt\<close> leaves a dangling pointer).
\<close>

datatype shm_ptr = P_null | P_segment | P_wild

text \<open>
  \<open>rx\<close> and \<open>sendq\<close> are the peer's bytes and the results of the coming \<open>send\<close> calls of the
  connection being served, \<open>tx\<close> the bytes sent on it so far, \<open>replies\<close> what earlier connections
  of the same worker were sent. \<open>shm\<close> is the shared segment and \<open>shm_id\<close> the variable
  \<open>global_shm_id\<close>; \<open>sem\<close> is the value of the semaphore \<open>shm_sem\<close> and \<open>user1_sem\<close> that of the
  semaphore SIGUSR1 posts to, \<open>sem_exists\<close> and \<open>user1_exists\<close> whether their names exist.
  \<open>calls\<close> is the record of the set-up calls and \<open>printed\<close> what \<open>handler_siguser1\<close> printed.
\<close>

record sys =
  rx :: string
  sendq :: "send_ev list"
  tx :: string
  errno :: int
  sigpipe_ign :: bool
  share_address :: shm_ptr
  shm :: share_statistics
  shm_id :: int
  sem :: nat
  sem_exists :: bool
  user1_sem :: nat
  user1_exists :: bool
  calls :: "sys_call list"
  printed :: "int list"
  req_buf :: req_line
  recv_buffer :: buffer
  alarm_count :: int
  need_stop_script :: int
  alarm_handler :: sig_handler
  alarm_armed :: bool
  kills :: "(int \<times> int) list"
  waits :: "wait_ev list"
  fds :: "nat list"
  shut :: "(nat \<times> shut_how) list"
  replies :: "(nat \<times> string) list"

section \<open>Descriptors\<close>

text \<open>The kernel hands out the lowest descriptor that is not in use.\<close>

fun least_free :: "nat \<Rightarrow> nat \<Rightarrow> nat list \<Rightarrow> nat" where
  "least_free 0 n used = n"
| "least_free (Suc k) n used = (if n \<in> set used then least_free k (Suc n) used else n)"

definition fresh_fd :: "nat list \<Rightarrow> nat" where
  "fresh_fd used = least_free (length used) 0 used"

definition add_fd :: "(nat, sys) cmd" where
  "add_fd = (\<lambda>s. let fd = fresh_fd (fds s) in Ret fd (s\<lparr>fds := fd # fds s\<rparr>))"

definition c_close :: "nat \<Rightarrow> (unit, sys) cmd" where
  "c_close fd = modify (\<lambda>s. s\<lparr>fds := removeAll fd (fds s)\<rparr>)"

definition c_shutdown :: "nat \<Rightarrow> shut_how \<Rightarrow> (unit, sys) cmd" where
  "c_shutdown fd how = modify (\<lambda>s. s\<lparr>shut := shut s @ [(fd, how)]\<rparr>)"

definition set_errno :: "int \<Rightarrow> (unit, sys) cmd" where
  "set_errno e = modify (\<lambda>s. s\<lparr>errno := e\<rparr>)"

section \<open>send\<close>

text \<open>
  \<open>send(connfd, d, n, 0)\<close>. Without \<open>MSG_NOSIGNAL\<close> a broken connection raises SIGPIPE, which
  ends the process unless it is ignored; only then does the caller see -1 and \<open>EPIPE\<close>.
\<close>

definition c_send :: "string \<Rightarrow> (int, sys) cmd" where
  "c_send d = (\<lambda>s. case sendq s of
       [] \<Rightarrow> Ret (int (length d)) (s\<lparr>tx := tx s @ d\<rparr>)
     | Snd_all # q \<Rightarrow> Ret (int (length d)) (s\<lparr>tx := tx s @ d, sendq := q\<rparr>)
     | Snd_part n # q \<Rightarrow> Ret (int (length (take n d))) (s\<lparr>tx := tx s @ take n d, sendq := q\<rparr>)
     | Snd_err e # q \<Rightarrow>
         (if e = EPIPE \<and> \<not> sigpipe_ign s then Killed SIGPIPE (s\<lparr>sendq := q\<rparr>)
          else Ret (-1) (s\<lparr>sendq := q, errno := e\<rparr>)))"

text \<open>
  \<open>n = snprintf(send_buffer, BUFFSIZE, ...); send(connfd, send_buffer, n, 0)\<close>: \<open>snprintf\<close>
  keeps \<open>BUFFSIZE - 1\<close> bytes and a terminator but returns the full length, so \<open>send\<close> is given
  \<open>length str\<close> bytes of an 8192 byte buffer.
\<close>

definition send_fmt_ret :: "string \<Rightarrow> (int, sys) cmd" where
  "send_fmt_ret str =
     (if length str < BUFFSIZE then c_send str
      else if length str = BUFFSIZE then c_send (take (BUFFSIZE - 1) str @ [NUL])
      else faulting Over_Read)"

definition send_fmt :: "string \<Rightarrow> (unit, sys) cmd" where
  "send_fmt str = ignore (send_fmt_ret str)"

text \<open>\<open>%s\<close> of a null pointer prints \<open>(null)\<close> (glibc; ISO C leaves it undefined).\<close>

definition fmt_s :: "string option \<Rightarrow> string" where
  "fmt_s m = (case m of None \<Rightarrow> ''(null)'' | Some t \<Rightarrow> t)"

section \<open>Semaphores\<close>

definition sem_wait :: "(unit, sys) cmd" where
  "sem_wait = (\<lambda>s. case sem s of 0 \<Rightarrow> Blocked s | Suc n \<Rightarrow> Ret () (s\<lparr>sem := n\<rparr>))"

definition sem_post :: "(unit, sys) cmd" where
  "sem_post = modify (\<lambda>s. s\<lparr>sem := Suc (sem s)\<rparr>)"

section \<open>Facts about the calls\<close>

lemma c_send_plain [simp]: "sendq s = [] \<Longrightarrow> c_send d s = Ret (int (length d)) (s\<lparr>tx := tx s @ d\<rparr>)"
  by (simp add: c_send_def)

lemma send_fmt_plain [simp]:
  "sendq s = [] \<Longrightarrow> length d < BUFFSIZE \<Longrightarrow> send_fmt d s = Ret () (s\<lparr>tx := tx s @ d\<rparr>)"
  by (simp add: send_fmt_def send_fmt_ret_def)

lemma set_errno_apply [simp]: "set_errno e s = Ret () (s\<lparr>errno := e\<rparr>)"
  by (simp add: set_errno_def)

lemma c_close_apply [simp]: "c_close fd s = Ret () (s\<lparr>fds := removeAll fd (fds s)\<rparr>)"
  by (simp add: c_close_def)

lemma c_shutdown_apply [simp]: "c_shutdown fd how s = Ret () (s\<lparr>shut := shut s @ [(fd, how)]\<rparr>)"
  by (simp add: c_shutdown_def)

lemma add_fd_apply: "add_fd s = Ret (fresh_fd (fds s)) (s\<lparr>fds := fresh_fd (fds s) # fds s\<rparr>)"
  by (simp add: add_fd_def Let_def)

lemma sem_wait_simps [simp]:
  "sem s = 0 \<Longrightarrow> sem_wait s = Blocked s"
  "sem s = Suc n \<Longrightarrow> sem_wait s = Ret () (s\<lparr>sem := n\<rparr>)"
  by (simp_all add: sem_wait_def)

lemma sem_post_apply [simp]: "sem_post s = Ret () (s\<lparr>sem := Suc (sem s)\<rparr>)"
  by (simp add: sem_post_def)

lemma least_free_fresh:
  assumes "length (filter (\<lambda>x. n \<le> x) (remdups used)) \<le> k"
  shows "least_free k n used \<notin> set used"
  using assms
proof (induction k arbitrary: n)
  case 0
  then show ?case by (auto simp: filter_empty_conv)
next
  case (Suc k)
  show ?case
  proof (cases "n \<in> set used")
    case True
    have "length (filter (\<lambda>x. n \<le> x) (remdups used)) =
          card ({x \<in> set used. n \<le> x})"
      by (simp add: distinct_card [symmetric])
    moreover have "length (filter (\<lambda>x. Suc n \<le> x) (remdups used)) =
          card ({x \<in> set used. Suc n \<le> x})"
      by (simp add: distinct_card [symmetric])
    moreover have "{x \<in> set used. n \<le> x} = insert n {x \<in> set used. Suc n \<le> x}"
      using True by auto
    ultimately have "length (filter (\<lambda>x. Suc n \<le> x) (remdups used)) \<le> k"
      using Suc.prems by simp
    with True Suc.IH show ?thesis by simp
  next
    case False
    then show ?thesis by simp
  qed
qed

lemma fresh_fd_fresh: "fresh_fd used \<notin> set used"
  unfolding fresh_fd_def
  by (rule least_free_fresh) (metis filter_True le_trans length_filter_le length_remdups_leq)

text \<open>Which fields \<open>send\<close> and its wrappers touch.\<close>

lemma frames_c_send [frame_intros]:
  assumes "\<And>s t q. f (s\<lparr>tx := t, sendq := q\<rparr>) = f s" and "\<And>s t. f (s\<lparr>tx := t\<rparr>) = f s"
    and "\<And>s q. f (s\<lparr>sendq := q\<rparr>) = f s" and "\<And>s q e. f (s\<lparr>sendq := q, errno := e\<rparr>) = f s"
  shows "frames f (c_send d)"
  using assms by (intro framesI) (auto simp: c_send_def split: list.split send_ev.split)

lemma frames_send_fmt_ret [frame_intros]:
  assumes "\<And>s t q. f (s\<lparr>tx := t, sendq := q\<rparr>) = f s" and "\<And>s t. f (s\<lparr>tx := t\<rparr>) = f s"
    and "\<And>s q. f (s\<lparr>sendq := q\<rparr>) = f s" and "\<And>s q e. f (s\<lparr>sendq := q, errno := e\<rparr>) = f s"
  shows "frames f (send_fmt_ret d)"
  unfolding send_fmt_ret_def using assms
  by (intro frames_if frames_c_send frames_faulting) auto

lemma frames_send_fmt [frame_intros]:
  assumes "\<And>s t q. f (s\<lparr>tx := t, sendq := q\<rparr>) = f s" and "\<And>s t. f (s\<lparr>tx := t\<rparr>) = f s"
    and "\<And>s q. f (s\<lparr>sendq := q\<rparr>) = f s" and "\<And>s q e. f (s\<lparr>sendq := q, errno := e\<rparr>) = f s"
  shows "frames f (send_fmt d)"
  unfolding send_fmt_def using assms by (intro frames_ignore frames_send_fmt_ret) auto

lemma frames_sem_wait [frame_intros]: "(\<And>s n. f (s\<lparr>sem := n\<rparr>) = f s) \<Longrightarrow> frames f sem_wait"
  by (intro framesI) (auto simp: sem_wait_def split: nat.split)

lemma frames_sem_post [frame_intros]: "(\<And>s n. f (s\<lparr>sem := n\<rparr>) = f s) \<Longrightarrow> frames f sem_post"
  unfolding sem_post_def by (intro frames_modify) auto

end
