(* ===== verification/Stats.thy ===== *)
theory Stats
  imports Machine
begin

text \<open>
  The shared statistics and \<open>write_code\<close>, in its two versions: the process servers
  (\<open>multi_server.c\<close>, the pre-forked pool, the socket-passing pool) release the semaphore, the
  thread servers do not. The contract that the rest of a server relies on is the locale
  \<open>status_writer\<close>; what sets the two versions apart is in its extensions.
\<close>

section \<open>Counting\<close>

text \<open>\<open>++\<close> on a C \<open>int\<close>: overflow is undefined.\<close>

definition incr :: "int \<Rightarrow> int option" where
  "incr n = (if n < INT_MAX then Some (n + 1) else None)"

definition count_code :: "int \<Rightarrow> share_statistics \<Rightarrow> share_statistics option" where
  "count_code code st =
     (case incr (requests st) of
        None \<Rightarrow> None
      | Some r \<Rightarrow>
          (let st' = st\<lparr>requests := r\<rparr>; k = code div 100
           in if k = 2 then map_option (\<lambda>v. st'\<lparr>code_2xx := v\<rparr>) (incr (code_2xx st'))
              else if k = 3 then map_option (\<lambda>v. st'\<lparr>code_3xx := v\<rparr>) (incr (code_3xx st'))
              else if k = 4 then map_option (\<lambda>v. st'\<lparr>code_4xx := v\<rparr>) (incr (code_4xx st'))
              else if k = 5 then map_option (\<lambda>v. st'\<lparr>code_5xx := v\<rparr>) (incr (code_5xx st'))
              else Some st'))"

text \<open>
  The body between \<open>sem_wait\<close> and \<open>sem_post\<close>. \<open>++share_address->requests\<close> comes before the
  test \<open>if (share_address)\<close>, so a null pointer is dereferenced and the test is always true.
\<close>

definition tally :: "int \<Rightarrow> (unit, sys) cmd" where
  "tally code = (\<lambda>s.
     case share_address s of
       P_null \<Rightarrow> Fault Null_Deref
     | P_wild \<Rightarrow> Fault Wild_Deref
     | P_segment \<Rightarrow> (case count_code code (shm s) of
           None \<Rightarrow> Fault Int_Overflow
         | Some st \<Rightarrow> Ret () (s\<lparr>shm := st\<rparr>)))"

section \<open>write_code\<close>

definition ms_write_code :: "int \<Rightarrow> (unit, sys) cmd" where
  "ms_write_code code = block [sem_wait, tally code, sem_post]"

definition thr_write_code :: "int \<Rightarrow> (unit, sys) cmd" where
  "thr_write_code code = block [sem_wait, tally code]"

text \<open>
  The copies in the other files: \<open>pf_\<close> and \<open>ps_\<close> for the two pools of processes, \<open>th_\<close>, \<open>pc_\<close>
  and \<open>mp_\<close> for the other thread servers.
\<close>

definition pf_write_code :: "int \<Rightarrow> (unit, sys) cmd" where
  "pf_write_code code = block [sem_wait, tally code, sem_post]"

definition ps_write_code :: "int \<Rightarrow> (unit, sys) cmd" where
  "ps_write_code code = block [sem_wait, tally code, sem_post]"

definition th_write_code :: "int \<Rightarrow> (unit, sys) cmd" where
  "th_write_code code = block [sem_wait, tally code]"

definition pc_write_code :: "int \<Rightarrow> (unit, sys) cmd" where
  "pc_write_code code = block [sem_wait, tally code]"

definition mp_write_code :: "int \<Rightarrow> (unit, sys) cmd" where
  "mp_write_code code = block [sem_wait, tally code]"

lemma write_code_copies [simp]:
  "pf_write_code = ms_write_code" "ps_write_code = ms_write_code"
  "th_write_code = thr_write_code" "pc_write_code = thr_write_code" "mp_write_code = thr_write_code"
  by (intro ext; simp only: ms_write_code_def thr_write_code_def pf_write_code_def ps_write_code_def th_write_code_def pc_write_code_def mp_write_code_def)+

text \<open>\<open>main\<close> of every server with statistics fills the shared memory with these values.\<close>

definition init_statistics :: share_statistics where
  "init_statistics = \<lparr>title = ''Server Statistics'', requests = 0, code_2xx = 0, code_3xx = 0,
     code_4xx = 0, code_5xx = 0\<rparr>"

section \<open>Invariant of the counters\<close>

definition class_sum :: "share_statistics \<Rightarrow> int" where
  "class_sum st = code_2xx st + code_3xx st + code_4xx st + code_5xx st"

definition stats_inv :: "share_statistics \<Rightarrow> bool" where
  "stats_inv st \<longleftrightarrow> 0 \<le> code_2xx st \<and> 0 \<le> code_3xx st \<and> 0 \<le> code_4xx st \<and> 0 \<le> code_5xx st
     \<and> class_sum st \<le> requests st \<and> requests st \<le> INT_MAX"

lemma stats_inv_init: "stats_inv init_statistics"
  by (simp add: stats_inv_def class_sum_def init_statistics_def INT_MAX_def)

text \<open>Under the invariant only \<open>requests\<close> itself can overflow.\<close>

lemma count_code_defined:
  assumes "stats_inv st" and "requests st < INT_MAX"
  obtains st' where "count_code code st = Some st'"
  using assms unfolding stats_inv_def class_sum_def count_code_def incr_def Let_def
  by (cases "code div 100 = 2"; cases "code div 100 = 3"; cases "code div 100 = 4";
      cases "code div 100 = 5") auto

lemma count_code_inv:
  assumes "count_code code st = Some st'" and "stats_inv st"
  shows "stats_inv st'"
  using assms unfolding count_code_def
  by (auto simp: Let_def incr_def stats_inv_def class_sum_def split: option.splits if_splits)

lemma count_code_requests: "count_code code st = Some st' \<Longrightarrow> requests st' = requests st + 1"
  by (auto simp: count_code_def Let_def incr_def split: option.splits if_splits)

text \<open>The counter of a class goes up by one exactly on a code of that class.\<close>

lemma count_code_classes:
  assumes "count_code code st = Some st'"
  shows "code_2xx st' = code_2xx st + of_bool (code div 100 = 2)"
    and "code_3xx st' = code_3xx st + of_bool (code div 100 = 3)"
    and "code_4xx st' = code_4xx st + of_bool (code div 100 = 4)"
    and "code_5xx st' = code_5xx st + of_bool (code div 100 = 5)"
  using assms by (auto simp: count_code_def Let_def incr_def split: option.splits if_splits)

text \<open>The reference: the codes counted one after the other.\<close>

fun count_all :: "int list \<Rightarrow> share_statistics \<Rightarrow> share_statistics option" where
  "count_all [] st = Some st"
| "count_all (c # cs) st = (case count_code c st of None \<Rightarrow> None | Some st' \<Rightarrow> count_all cs st')"

lemma count_all_append:
  "count_all (cs @ ds) st = (case count_all cs st of None \<Rightarrow> None | Some st' \<Rightarrow> count_all ds st')"
  by (induction cs arbitrary: st) (auto split: option.split)

lemma count_all_requests: "count_all cs st = Some st' \<Longrightarrow> requests st' = requests st + int (length cs)"
proof (induction cs arbitrary: st)
  case Nil
  then show ?case by simp
next
  case (Cons c cs)
  then show ?case using count_code_requests [of c st] by (auto split: option.splits)
qed

lemma count_all_inv: "count_all cs st = Some st' \<Longrightarrow> stats_inv st \<Longrightarrow> stats_inv st'"
  by (induction cs arbitrary: st) (auto intro: count_code_inv split: option.splits)

lemma count_all_classes:
  "count_all cs st = Some st' \<Longrightarrow>
     code_2xx st' = code_2xx st + int (length (filter (\<lambda>c. c div 100 = 2) cs))
   \<and> code_3xx st' = code_3xx st + int (length (filter (\<lambda>c. c div 100 = 3) cs))
   \<and> code_4xx st' = code_4xx st + int (length (filter (\<lambda>c. c div 100 = 4) cs))
   \<and> code_5xx st' = code_5xx st + int (length (filter (\<lambda>c. c div 100 = 5) cs))"
proof (induction cs arbitrary: st)
  case Nil
  then show ?case by simp
next
  case (Cons c cs)
  obtain st1 where st1: "count_code c st = Some st1" "count_all cs st1 = Some st'"
    using Cons.prems by (auto split: option.splits)
  show ?case using Cons.IH [OF st1(2)] count_code_classes [OF st1(1)] by simp
qed

section \<open>The contract of write_code\<close>

text \<open>Everything of the state but the counters and the semaphore.\<close>

definition io_view :: "sys \<Rightarrow> sys" where
  "io_view s = s\<lparr>shm := init_statistics, sem := 0\<rparr>"

lemma io_view_simps [simp]:
  "io_view (s\<lparr>sem := n\<rparr>) = io_view s" "io_view (s\<lparr>shm := a\<rparr>) = io_view s"
  by (simp_all add: io_view_def)

lemma frames_tally: "(\<And>s a. f (s\<lparr>shm := a\<rparr>) = f s) \<Longrightarrow> frames f (tally code)"
  by (intro framesI) (auto simp: tally_def split: option.split shm_ptr.split)

lemma frames_io_view:
  assumes "frames io_view c" and "\<And>s. f (io_view s) = f s"
  shows "frames f c"
  unfolding frames_def
proof
  fix s
  have "outcome_all (\<lambda>s'. io_view s' = io_view s) (c s)" using assms(1) by (simp add: frames_def)
  then show "outcome_all (\<lambda>s'. f s' = f s) (c s)"
    by (rule outcome_all_mono) (metis assms(2))
qed

text \<open>
  \<open>status_writer\<close> is what the rest of a server needs of \<open>write_code\<close>: it leaves the connection,
  the buffers and the descriptors alone. A \<open>releasing_writer\<close> gives the semaphore back, a
  \<open>holding_writer\<close> keeps it.
\<close>

locale status_writer =
  fixes wc :: "int \<Rightarrow> (unit, sys) cmd"
  assumes wc_frame: "frames io_view (wc code)"

locale releasing_writer = status_writer +
  assumes wc_releases: "sem s = Suc n \<Longrightarrow> share_address s = P_segment \<Longrightarrow>
    count_code code (shm s) = Some st \<Longrightarrow> wc code s = Ret () (s\<lparr>shm := st\<rparr>)"

locale holding_writer = status_writer +
  assumes wc_holds: "sem s = Suc n \<Longrightarrow> share_address s = P_segment \<Longrightarrow>
    count_code code (shm s) = Some st \<Longrightarrow> wc code s = Ret () (s\<lparr>sem := n, shm := st\<rparr>)"
  and wc_blocks: "sem s = 0 \<Longrightarrow> wc code s = Blocked s"

text \<open>
  What both have in common, as far as the counters go: a call that returns has counted its code
  once and used up \<open>cost\<close> units of the semaphore, 0 or 1.
\<close>

locale counting_writer = status_writer +
  fixes cost :: nat
  assumes wc_counts: "wc code s = Ret u s' \<Longrightarrow>
    count_code code (shm s) = Some (shm s') \<and> sem s = sem s' + cost"

context status_writer
begin

lemma wc_frames: "(\<And>s. f (io_view s) = f s) \<Longrightarrow> frames f (wc code)"
  using wc_frame by (rule frames_io_view)

end

lemma tally_Ret:
  "tally code s = Ret u s' \<Longrightarrow>
     share_address s = P_segment \<and> (\<exists>st. count_code code (shm s) = Some st \<and> s' = s\<lparr>shm := st\<rparr>)"
  by (auto simp: tally_def split: shm_ptr.splits option.splits)

interpretation ms: releasing_writer ms_write_code
proof unfold_locales
  show "frames io_view (ms_write_code code)" for code
    unfolding ms_write_code_def by (intro frames_block) (auto intro!: frame_intros frames_tally)
next
  fix s :: sys and n code st
  assume "sem s = Suc n" "share_address s = P_segment" "count_code code (shm s) = Some st"
  then show "ms_write_code code s = Ret () (s\<lparr>shm := st\<rparr>)"
    by (simp add: ms_write_code_def tally_def)
qed

interpretation thr: holding_writer thr_write_code
proof unfold_locales
  show "frames io_view (thr_write_code code)" for code
    unfolding thr_write_code_def by (intro frames_block) (auto intro!: frame_intros frames_tally)
next
  fix s :: sys and n code st
  assume "sem s = Suc n" "share_address s = P_segment" "count_code code (shm s) = Some st"
  then show "thr_write_code code s = Ret () (s\<lparr>sem := n, shm := st\<rparr>)"
    by (simp add: thr_write_code_def tally_def)
next
  fix s :: sys and code
  assume "sem s = 0"
  then show "thr_write_code code s = Blocked s" by (simp add: thr_write_code_def)
qed

interpretation ms: counting_writer ms_write_code 0
proof unfold_locales
  fix code s u s'
  assume "ms_write_code code s = Ret u s'"
  then show "count_code code (shm s) = Some (shm s') \<and> sem s = sem s' + 0"
    by (auto simp: ms_write_code_def bindC_Ret_iff sem_wait_def dest!: tally_Ret split: nat.splits)
qed

interpretation thr: counting_writer thr_write_code 1
proof unfold_locales
  fix code s u s'
  assume "thr_write_code code s = Ret u s'"
  then show "count_code code (shm s) = Some (shm s') \<and> sem s = sem s' + 1"
    by (auto simp: thr_write_code_def bindC_Ret_iff sem_wait_def dest!: tally_Ret split: nat.splits)
qed

section \<open>How many requests a command counts\<close>

text \<open>
  \<open>answers cost l h c\<close>: a run of \<open>c\<close> that returns has counted between \<open>l\<close> and \<open>h\<close> codes, one
  after the other, and used up \<open>cost\<close> units of the semaphore for each.
\<close>

named_theorems answers_intros

definition answers :: "nat \<Rightarrow> nat \<Rightarrow> nat \<Rightarrow> ('a, sys) cmd \<Rightarrow> bool" where
  "answers cost l h c \<longleftrightarrow> (\<forall>s a s'. c s = Ret a s' \<longrightarrow>
     (\<exists>codes. l \<le> length codes \<and> length codes \<le> h \<and>
        count_all codes (shm s) = Some (shm s') \<and> sem s = sem s' + cost * length codes))"

lemma answersI:
  assumes "\<And>s a s'. c s = Ret a s' \<Longrightarrow> \<exists>codes. l \<le> length codes \<and> length codes \<le> h \<and>
        count_all codes (shm s) = Some (shm s') \<and> sem s = sem s' + cost * length codes"
  shows "answers cost l h c"
  using assms by (simp add: answers_def)

lemma answersE:
  assumes "answers cost l h c" and "c s = Ret a s'"
  obtains codes where "l \<le> length codes" "length codes \<le> h"
    "count_all codes (shm s) = Some (shm s')" "sem s = sem s' + cost * length codes"
  using assms unfolding answers_def by blast

lemma answers_weaken: "answers cost l h c \<Longrightarrow> l' \<le> l \<Longrightarrow> h \<le> h' \<Longrightarrow> answers cost l' h' c"
  unfolding answers_def by (meson le_trans)

lemma answers_bind [answers_intros]:
  assumes "answers cost l1 h1 m" and "\<And>a. answers cost l2 h2 (k a)"
  shows "answers cost (l1 + l2) (h1 + h2) (bindC m k)"
proof (rule answersI)
  fix s b s'
  assume "bindC m k s = Ret b s'"
  then obtain a t where mt: "m s = Ret a t" and kt: "k a t = Ret b s'"
    by (auto simp: bindC_Ret_iff)
  obtain cs where cs: "l1 \<le> length cs" "length cs \<le> h1" "count_all cs (shm s) = Some (shm t)"
      "sem s = sem t + cost * length cs" by (rule answersE [OF assms(1) mt])
  obtain ds where ds: "l2 \<le> length ds" "length ds \<le> h2" "count_all ds (shm t) = Some (shm s')"
      "sem t = sem s' + cost * length ds" by (rule answersE [OF assms(2) kt])
  show "\<exists>codes. l1 + l2 \<le> length codes \<and> length codes \<le> h1 + h2 \<and>
      count_all codes (shm s) = Some (shm s') \<and> sem s = sem s' + cost * length codes"
    by (rule exI [of _ "cs @ ds"]) (use cs ds in \<open>simp add: count_all_append add_mult_distrib2\<close>)
qed

lemma answers_silent:
  assumes "frames shm c" and "frames sem c"
  shows "answers cost 0 0 c"
proof (rule answersI)
  fix s a s'
  assume "c s = Ret a s'"
  then have "shm s' = shm s" "sem s' = sem s"
    using frames_Ret [OF assms(1)] frames_Ret [OF assms(2)] by auto
  then show "\<exists>codes. 0 \<le> length codes \<and> length codes \<le> 0 \<and> count_all codes (shm s) = Some (shm s') \<and>
      sem s = sem s' + cost * length codes"
    by (intro exI [of _ "[]"]) simp
qed

lemma answers_get [answers_intros]: "(\<And>s. answers cost l h (k s)) \<Longrightarrow> answers cost l h (get k)"
  unfolding answers_def by simp

lemma answers_if [answers_intros]:
  "answers cost l1 h1 c \<Longrightarrow> answers cost l2 h2 d \<Longrightarrow>
   answers cost (min l1 l2) (max h1 h2) (if b then c else d)"
  by (auto elim: answers_weaken)

lemma answers_faulting: "answers cost l h (faulting f)"
  by (simp add: answers_def)

lemma answers_block_Nil: "answers cost 0 0 (block [])"
  by (simp add: answers_def)

lemma answers_block_Cons:
  "answers cost l1 h1 c \<Longrightarrow> answers cost l2 h2 (block cs) \<Longrightarrow>
   answers cost (l1 + l2) (h1 + h2) (block (c # cs))"
  unfolding block.simps by (rule answers_bind)

context counting_writer
begin

lemma answers_wc: "answers cost 1 1 (wc code)"
proof (rule answersI)
  fix s u s'
  assume "wc code s = Ret u s'"
  then have "count_code code (shm s) = Some (shm s') \<and> sem s = sem s' + cost" by (rule wc_counts)
  then show "\<exists>codes. 1 \<le> length codes \<and> length codes \<le> 1 \<and>
      count_all codes (shm s) = Some (shm s') \<and> sem s = sem s' + cost * length codes"
    by (intro exI [of _ "[code]"]) simp
qed

end

end
