(* ===== verification/Serve.thy ===== *)
theory Serve
  imports Stats
begin

text \<open>
  Answering a request: \<open>response\<close>, \<open>read_request_line\<close>, the static files of \<open>req_parser\<close>, the
  directory listings \<open>ls_version_one\<close> and \<open>ls_version_two\<close>. Each C file links its copy of these
  functions with its own \<open>write_code\<close>; here that function is the argument \<open>wc\<close>, and the linked
  copies \<open>ms_...\<close> (processes) and \<open>thr_...\<close> (threads) stand at the end of the theory.
\<close>

section \<open>response\<close>

text \<open>The size argument \<open>m_size\<close> of the C function is not used by its body.\<close>

definition response :: "(int \<Rightarrow> (unit, sys) cmd) \<Rightarrow> int \<Rightarrow> string \<Rightarrow> string option \<Rightarrow> (unit, sys) cmd" where
  "response wc status_code reason_phrase message = block
     [send_fmt (''HTTP/1.1 '' @ dec_int status_code @ '' '' @ reason_phrase @ CRLF),
      send_fmt (''Content-Type: text/html; charset=utf-8'' @ CRLF),
      send_fmt CRLF,
      send_fmt (fmt_s message @ CRLF),
      wc status_code]"

section \<open>read_request_line\<close>

text \<open>
  \<open>resp\<close> is the \<open>response\<close> of the program the parser is linked into. The result is 0 or
  \<open>IS_ERROR\<close>; a write past \<open>recv_buffer\<close> is a fault.
\<close>

definition IS_ERROR :: int where "IS_ERROR = -1"

definition read_request_line ::
  "(int \<Rightarrow> string \<Rightarrow> string option \<Rightarrow> (unit, sys) cmd) \<Rightarrow> (int, sys) cmd" where
  "read_request_line resp = get (\<lambda>s.
     case rl_loop (rx s) (rl_start (req_buf s) (recv_buffer s)) of
       (e, r, rest) \<Rightarrow>
         bindC (modify (\<lambda>s. s\<lparr>rx := rest, req_buf := rd_req r, recv_buffer := rd_buf r\<rparr>)) (\<lambda>_.
           case e of
             RL_ok \<Rightarrow> ret 0
           | RL_overflow \<Rightarrow> faulting Heap_Overflow
           | RL_error \<Rightarrow> bindC (resp 400 ''Bad request'' None) (\<lambda>_. ret IS_ERROR)))"

section \<open>Copying a descriptor to the connection\<close>

text \<open>
  \<open>while ((ret = read(fd, send_buffer, BUFFSIZE)) != 0) { ... send(connfd, send_buffer, ret, 0); }\<close>:
  an interrupted call is repeated, any other error ends the loop.
\<close>

fun copy_loop :: "read_ev list \<Rightarrow> (unit, sys) cmd" where
  "copy_loop [] = ret ()"
| "copy_loop (Rd_intr # es) = bindC (set_errno EINTR) (\<lambda>_. copy_loop es)"
| "copy_loop (Rd_err e # es) = set_errno e"
| "copy_loop (Rd d # es) =
     (if d = [] then ret () else bindC (c_send d) (\<lambda>_. copy_loop es))"

section \<open>Paths\<close>

definition uri_at :: "req_line \<Rightarrow> nat \<Rightarrow> string" where
  "uri_at q i = cstr (req_uri q) i URI_LIMIT"

definition is_dir :: "env \<Rightarrow> string \<Rightarrow> (bool, sys) cmd" where
  "is_dir E path = (case stat_isdir E path of
       Inl e \<Rightarrow> bindC (set_errno e) (\<lambda>_. ret False)
     | Inr d \<Rightarrow> ret d)"

section \<open>req_parser\<close>

text \<open>\<open>for (; i < URI_LIMIT && uri[i] != 0; ++i) if (uri[i] == '?') { uri[i] = 0; break; }\<close>\<close>

definition cut_query :: "req_line \<Rightarrow> nat \<times> req_line" where
  "cut_query q =
     (let i = scan (\<lambda>c. c = NUL \<or> c = CHR ''?'') (req_uri q) 0 URI_LIMIT
      in if i < URI_LIMIT \<and> req_uri q i = CHR ''?''
         then (i, q\<lparr>req_uri := (req_uri q)(i := NUL)\<rparr>) else (i, q))"

definition req_parser :: "(int \<Rightarrow> (unit, sys) cmd) \<Rightarrow> env \<Rightarrow> (unit, sys) cmd" where
  "req_parser wc E = get (\<lambda>s0.
     case cut_query (req_buf s0) of (i, q) \<Rightarrow>
       bindC (modify (\<lambda>s. s\<lparr>req_buf := q\<rparr>)) (\<lambda>_.
         let file_path = uri_at q 1
         in if i > 0 then
              (case faccess_errno E file_path of
                 Some e \<Rightarrow> block [set_errno e, response wc 404 ''not found'' (Some (strerror E e))]
               | None \<Rightarrow>
                   (case open_rdonly E file_path of
                      Inl e \<Rightarrow> block
                        [set_errno e,
                         if e = EACCES then response wc 403 ''require permissions'' (Some (strerror E e))
                         else response wc 500 ''server error'' (Some (strerror E e))]
                    | Inr contents \<Rightarrow>
                        bindC add_fd (\<lambda>fd. block
                          [send_fmt (''HTTP/1.1 '' @ dec_int 200 @ '' '' @ ''Ok'' @ CRLF),
                           wc 200,
                           send_fmt CRLF,
                           copy_loop contents])))
            else response wc 200 ''Ok'' None))"

section \<open>Directory listings\<close>

definition ls_version_two :: "(int \<Rightarrow> (unit, sys) cmd) \<Rightarrow> env \<Rightarrow> string \<Rightarrow> (unit, sys) cmd" where
  "ls_version_two wc E path =
     (case open_dir E path of
        Inr entries \<Rightarrow> bindC add_fd (\<lambda>dirfd. block
          ([set_errno 0,
            send_fmt (''HTTP/1.1 '' @ dec_int 200 @ '' '' @ ''Ok'' @ CRLF),
            wc 200,
            send_fmt (''content-type: text/json; charset=UTF-8'' @ CRLF),
            send_fmt CRLF] @
           map (\<lambda>d_name. send_fmt (d_name @ [LF])) entries @
           [send_fmt CRLF, c_close dirfd]))
      | Inl e \<Rightarrow> block [set_errno e, response wc 500 ''server error'' (Some ''call opendir error'')])"

text \<open>
  \<open>pipe_read\<close> makes a pipe and a child that runs \<open>ls\<close>. What the child does after \<open>fork\<close> is a
  list of calls; the parent keeps the read end, or leaks both ends when \<open>fork\<close> fails.
\<close>

datatype child_act = A_close nat | A_dup2 nat nat | A_setpgid | A_execl string "string list" | A_exit int

definition pipe_read_child :: "nat \<Rightarrow> nat \<Rightarrow> string \<Rightarrow> child_act list" where
  "pipe_read_child rfd wfd file_path =
     [A_close rfd, A_dup2 wfd 1, A_dup2 wfd 2,
      A_execl ''/bin/ls'' [''ls'', ''-al'', file_path], A_exit 127]"

definition pipe_read :: "env \<Rightarrow> string \<Rightarrow> (int, sys) cmd" where
  "pipe_read E file_path =
     (case pipe_errno E of
        Some e \<Rightarrow> bindC (set_errno e) (\<lambda>_. ret (-1))
      | None \<Rightarrow> bindC add_fd (\<lambda>rfd. bindC add_fd (\<lambda>wfd.
          (case fork_res E of
             Inl e \<Rightarrow> bindC (set_errno e) (\<lambda>_. ret (-1))
           | Inr pid \<Rightarrow> bindC (c_close wfd) (\<lambda>_. ret (int rfd))))))"

text \<open>\<open>closes\<close>: the thread servers end with \<open>close(fd)\<close>, the process servers do not.\<close>

definition ls_version_one ::
  "(int \<Rightarrow> (unit, sys) cmd) \<Rightarrow> bool \<Rightarrow> env \<Rightarrow> read_ev list \<Rightarrow> string \<Rightarrow> (unit, sys) cmd" where
  "ls_version_one wc closes E child_output path =
     bindC (pipe_read E path) (\<lambda>fd.
       if fd = -1 then response wc 500 ''Ok'' (Some ''pipe read error'')
       else block
         ([send_fmt (''HTTP/1.1 '' @ dec_int 200 @ '' '' @ ''Ok'' @ CRLF),
           wc 200,
           send_fmt CRLF,
           copy_loop child_output] @ (if closes then [c_close (nat fd)] else [])))"

section \<open>The linked copies\<close>

definition ms_response :: "int \<Rightarrow> string \<Rightarrow> string option \<Rightarrow> (unit, sys) cmd" where
  "ms_response = response ms_write_code"

definition ms_read_request_line :: "(int, sys) cmd" where
  "ms_read_request_line = read_request_line ms_response"

definition ms_req_parser :: "env \<Rightarrow> (unit, sys) cmd" where
  "ms_req_parser = req_parser ms_write_code"

definition ms_ls_version_two :: "env \<Rightarrow> string \<Rightarrow> (unit, sys) cmd" where
  "ms_ls_version_two = ls_version_two ms_write_code"

definition ms_ls_version_one :: "env \<Rightarrow> read_ev list \<Rightarrow> string \<Rightarrow> (unit, sys) cmd" where
  "ms_ls_version_one = ls_version_one ms_write_code False"

definition thr_response :: "int \<Rightarrow> string \<Rightarrow> string option \<Rightarrow> (unit, sys) cmd" where
  "thr_response = response thr_write_code"

definition thr_read_request_line :: "(int, sys) cmd" where
  "thr_read_request_line = read_request_line thr_response"

definition thr_req_parser :: "env \<Rightarrow> (unit, sys) cmd" where
  "thr_req_parser = req_parser thr_write_code"

definition thr_ls_version_two :: "env \<Rightarrow> string \<Rightarrow> (unit, sys) cmd" where
  "thr_ls_version_two = ls_version_two thr_write_code"

definition thr_ls_version_one :: "env \<Rightarrow> read_ev list \<Rightarrow> string \<Rightarrow> (unit, sys) cmd" where
  "thr_ls_version_one = ls_version_one thr_write_code True"

text \<open>The copies in the other files, each linked with its own functions.\<close>

definition pf_response :: "int \<Rightarrow> string \<Rightarrow> string option \<Rightarrow> (unit, sys) cmd" where
  "pf_response = response pf_write_code"

definition pf_read_request_line :: "(int, sys) cmd" where
  "pf_read_request_line = read_request_line pf_response"

definition pf_req_parser :: "env \<Rightarrow> (unit, sys) cmd" where
  "pf_req_parser = req_parser pf_write_code"

definition pf_ls_version_two :: "env \<Rightarrow> string \<Rightarrow> (unit, sys) cmd" where
  "pf_ls_version_two = ls_version_two pf_write_code"

definition pf_ls_version_one :: "env \<Rightarrow> read_ev list \<Rightarrow> string \<Rightarrow> (unit, sys) cmd" where
  "pf_ls_version_one = ls_version_one pf_write_code False"

definition ps_response :: "int \<Rightarrow> string \<Rightarrow> string option \<Rightarrow> (unit, sys) cmd" where
  "ps_response = response ps_write_code"

definition ps_read_request_line :: "(int, sys) cmd" where
  "ps_read_request_line = read_request_line ps_response"

definition ps_req_parser :: "env \<Rightarrow> (unit, sys) cmd" where
  "ps_req_parser = req_parser ps_write_code"

definition ps_ls_version_two :: "env \<Rightarrow> string \<Rightarrow> (unit, sys) cmd" where
  "ps_ls_version_two = ls_version_two ps_write_code"

definition ps_ls_version_one :: "env \<Rightarrow> read_ev list \<Rightarrow> string \<Rightarrow> (unit, sys) cmd" where
  "ps_ls_version_one = ls_version_one ps_write_code False"

definition th_response :: "int \<Rightarrow> string \<Rightarrow> string option \<Rightarrow> (unit, sys) cmd" where
  "th_response = response th_write_code"

definition th_read_request_line :: "(int, sys) cmd" where
  "th_read_request_line = read_request_line th_response"

definition th_req_parser :: "env \<Rightarrow> (unit, sys) cmd" where
  "th_req_parser = req_parser th_write_code"

definition th_ls_version_two :: "env \<Rightarrow> string \<Rightarrow> (unit, sys) cmd" where
  "th_ls_version_two = ls_version_two th_write_code"

definition th_ls_version_one :: "env \<Rightarrow> read_ev list \<Rightarrow> string \<Rightarrow> (unit, sys) cmd" where
  "th_ls_version_one = ls_version_one th_write_code True"

definition pc_response :: "int \<Rightarrow> string \<Rightarrow> string option \<Rightarrow> (unit, sys) cmd" where
  "pc_response = response pc_write_code"

definition pc_read_request_line :: "(int, sys) cmd" where
  "pc_read_request_line = read_request_line pc_response"

definition pc_req_parser :: "env \<Rightarrow> (unit, sys) cmd" where
  "pc_req_parser = req_parser pc_write_code"

definition pc_ls_version_two :: "env \<Rightarrow> string \<Rightarrow> (unit, sys) cmd" where
  "pc_ls_version_two = ls_version_two pc_write_code"

definition pc_ls_version_one :: "env \<Rightarrow> read_ev list \<Rightarrow> string \<Rightarrow> (unit, sys) cmd" where
  "pc_ls_version_one = ls_version_one pc_write_code True"

definition mp_response :: "int \<Rightarrow> string \<Rightarrow> string option \<Rightarrow> (unit, sys) cmd" where
  "mp_response = response mp_write_code"

definition mp_read_request_line :: "(int, sys) cmd" where
  "mp_read_request_line = read_request_line mp_response"

definition mp_req_parser :: "env \<Rightarrow> (unit, sys) cmd" where
  "mp_req_parser = req_parser mp_write_code"

definition mp_ls_version_two :: "env \<Rightarrow> string \<Rightarrow> (unit, sys) cmd" where
  "mp_ls_version_two = ls_version_two mp_write_code"

definition mp_ls_version_one :: "env \<Rightarrow> read_ev list \<Rightarrow> string \<Rightarrow> (unit, sys) cmd" where
  "mp_ls_version_one = ls_version_one mp_write_code True"

lemma process_copies [simp]:
  "pf_response = ms_response" "pf_read_request_line = ms_read_request_line" "pf_req_parser = ms_req_parser" "pf_ls_version_two = ms_ls_version_two" "pf_ls_version_one = ms_ls_version_one"
  "ps_response = ms_response" "ps_read_request_line = ms_read_request_line" "ps_req_parser = ms_req_parser" "ps_ls_version_two = ms_ls_version_two" "ps_ls_version_one = ms_ls_version_one"
  by (simp_all add: ms_response_def ms_read_request_line_def ms_req_parser_def ms_ls_version_two_def ms_ls_version_one_def
    pf_response_def pf_read_request_line_def pf_req_parser_def pf_ls_version_two_def pf_ls_version_one_def
    ps_response_def ps_read_request_line_def ps_req_parser_def ps_ls_version_two_def ps_ls_version_one_def)

lemma thread_copies [simp]:
  "th_response = thr_response" "th_read_request_line = thr_read_request_line" "th_req_parser = thr_req_parser" "th_ls_version_two = thr_ls_version_two" "th_ls_version_one = thr_ls_version_one"
  "pc_response = thr_response" "pc_read_request_line = thr_read_request_line" "pc_req_parser = thr_req_parser" "pc_ls_version_two = thr_ls_version_two" "pc_ls_version_one = thr_ls_version_one"
  "mp_response = thr_response" "mp_read_request_line = thr_read_request_line" "mp_req_parser = thr_req_parser" "mp_ls_version_two = thr_ls_version_two" "mp_ls_version_one = thr_ls_version_one"
  by (simp_all add: thr_response_def thr_read_request_line_def thr_req_parser_def thr_ls_version_two_def thr_ls_version_one_def
    th_response_def th_read_request_line_def th_req_parser_def th_ls_version_two_def th_ls_version_one_def
    pc_response_def pc_read_request_line_def pc_req_parser_def pc_ls_version_two_def pc_ls_version_one_def
    mp_response_def mp_read_request_line_def mp_req_parser_def mp_ls_version_two_def mp_ls_version_one_def)

text \<open>The functions of a program in terms of its \<open>write_code\<close>.\<close>

lemmas ms_linked = ms_response_def ms_read_request_line_def ms_req_parser_def ms_ls_version_two_def
lemmas thr_linked = thr_response_def thr_read_request_line_def thr_req_parser_def thr_ls_version_two_def

section \<open>Each answer counts one request\<close>

lemma answers_modify: "(\<And>s. shm (f s) = shm s) \<Longrightarrow> (\<And>s. sem (f s) = sem s) \<Longrightarrow> answers cost 0 0 (modify f)"
  by (intro answers_silent frames_modify)

lemma answers_ret: "answers cost 0 0 (ret a)"
  by (intro answers_silent frames_ret)

lemma answers_send: "answers cost 0 0 (send_fmt d)" "answers cost 0 0 (send_fmt_ret d)" "answers cost 0 0 (c_send d)"
  by (intro answers_silent frames_send_fmt frames_send_fmt_ret frames_c_send; simp)+

lemma frames_add_fd [frame_intros]: "(\<And>s l. f (s\<lparr>fds := l\<rparr>) = f s) \<Longrightarrow> frames f add_fd"
  by (intro framesI) (simp add: add_fd_apply)

lemma answers_calls: "answers cost 0 0 (set_errno e)" "answers cost 0 0 (c_close fd)"
  "answers cost 0 0 (c_shutdown fd how)" "answers cost 0 0 add_fd"
  unfolding set_errno_def c_close_def c_shutdown_def
  by (intro answers_silent frames_modify frames_add_fd; simp)+

lemmas answers_silents = answers_modify answers_ret answers_send answers_calls

lemma answers_silent_block: "(\<And>c. c \<in> set cs \<Longrightarrow> answers cost 0 0 c) \<Longrightarrow> answers cost 0 0 (block cs)"
proof (induction cs)
  case Nil
  show ?case by (rule answers_block_Nil)
next
  case (Cons c cs)
  then have "answers cost (0 + 0) (0 + 0) (block (c # cs))"
    by (intro answers_block_Cons) auto
  then show ?case by simp
qed

lemma answers_then: "answers cost 0 0 m \<Longrightarrow> (\<And>a. answers cost l h (k a)) \<Longrightarrow> answers cost l h (bindC m k)"
  using answers_bind [of cost 0 0 m l h k] by simp

lemma answers_copy_loop: "answers cost 0 0 (copy_loop es)"
proof (induction es rule: copy_loop.induct)
  case (2 es)
  show ?case unfolding copy_loop.simps by (rule answers_then [OF answers_calls(1) 2])
next
  case (4 d es)
  have "answers cost 0 0 (bindC (c_send d) (\<lambda>_. copy_loop es))" if "d \<noteq> []"
    by (rule answers_then [OF answers_send(3) 4 [OF that]])
  then show ?case
    unfolding copy_loop.simps by (cases "d = []") (simp_all only: if_P if_not_P answers_ret not_False_eq_True)
next
  case 1
  show ?case unfolding copy_loop.simps by (rule answers_ret)
next
  case (3 e es)
  show ?case unfolding copy_loop.simps by (rule answers_calls(1))
qed

text \<open>A list of silent commands around one counted call.\<close>

lemma answers_around:
  assumes "\<And>c. c \<in> set xs \<Longrightarrow> answers cost 0 0 c" and "answers cost l h m"
    and "\<And>c. c \<in> set ys \<Longrightarrow> answers cost 0 0 c"
  shows "answers cost l h (block (xs @ m # ys))"
proof -
  have "answers cost (0 + (l + 0)) (0 + (h + 0)) (bindC (block xs) (\<lambda>_. block (m # ys)))"
    using assms by (intro answers_bind answers_block_Cons answers_silent_block) auto
  then show ?thesis by (simp only: block_append add_0 add_0_right)
qed

context counting_writer
begin

lemma answers_response: "answers cost 1 1 (response wc code reason msg)"
proof -
  have "answers cost 1 1 (block ([send_fmt a, send_fmt b, send_fmt c, send_fmt d] @ wc code # []))" for a b c d
    by (rule answers_around) (auto intro: answers_send answers_wc simp del: One_nat_def)
  then show ?thesis by (simp add: response_def del: block.simps One_nat_def)
qed

lemma answers_failed: "answers cost 1 1 (block [set_errno e, response wc code reason msg])"
proof -
  have "answers cost 1 1 (block ([set_errno e] @ response wc code reason msg # []))"
    by (rule answers_around) (auto intro: answers_calls answers_response simp del: One_nat_def)
  then show ?thesis by (simp del: block.simps One_nat_def)
qed

lemma answers_req_parser: "answers cost 1 1 (req_parser wc E)"
proof -
  have copy: "answers cost 1 1 (bindC add_fd (\<lambda>fd. block
      ([send_fmt h] @ wc 200 # [send_fmt CRLF, copy_loop es])))" for h es
    by (rule answers_then [OF answers_calls(4)], rule answers_around)
       (auto intro: answers_send answers_copy_loop answers_wc simp del: One_nat_def)
  show ?thesis
    unfolding req_parser_def Let_def
    by (intro answers_get)
       (auto intro!: answers_then answers_modify answers_failed answers_response copy [simplified append.simps]
         simp del: block.simps One_nat_def split: prod.split option.split sum.split)
qed

lemma answers_ls_version_two: "answers cost 1 1 (ls_version_two wc E path)"
proof (cases "open_dir E path")
  case (Inl e)
  then show ?thesis by (simp add: ls_version_two_def answers_failed del: block.simps One_nat_def)
next
  case (Inr entries)
  let ?h = "send_fmt (''HTTP/1.1 '' @ dec_int 200 @ '' '' @ ''Ok'' @ CRLF)"
  let ?t = "send_fmt (''content-type: text/json; charset=UTF-8'' @ CRLF)"
  have "answers cost 1 1 (block ([set_errno 0, ?h] @ wc 200 # [?t, send_fmt CRLF] @
      map (\<lambda>d. send_fmt (d @ [LF])) entries @ [send_fmt CRLF, c_close fd]))" for fd
    by (rule answers_around) (auto intro: answers_calls answers_send answers_wc simp del: One_nat_def)
  then show ?thesis
    unfolding ls_version_two_def Inr by (auto intro!: answers_then answers_calls simp del: block.simps One_nat_def)
qed

end

end
