(* ===== verification/Replies.thy ===== *)
theory Replies
  imports Serve
begin

text \<open>
  What a client receives: the bytes of \<open>response\<close>, of a static file and of a listing on a
  connection that takes everything it is sent, and the meaning of \<open>cut_query\<close> on the stored URI.
\<close>

section \<open>Bytes of a reply\<close>

definition status_line :: "int \<Rightarrow> string \<Rightarrow> string" where
  "status_line code reason = ''HTTP/1.1 '' @ dec_int code @ '' '' @ reason @ CRLF"

definition html_header :: string where
  "html_header = ''Content-Type: text/html; charset=utf-8'' @ CRLF"

definition reply_bytes :: "int \<Rightarrow> string \<Rightarrow> string option \<Rightarrow> string" where
  "reply_bytes code reason msg = status_line code reason @ html_header @ CRLF @ fmt_s msg @ CRLF"

text \<open>Each of the four strings fits \<open>send_buffer\<close>.\<close>

definition reply_fits :: "int \<Rightarrow> string \<Rightarrow> string option \<Rightarrow> bool" where
  "reply_fits code reason msg \<longleftrightarrow>
     length (status_line code reason) < BUFFSIZE \<and> length (fmt_s msg @ CRLF) < BUFFSIZE"

lemma length_CRLF [simp]: "length CRLF = 2"
  by (simp add: CRLF_def)

lemma length_html_header [simp]: "length html_header < BUFFSIZE"
  by (simp add: html_header_def BUFFSIZE_def)

lemma length_dec_nat: "n < 1000 \<Longrightarrow> length (dec_nat n) \<le> 3"
  by (simp add: dec_nat.simps [of n] dec_nat.simps [of "n div 10"] dec_nat.simps [of "n div 10 div 10"])

lemma length_status_line:
  assumes "0 \<le> code" and "code < 1000"
  shows "length (status_line code reason) \<le> length reason + 15"
  using length_dec_nat [of "nat code"] assms by (simp add: status_line_def dec_int_def)

lemma reply_fitsI:
  assumes "0 \<le> code" "code < 1000" "length reason < 8000" "length (fmt_s msg) < 8190"
  shows "reply_fits code reason msg"
  using length_status_line [of code reason] assms by (simp add: reply_fits_def BUFFSIZE_def)

lemma fmt_s_simps [simp]: "fmt_s None = ''(null)''" "fmt_s (Some t) = t"
  by (simp_all add: fmt_s_def)

context status_writer
begin

lemma response_plain:
  assumes "sendq s = []" and "reply_fits code reason msg"
  shows "response wc code reason msg s = bindC (wc code) ret (s\<lparr>tx := tx s @ reply_bytes code reason msg\<rparr>)"
proof -
  have a: "send_fmt (status_line code reason) t = Ret () (t\<lparr>tx := tx t @ status_line code reason\<rparr>)"
    if "sendq t = []" for t
    using that assms(2) by (simp add: reply_fits_def)
  have b: "send_fmt html_header t = Ret () (t\<lparr>tx := tx t @ html_header\<rparr>)" if "sendq t = []" for t
    using that by simp
  have c: "send_fmt CRLF t = Ret () (t\<lparr>tx := tx t @ CRLF\<rparr>)" if "sendq t = []" for t
    using that by (simp add: BUFFSIZE_def)
  have d: "send_fmt (fmt_s msg @ CRLF) t = Ret () (t\<lparr>tx := tx t @ fmt_s msg @ CRLF\<rparr>)"
    if "sendq t = []" for t
    using that assms(2) by (simp add: reply_fits_def)
  show ?thesis
    unfolding response_def status_line_def [symmetric] html_header_def [symmetric]
    by (simp add: a b c d assms(1) reply_bytes_def)
qed

end

context holding_writer
begin

text \<open>The reply is sent in full, but the call that counts it does not return.\<close>

lemma response_blocked:
  assumes "sendq s = []" and "reply_fits code reason msg" and "sem s = 0"
  shows "response wc code reason msg s = Blocked (s\<lparr>tx := tx s @ reply_bytes code reason msg\<rparr>)"
  using wc_blocks [of "s\<lparr>tx := tx s @ reply_bytes code reason msg\<rparr>" code] assms
  by (simp add: response_plain)

end

section \<open>Copying a file\<close>

text \<open>What the loop delivers of what the kernel returns: everything before end of file or an error.\<close>

fun file_data :: "read_ev list \<Rightarrow> string" where
  "file_data [] = []"
| "file_data (Rd_intr # es) = file_data es"
| "file_data (Rd_err e # es) = []"
| "file_data (Rd d # es) = (if d = [] then [] else d @ file_data es)"

fun copy_errno :: "read_ev list \<Rightarrow> int \<Rightarrow> int" where
  "copy_errno [] e = e"
| "copy_errno (Rd_intr # es) e = copy_errno es EINTR"
| "copy_errno (Rd_err e' # es) e = e'"
| "copy_errno (Rd d # es) e = (if d = [] then e else copy_errno es e)"

lemma copy_loop_plain:
  "sendq s = [] \<Longrightarrow> copy_loop es s = Ret () (s\<lparr>tx := tx s @ file_data es, errno := copy_errno es (errno s)\<rparr>)"
  by (induction es arbitrary: s rule: copy_loop.induct) simp_all

section \<open>cut_query\<close>

text \<open>The string stored in \<open>req_uri\<close>, and the same without its query.\<close>

lemma cut_query_spec:
  assumes u: "uri_at q 0 = u" and len: "length u < URI_LIMIT"
  shows "fst (cut_query q) = length (takeWhile (\<lambda>c. c \<noteq> CHR ''?'') u)"
    and "uri_at (snd (cut_query q)) 0 = takeWhile (\<lambda>c. c \<noteq> CHR ''?'') u"
proof -
  let ?b = "req_uri q" and ?P = "\<lambda>c. c = NUL \<or> c = CHR ''?''"
  define p where "p = takeWhile (\<lambda>c. c \<noteq> CHR ''?'') u"
  have b: "?b k = u ! k" "?b k \<noteq> NUL" if "k < length u" for k
    using that u cstr_nth [of k ?b 0 URI_LIMIT] by (auto simp: uri_at_def)
  have stop: "?b (length u) = NUL"
    using u len cstr_stop [of 0 ?b URI_LIMIT] by (auto simp: uri_at_def)
  have lp: "length p \<le> length u" by (simp add: p_def length_takeWhile_le)
  have scan: "scan ?P ?b 0 URI_LIMIT = length p"
  proof (rule scan_found)
    show "\<not> ?P (?b k)" if "k < length p" for k
      using that b [of k] lp nth_mem [of k p] set_takeWhileD [of "p ! k" _ u] takeWhile_nth [of k _ u]
      by (auto simp: p_def)
    show "?P (?b (length p))"
      using b [of "length p"] stop nth_length_takeWhile [of "\<lambda>c. c \<noteq> CHR ''?''" u] lp
      by (cases "length p = length u") (auto simp: p_def)
  qed (use lp len in auto)
  show "fst (cut_query q) = length p" by (simp add: cut_query_def Let_def scan)
  have pk: "?b k = p ! k" if "k < length p" for k
    using that b [of k] lp takeWhile_nth [of k _ u] by (auto simp: p_def)
  have noNUL: "NUL \<notin> set p"
    using u cstr_no_NUL [of ?b 0 URI_LIMIT] set_takeWhileD [of NUL _ u] by (auto simp: p_def uri_at_def)
  have "req_uri (snd (cut_query q)) = (store ?b 0 p)(length p := NUL)"
  proof
    fix k
    have "?b (length p) = NUL" if "?b (length p) \<noteq> CHR ''?''"
      using that b [of "length p"] stop nth_length_takeWhile [of "\<lambda>c. c \<noteq> CHR ''?''" u] lp
      by (cases "length p = length u") (auto simp: p_def)
    then show "req_uri (snd (cut_query q)) k = ((store ?b 0 p)(length p := NUL)) k"
      using pk [of k] lp len by (auto simp: cut_query_def Let_def scan store_apply)
  qed
  then show "uri_at (snd (cut_query q)) 0 = p"
    using cstr_store [of p 0 URI_LIMIT _ ?b] noNUL lp len by (simp add: uri_at_def)
qed

section \<open>The routes\<close>

text \<open>A connection that takes what it is sent, and counters that can count one request more.\<close>

definition ready :: "sys \<Rightarrow> bool" where
  "ready s \<longleftrightarrow> sendq s = [] \<and> 0 < sem s \<and> share_address s = P_segment \<and>
     stats_inv (shm s) \<and> requests (shm s) < INT_MAX"

definition counted :: "int \<Rightarrow> share_statistics \<Rightarrow> share_statistics" where
  "counted code st = the (count_code code st)"

lemma count_code_counted:
  assumes "stats_inv st" and "requests st < INT_MAX"
  shows "count_code code st = Some (counted code st)"
  by (rule count_code_defined [OF assms, of code]) (simp add: counted_def)

lemma send_entries:
  assumes "sendq s = []" and "\<forall>d \<in> set ds. length d + 1 < BUFFSIZE"
  shows "block (map (\<lambda>d. send_fmt (d @ [LF])) ds) s = Ret () (s\<lparr>tx := tx s @ concat (map (\<lambda>d. d @ [LF]) ds)\<rparr>)"
  using assms by (induction ds arbitrary: s) simp_all

definition json_header :: string where
  "json_header = ''content-type: text/json; charset=UTF-8'' @ CRLF"

lemma length_json_header [simp]: "length json_header < BUFFSIZE"
  by (simp add: json_header_def BUFFSIZE_def)

definition listing_bytes :: "string list \<Rightarrow> string" where
  "listing_bytes entries =
     status_line 200 ''Ok'' @ json_header @ CRLF @
     concat (map (\<lambda>d. d @ [LF]) entries) @ CRLF"

text \<open>
  On such a state both versions of \<open>write_code\<close> return, with the code counted; the thread version
  has used up the semaphore.
\<close>

locale ready_writer = counting_writer +
  assumes wc_ready: "ready s \<Longrightarrow>
    wc code s = Ret () (s\<lparr>shm := counted code (shm s), sem := sem s - cost\<rparr>)"

interpretation ms: ready_writer ms_write_code 0
proof unfold_locales
  fix s :: sys and code
  assume "ready s"
  then show "ms_write_code code s = Ret () (s\<lparr>shm := counted code (shm s), sem := sem s - 0\<rparr>)"
    using ms.wc_releases [of s "sem s - 1" code "counted code (shm s)"] count_code_counted [of "shm s" code]
    by (simp add: ready_def)
qed

interpretation thr: ready_writer thr_write_code 1
proof unfold_locales
  fix s :: sys and code
  assume "ready s"
  then show "thr_write_code code s = Ret () (s\<lparr>shm := counted code (shm s), sem := sem s - 1\<rparr>)"
    using thr.wc_holds [of s "sem s - 1" code "counted code (shm s)"] count_code_counted [of "shm s" code]
    by (simp add: ready_def)
qed

context ready_writer
begin

lemma response_ready:
  assumes "ready s" and "reply_fits code reason msg"
  shows "response wc code reason msg s = Ret () (s\<lparr>tx := tx s @ reply_bytes code reason msg,
    shm := counted code (shm s), sem := sem s - cost\<rparr>)"
proof -
  have "ready (s\<lparr>tx := tx s @ reply_bytes code reason msg\<rparr>)" using assms(1) by (simp add: ready_def)
  then show ?thesis
    using wc_ready [of "s\<lparr>tx := tx s @ reply_bytes code reason msg\<rparr>" code] assms
    by (simp add: response_plain ready_def)
qed

text \<open>A file that can be opened: the path is the URI without its first byte and without its query.\<close>

lemma req_parser_file:
  assumes s: "ready s" and u: "uri_at (req_buf s) 0 = u" "length u < URI_LIMIT"
    and p: "takeWhile (\<lambda>c. c \<noteq> CHR ''?'') u = c # path"
    and f: "faccess_errno E path = None" "open_rdonly E path = Inr es"
  shows "req_parser wc E s = Ret () (s\<lparr>req_buf := snd (cut_query (req_buf s)),
    fds := fresh_fd (fds s) # fds s, shm := counted 200 (shm s), sem := sem s - cost,
    tx := tx s @ status_line 200 ''Ok'' @ CRLF @ file_data es, errno := copy_errno es (errno s)\<rparr>)"
proof -
  obtain i q where cut: "cut_query (req_buf s) = (i, q)" by (metis surj_pair)
  have i: "0 < i" and q0: "uri_at q 0 = c # path" using cut_query_spec [OF u] p cut by auto
  have q1: "uri_at q (Suc 0) = path"
    using q0 cstr_drop [of 1 "req_uri q" 0 URI_LIMIT] by (simp add: uri_at_def)
  have line: "send_fmt (status_line 200 ''Ok'') t = Ret () (t\<lparr>tx := tx t @ status_line 200 ''Ok''\<rparr>)"
    and crlf: "send_fmt CRLF t = Ret () (t\<lparr>tx := tx t @ CRLF\<rparr>)" if "sendq t = []" for t
    using that length_status_line [of 200 "''Ok''"] by (simp_all add: BUFFSIZE_def)
  let ?t = "s\<lparr>req_buf := q, fds := fresh_fd (fds s) # fds s, tx := tx s @ status_line 200 ''Ok''\<rparr>"
  have rt: "ready ?t" using s by (simp add: ready_def)
  show ?thesis
    unfolding req_parser_def status_line_def [symmetric]
    using s i f wc_ready [OF rt, of 200]
    by (simp add: cut q1 Let_def add_fd_apply line crlf copy_loop_plain ready_def)
qed

text \<open>What happens when it cannot.\<close>

lemma req_parser_fails:
  assumes s: "ready s" and u: "uri_at (req_buf s) 0 = u" "length u < URI_LIMIT"
    and p: "takeWhile (\<lambda>c. c \<noteq> CHR ''?'') u = c # path" and msg: "length (strerror E e) < 8190"
  shows "faccess_errno E path = Some e \<Longrightarrow> req_parser wc E s =
      Ret () (s\<lparr>req_buf := snd (cut_query (req_buf s)), errno := e, shm := counted 404 (shm s), sem := sem s - cost,
        tx := tx s @ reply_bytes 404 ''not found'' (Some (strerror E e))\<rparr>)" (is "_ \<Longrightarrow> ?A")
    and "faccess_errno E path = None \<Longrightarrow> open_rdonly E path = Inl e \<Longrightarrow> req_parser wc E s =
      Ret () (s\<lparr>req_buf := snd (cut_query (req_buf s)), errno := e,
        shm := counted (if e = EACCES then 403 else 500) (shm s), sem := sem s - cost,
        tx := tx s @ (if e = EACCES then reply_bytes 403 ''require permissions'' (Some (strerror E e))
                      else reply_bytes 500 ''server error'' (Some (strerror E e)))\<rparr>)" (is "_ \<Longrightarrow> _ \<Longrightarrow> ?B")
proof -
  obtain i q where cut: "cut_query (req_buf s) = (i, q)" by (metis surj_pair)
  have i: "0 < i" and q0: "uri_at q 0 = c # path" using cut_query_spec [OF u] p cut by auto
  have q1: "uri_at q (Suc 0) = path"
    using q0 cstr_drop [of 1 "req_uri q" 0 URI_LIMIT] by (simp add: uri_at_def)
  have rt: "ready (s\<lparr>req_buf := q, errno := e\<rparr>)" using s by (simp add: ready_def)
  note r = response_ready [OF rt reply_fitsI, of _ _ "Some (strerror E e)"]
  show ?A if "faccess_errno E path = Some e"
    unfolding req_parser_def using that i msg r [of 404 "''not found''"]
    by (simp add: cut q1 Let_def)
  show ?B if "faccess_errno E path = None" "open_rdonly E path = Inl e"
    unfolding req_parser_def
    using that i msg r [of 403 "''require permissions''"] r [of 500 "''server error''"]
    by (cases "e = EACCES") (simp_all add: cut q1 Let_def)
qed

text \<open>A listing: every entry on a line of its own, and the directory stream is closed again.\<close>

lemma ls_version_two_dir:
  assumes s: "ready s" and o: "open_dir E path = Inr entries"
    and short: "\<forall>d \<in> set entries. length d + 1 < BUFFSIZE"
  shows "ls_version_two wc E path s = Ret () (s\<lparr>errno := 0, shm := counted 200 (shm s), sem := sem s - cost,
    tx := tx s @ listing_bytes entries\<rparr>)"
proof -
  define fd where "fd = fresh_fd (fds s)"
  have nofd: "fd \<notin> set (fds s)" unfolding fd_def by (rule fresh_fd_fresh)
  have line: "send_fmt (status_line 200 ''Ok'') t = Ret () (t\<lparr>tx := tx t @ status_line 200 ''Ok''\<rparr>)"
    and ctype: "send_fmt json_header t =
      Ret () (t\<lparr>tx := tx t @ json_header\<rparr>)"
    and crlf: "send_fmt CRLF t = Ret () (t\<lparr>tx := tx t @ CRLF\<rparr>)" if "sendq t = []" for t
    using that length_status_line [of 200 "''Ok''"] by (simp_all add: BUFFSIZE_def json_header_def)
  let ?t = "s\<lparr>fds := fd # fds s, errno := 0, tx := tx s @ status_line 200 ''Ok''\<rparr>"
  let ?u = "?t\<lparr>shm := counted 200 (shm s), sem := sem s - cost\<rparr>"
  have rt: "ready ?t" using s by (simp add: ready_def)
  have plain: "sendq s = []" using s by (simp add: ready_def)
  have head: "block [set_errno 0, send_fmt (status_line 200 ''Ok''), wc 200,
      send_fmt json_header, send_fmt CRLF] (s\<lparr>fds := fd # fds s\<rparr>)
    = Ret () (?u\<lparr>tx := tx ?u @ json_header @ CRLF\<rparr>)"
    using wc_ready [OF rt, of 200] plain by (simp add: line ctype crlf)
  show ?thesis
    unfolding ls_version_two_def o status_line_def [symmetric] json_header_def [symmetric] sum.case block_append
    by (simp add: add_fd_apply fd_def [symmetric] head del: block.simps)
       (simp add: send_entries [OF _ short] plain crlf nofd listing_bytes_def)
qed

end

end
