(* ===== verification/Bash.thy ===== *)
theory Bash
  imports Serve
begin

text \<open>
  The shell command of \<open>/bash/...\<close> requests (\<open>handle_bash\<close>) and its clean-up: the child process
  group, the two SIGALRM handlers, the flags \<open>need_stop_script\<close> and \<open>alarm_count\<close> they set, and
  the \<open>waitpid\<close> loops. SIGALRM is an event of the scripts (\<open>B_alarm\<close> while the server reads the
  child's output, \<open>W_alarm\<close> while it waits for the child to die). The handlers are installed with
  \<open>signal\<close>, which restarts an interrupted call; where it does not, the script has the
  interruption (\<open>Rd_intr\<close>, \<open>W_fail EINTR\<close>) right after the alarm.
\<close>

section \<open>Signals\<close>

definition c_kill :: "int \<Rightarrow> int \<Rightarrow> (unit, sys) cmd" where
  "c_kill pid sig = modify (\<lambda>s. s\<lparr>kills := kills s @ [(pid, sig)]\<rparr>)"

definition handle_sigalrm :: "sys \<Rightarrow> sys" where
  "handle_sigalrm s = s\<lparr>alarm_count := alarm_count s + 1\<rparr>"

definition handle_sigalrm_stop_script :: "sys \<Rightarrow> sys" where
  "handle_sigalrm_stop_script s = s\<lparr>need_stop_script := 1\<rparr>"

definition signal_alrm :: "sig_handler \<Rightarrow> (unit, sys) cmd" where
  "signal_alrm h = modify (\<lambda>s. s\<lparr>alarm_handler := h\<rparr>)"

definition c_alarm :: "(unit, sys) cmd" where
  "c_alarm = modify (\<lambda>s. s\<lparr>alarm_armed := True\<rparr>)"

text \<open>The timer set by \<open>alarm\<close> goes off once; nothing in the code ever cancels it.\<close>

definition deliver_alarm :: "(unit, sys) cmd" where
  "deliver_alarm = (\<lambda>s.
     if \<not> alarm_armed s then Ret () s
     else (let s' = s\<lparr>alarm_armed := False\<rparr>
           in case alarm_handler s of
                H_default \<Rightarrow> Killed SIGALRM s'
              | H_sigalrm \<Rightarrow> Ret () (handle_sigalrm s')
              | H_sigalrm_stop_script \<Rightarrow> Ret () (handle_sigalrm_stop_script s')))"

section \<open>Waiting for the process group\<close>

text \<open>
  \<open>while (-1 != waitpid(-script_pid, NULL, 0) && errno != ECHILD) { if (alarm_count != 0)
  kill(-script_pid, SIGKILL); }\<close>. A successful \<open>waitpid\<close> leaves \<open>errno\<close> as it was; with no more
  events the call waits for ever.
\<close>

fun wait_loop :: "int \<Rightarrow> wait_ev list \<Rightarrow> (unit, sys) cmd" where
  "wait_loop pid [] = (\<lambda>s. Blocked (s\<lparr>waits := []\<rparr>))"
| "wait_loop pid (W_alarm # ws) = bindC deliver_alarm (\<lambda>_. wait_loop pid ws)"
| "wait_loop pid (W_fail e # ws) = modify (\<lambda>s. s\<lparr>errno := e, waits := ws\<rparr>)"
| "wait_loop pid (W_child # ws) = get (\<lambda>s.
     if errno s = ECHILD then modify (\<lambda>s. s\<lparr>waits := ws\<rparr>)
     else if alarm_count s \<noteq> 0 then bindC (c_kill (- pid) SIGKILL) (\<lambda>_. wait_loop pid ws)
     else wait_loop pid ws)"

definition handle_bash_stop_child_process_group :: "int \<Rightarrow> (unit, sys) cmd" where
  "handle_bash_stop_child_process_group script_pid = block
     [signal_alrm H_sigalrm,
      c_kill (- script_pid) SIGTERM,
      c_alarm,
      get (\<lambda>s. wait_loop script_pid (waits s))]"

definition stop_scirpt_timeout :: "int \<Rightarrow> (unit, sys) cmd" where
  "stop_scirpt_timeout script_pid = block
     [modify (\<lambda>s. s\<lparr>alarm_count := 0\<rparr>),
      signal_alrm H_sigalrm,
      c_kill (- script_pid) SIGTERM,
      c_alarm,
      get (\<lambda>s. wait_loop script_pid (waits s))]"

section \<open>The child\<close>

definition pipe_read_v2_child :: "nat \<Rightarrow> nat \<Rightarrow> string \<Rightarrow> child_act list" where
  "pipe_read_v2_child rfd wfd command =
     [A_setpgid, A_close rfd, A_dup2 wfd 1, A_dup2 wfd 2,
      A_execl ''/bin/bash'' [''bash'', ''-c'', command], A_exit 127]"

text \<open>The result is the descriptor (or -1) and the new \<open>script_pid\<close>, 0 before the call.\<close>

definition pipe_read_v2 :: "env \<Rightarrow> string \<Rightarrow> (int \<times> int, sys) cmd" where
  "pipe_read_v2 E command =
     (case pipe_errno E of
        Some e \<Rightarrow> bindC (set_errno e) (\<lambda>_. ret (-1, 0))
      | None \<Rightarrow> bindC add_fd (\<lambda>rfd. bindC add_fd (\<lambda>wfd.
          (case fork_res E of
             Inl e \<Rightarrow> bindC (set_errno e) (\<lambda>_. ret (-1, 0))
           | Inr pid \<Rightarrow> bindC (c_close wfd) (\<lambda>_. ret (int rfd, pid))))))"

section \<open>Copying the child's output\<close>

datatype bash_ev = B_read read_ev | B_alarm

text \<open>The loop ends with the last value of \<open>ret\<close>, or the function returns from inside it.\<close>

datatype bash_exit = BX_done int | BX_return

text \<open>
  \<open>while ((ret = read(fd, send_buffer, BUFFSIZE)) != 0 && need_stop_script == 0) { ... }\<close>: the flag
  is tested after the read, so data read while it is set is dropped.
\<close>

fun bash_loop :: "int \<Rightarrow> bash_ev list \<Rightarrow> (bash_exit, sys) cmd" where
  "bash_loop pid [] = ret (BX_done 0)"
| "bash_loop pid (B_alarm # es) = bindC deliver_alarm (\<lambda>_. bash_loop pid es)"
| "bash_loop pid (B_read Rd_intr # es) =
     bindC (set_errno EINTR) (\<lambda>_. get (\<lambda>s.
       if need_stop_script s \<noteq> 0 then ret (BX_done (-1)) else bash_loop pid es))"
| "bash_loop pid (B_read (Rd_err e) # es) =
     bindC (set_errno e) (\<lambda>_. get (\<lambda>s.
       if need_stop_script s \<noteq> 0 then ret (BX_done (-1))
       else if e = EINTR then bash_loop pid es
       else ret (BX_done (-1))))"
| "bash_loop pid (B_read (Rd d) # es) =
     (if d = [] then ret (BX_done 0)
      else get (\<lambda>s. if need_stop_script s \<noteq> 0 then ret (BX_done (int (length d)))
        else bindC (c_send d) (\<lambda>r. get (\<lambda>s.
          if r = -1 \<and> errno s = EPIPE
          then bindC (handle_bash_stop_child_process_group pid) (\<lambda>_. ret BX_return)
          else bash_loop pid es))))"

section \<open>handle_bash\<close>

definition handle_bash ::
  "(int \<Rightarrow> (unit, sys) cmd) \<Rightarrow> env \<Rightarrow> bash_ev list \<Rightarrow> string \<Rightarrow> (unit, sys) cmd" where
  "handle_bash wc E output command =
     bindC (pipe_read_v2 E command) (\<lambda>(fd, script_pid).
       if fd = -1 then response wc 500 ''Ok'' (Some ''command running error'')
       else
         bindC (send_fmt_ret (''HTTP/1.1 '' @ dec_int 200 @ '' '' @ ''Ok'' @ CRLF)) (\<lambda>r1. get (\<lambda>s1.
         if r1 = -1 \<and> errno s1 = EPIPE then handle_bash_stop_child_process_group script_pid
         else
           bindC (wc 200) (\<lambda>_.
           bindC (send_fmt_ret CRLF) (\<lambda>r2. get (\<lambda>s2.
           if r2 = -1 \<and> errno s2 = EPIPE then handle_bash_stop_child_process_group script_pid
           else
             bindC (signal_alrm H_sigalrm_stop_script) (\<lambda>_.
             bindC c_alarm (\<lambda>_.
             bindC (bash_loop script_pid output) (\<lambda>x. case x of
               BX_return \<Rightarrow> ret ()
             | BX_done rt \<Rightarrow> get (\<lambda>s3.
                 if rt = -1 \<or> need_stop_script s3 = 1 then stop_scirpt_timeout script_pid
                 else ret ()))))))))))"

definition ms_handle_bash :: "env \<Rightarrow> bash_ev list \<Rightarrow> string \<Rightarrow> (unit, sys) cmd" where
  "ms_handle_bash = handle_bash ms_write_code"

definition pf_handle_bash :: "env \<Rightarrow> bash_ev list \<Rightarrow> string \<Rightarrow> (unit, sys) cmd" where
  "pf_handle_bash = handle_bash pf_write_code"

definition ps_handle_bash :: "env \<Rightarrow> bash_ev list \<Rightarrow> string \<Rightarrow> (unit, sys) cmd" where
  "ps_handle_bash = handle_bash ps_write_code"

lemma handle_bash_copies [simp]: "pf_handle_bash = ms_handle_bash" "ps_handle_bash = ms_handle_bash"
  by (simp_all add: ms_handle_bash_def pf_handle_bash_def ps_handle_bash_def)

end
