(* ===== verification/Handlers.thy ===== *)
theory Handlers
  imports Bash
begin

text \<open>
  \<open>do_call\<close>, the request handler of each server program. The programs share the checks of
  \<open>serve_request\<close> and differ in the set-up, in the routes, in how they read the statistics and in
  how they let go of the connection. Each calls the functions of its own file.
\<close>

section \<open>Common parts\<close>

definition calloc_buffers :: "(unit, sys) cmd" where
  "calloc_buffers = modify (\<lambda>s. s\<lparr>req_buf := calloc_req_line, recv_buffer := calloc_buffer\<rparr>)"

text \<open>
  The checks every \<open>do_call\<close> makes before it looks at the URI. The version test is the code's
  \<open>major == -1 || major == -1\<close>.
\<close>

definition serve_request ::
  "(int, sys) cmd \<Rightarrow> (int \<Rightarrow> string \<Rightarrow> string option \<Rightarrow> (unit, sys) cmd) \<Rightarrow> (unit, sys) cmd \<Rightarrow>
    (unit, sys) cmd" where
  "serve_request reader resp route =
     bindC reader (\<lambda>r.
       if r = IS_ERROR then ret ()
       else get (\<lambda>s.
         if meth (req_buf s) \<noteq> GET then resp 405 ''Method Not Allowed'' None
         else if major (version (req_buf s)) = -1 \<or> major (version (req_buf s)) = -1 then
           resp 505 ''HTTP Version Not Supported'' None
         else route))"

text \<open>\<open>sizeof("statistics")\<close> is 11, so the terminator is compared too.\<close>

definition is_statistics :: "req_line \<Rightarrow> bool" where
  "is_statistics q \<longleftrightarrow> req_uri q 0 \<noteq> NUL \<and> strncasecmp ''statistics'' (uri_at q 1) 11 = 0"

definition is_bash :: "req_line \<Rightarrow> bool" where
  "is_bash q \<longleftrightarrow> req_uri q 0 \<noteq> NUL \<and> req_uri q 5 = CHR ''/'' \<and> strncasecmp ''bash'' (uri_at q 1) 4 = 0"

definition statistics_message :: "int \<Rightarrow> string" where
  "statistics_message n = ''requests: '' @ dec_int n @ [LF]"

text \<open>Reading \<open>share_address->requests\<close>, without and with the semaphore.\<close>

definition read_requests :: "(int, sys) cmd" where
  "read_requests = get (\<lambda>s. case share_address s of
       P_null \<Rightarrow> faulting Null_Deref
     | P_wild \<Rightarrow> faulting Wild_Deref
     | P_segment \<Rightarrow> ret (requests (shm s)))"

definition read_requests_locked :: "(int, sys) cmd" where
  "read_requests_locked =
     bindC sem_wait (\<lambda>_. bindC read_requests (\<lambda>total. bindC sem_post (\<lambda>_. ret total)))"

text \<open>The last two branches of every \<open>do_call\<close>.\<close>

definition route_file ::
  "(env \<Rightarrow> string \<Rightarrow> (unit, sys) cmd) \<Rightarrow> (env \<Rightarrow> (unit, sys) cmd) \<Rightarrow> env \<Rightarrow> (unit, sys) cmd" where
  "route_file list_dir send_file E = get (\<lambda>s. let path = uri_at (req_buf s) 1 in
     bindC (is_dir E path) (\<lambda>d. if d then list_dir E path else send_file E))"

section \<open>multi_server.c: one process per connection\<close>

definition ms_route :: "env \<Rightarrow> bash_ev list \<Rightarrow> (unit, sys) cmd" where
  "ms_route E output = get (\<lambda>s. let q = req_buf s in
     if is_statistics q then
       bindC read_requests (\<lambda>total. ms_response 200 ''Ok'' (Some (statistics_message total)))
     else if is_bash q then ms_handle_bash E output (uri_at q 6)
     else route_file ms_ls_version_two ms_req_parser E)"

text \<open>\<open>shm_sem = sem_open(SHARE_MEMORY_FILE_PATH, O_CREAT, S_IRWXU, 1)\<close>: a new semaphore is 1.\<close>

definition open_shm_sem :: "(unit, sys) cmd" where
  "open_shm_sem = modify (\<lambda>s. if sem_exists s then s else s\<lparr>sem_exists := True, sem := 1\<rparr>)"

text \<open>
  \<open>share_address = shmat(...)\<close>. The test \<open>share_address == 0\<close> does not catch the failure value
  \<open>(void *)-1\<close>, so the call goes on with a wild pointer.
\<close>

definition attach :: "env \<Rightarrow> (unit, sys) cmd" where
  "attach E = modify (\<lambda>s. s\<lparr>share_address := (if shmat_ok E then P_segment else P_wild)\<rparr>)"

definition detach :: "(unit, sys) cmd" where
  "detach = modify (\<lambda>s. if share_address s = P_null then s else s\<lparr>share_address := P_wild\<rparr>)"

definition ms_do_call :: "env \<Rightarrow> bash_ev list \<Rightarrow> nat \<Rightarrow> (unit, sys) cmd" where
  "ms_do_call E output connfd = block
     [calloc_buffers,
      (if \<not> sem_open_ok E then ret ()
       else block
         [open_shm_sem,
          if \<not> ftok_ok E then ret ()
          else block [attach E, serve_request ms_read_request_line ms_response (ms_route E output)]]),
      detach,
      c_shutdown connfd SHUT_RD]"

section \<open>The pre-forked pools\<close>

text \<open>\<open>multi_server_pre_forked_pool_of_processes.c\<close>: attached once per worker, in \<open>server\<close>.\<close>

definition pf_route :: "env \<Rightarrow> bash_ev list \<Rightarrow> (unit, sys) cmd" where
  "pf_route E output = get (\<lambda>s. let q = req_buf s in
     if is_statistics q then
       bindC read_requests_locked (\<lambda>total. pf_response 200 ''Ok'' (Some (statistics_message total)))
     else if is_bash q then pf_handle_bash E output (uri_at q 6)
     else route_file pf_ls_version_two pf_req_parser E)"

definition pf_do_call :: "env \<Rightarrow> bash_ev list \<Rightarrow> nat \<Rightarrow> (unit, sys) cmd" where
  "pf_do_call E output connfd = block
     [calloc_buffers,
      serve_request pf_read_request_line pf_response (pf_route E output),
      c_shutdown connfd SHUT_WR]"

text \<open>\<open>multi_server_pass_socket_fd_to_child_processes.c\<close> has the same handler.\<close>

definition ps_route :: "env \<Rightarrow> bash_ev list \<Rightarrow> (unit, sys) cmd" where
  "ps_route E output = get (\<lambda>s. let q = req_buf s in
     if is_statistics q then
       bindC read_requests_locked (\<lambda>total. ps_response 200 ''Ok'' (Some (statistics_message total)))
     else if is_bash q then ps_handle_bash E output (uri_at q 6)
     else route_file ps_ls_version_two ps_req_parser E)"

definition ps_do_call :: "env \<Rightarrow> bash_ev list \<Rightarrow> nat \<Rightarrow> (unit, sys) cmd" where
  "ps_do_call E output connfd = block
     [calloc_buffers,
      serve_request ps_read_request_line ps_response (ps_route E output),
      c_shutdown connfd SHUT_WR]"

lemma ps_handler [simp]: "ps_route = pf_route" "ps_do_call = pf_do_call"
proof -
  show r: "ps_route = pf_route"
    by (intro ext) (unfold ps_route_def pf_route_def process_copies handle_bash_copies, rule refl)
  show "ps_do_call = pf_do_call" by (intro ext) (simp add: ps_do_call_def pf_do_call_def r)
qed

section \<open>The thread servers\<close>

text \<open>The routes, in the same text in the four files.\<close>

definition thr_route :: "env \<Rightarrow> (unit, sys) cmd" where
  "thr_route E = get (\<lambda>s. let q = req_buf s in
     if is_statistics q then
       bindC read_requests_locked (\<lambda>total. thr_response 200 ''Ok'' (Some (statistics_message total)))
     else route_file thr_ls_version_two thr_req_parser E)"

definition th_route :: "env \<Rightarrow> (unit, sys) cmd" where
  "th_route E = get (\<lambda>s. let q = req_buf s in
     if is_statistics q then
       bindC read_requests_locked (\<lambda>total. th_response 200 ''Ok'' (Some (statistics_message total)))
     else route_file th_ls_version_two th_req_parser E)"

definition pc_route :: "env \<Rightarrow> (unit, sys) cmd" where
  "pc_route E = get (\<lambda>s. let q = req_buf s in
     if is_statistics q then
       bindC read_requests_locked (\<lambda>total. pc_response 200 ''Ok'' (Some (statistics_message total)))
     else route_file pc_ls_version_two pc_req_parser E)"

definition mp_route :: "env \<Rightarrow> (unit, sys) cmd" where
  "mp_route E = get (\<lambda>s. let q = req_buf s in
     if is_statistics q then
       bindC read_requests_locked (\<lambda>total. mp_response 200 ''Ok'' (Some (statistics_message total)))
     else route_file mp_ls_version_two mp_req_parser E)"

lemma route_copies [simp]: "th_route = thr_route" "pc_route = thr_route" "mp_route = thr_route"
  by (intro ext; unfold th_route_def pc_route_def mp_route_def thr_route_def thread_copies, rule refl)+

text \<open>\<open>multi_server_thread.c\<close>: one thread per connection, closed at the end.\<close>

definition th_do_call :: "env \<Rightarrow> nat \<Rightarrow> (unit, sys) cmd" where
  "th_do_call E connfd = block
     [calloc_buffers,
      serve_request th_read_request_line th_response (th_route E),
      c_shutdown connfd SHUT_RDWR,
      c_close connfd]"

text \<open>
  The pool threads allocate their buffers once and loop. A connection is its descriptor, the
  bytes the peer sends and the results of the sends on it; what was sent on it is added to
  \<open>replies\<close>. With no connection left the thread waits in \<open>queue_get\<close> or \<open>accept\<close>.
\<close>

record conn =
  conn_fd :: nat
  conn_bytes :: string
  conn_sendq :: "send_ev list"

definition take_conn :: "conn \<Rightarrow> (unit, sys) cmd" where
  "take_conn c = modify (\<lambda>s. s\<lparr>rx := conn_bytes c, sendq := conn_sendq c, tx := []\<rparr>)"

definition end_conn :: "nat \<Rightarrow> (unit, sys) cmd" where
  "end_conn fd = modify (\<lambda>s. s\<lparr>replies := replies s @ [(fd, tx s)]\<rparr>)"

text \<open>One turn of the \<open>for (;;)\<close> of \<open>multi_server_thread_blocking_queue.c\<close>.\<close>

definition bq_serve :: "env \<Rightarrow> conn \<Rightarrow> (unit, sys) cmd" where
  "bq_serve E c = block
     [take_conn c,
      serve_request thr_read_request_line thr_response (thr_route E),
      c_shutdown (conn_fd c) SHUT_WR,
      end_conn (conn_fd c)]"

fun bq_loop :: "env \<Rightarrow> conn list \<Rightarrow> (unit, sys) cmd" where
  "bq_loop E [] = (\<lambda>s. Blocked s)"
| "bq_loop E (c # cs) = bindC (bq_serve E c) (\<lambda>_. bq_loop E cs)"

definition bq_do_call :: "env \<Rightarrow> conn list \<Rightarrow> (unit, sys) cmd" where
  "bq_do_call E conns = block [calloc_buffers, bq_loop E conns]"

text \<open>\<open>multi_server_thread_Listening_on_multiple_ports.c\<close> has the same pool thread.\<close>

definition mp_serve :: "env \<Rightarrow> conn \<Rightarrow> (unit, sys) cmd" where
  "mp_serve E c = block
     [take_conn c,
      serve_request mp_read_request_line mp_response (mp_route E),
      c_shutdown (conn_fd c) SHUT_WR,
      end_conn (conn_fd c)]"

fun mp_loop :: "env \<Rightarrow> conn list \<Rightarrow> (unit, sys) cmd" where
  "mp_loop E [] = (\<lambda>s. Blocked s)"
| "mp_loop E (c # cs) = bindC (mp_serve E c) (\<lambda>_. mp_loop E cs)"

definition mp_do_call :: "env \<Rightarrow> conn list \<Rightarrow> (unit, sys) cmd" where
  "mp_do_call E conns = block [calloc_buffers, mp_loop E conns]"

lemma mp_handler [simp]: "mp_serve = bq_serve" "mp_loop = bq_loop" "mp_do_call = bq_do_call"
proof -
  show s: "mp_serve = bq_serve" by (intro ext) (simp add: mp_serve_def bq_serve_def)
  have "mp_loop E cs = bq_loop E cs" for E cs by (induction cs) (simp_all add: s)
  then show l: "mp_loop = bq_loop" by (intro ext) simp
  show "mp_do_call = bq_do_call" by (intro ext) (simp add: mp_do_call_def bq_do_call_def l)
qed

text \<open>
  \<open>multi_server_pre_create_thread.c\<close>: every pool thread calls \<open>accept\<close> itself; an interrupted
  call is repeated, another error ends the process (\<open>err_sys\<close>, status -1).
\<close>

datatype accept_ev = Acc conn | Acc_err int

fun pc_loop :: "env \<Rightarrow> accept_ev list \<Rightarrow> (unit, sys) cmd" where
  "pc_loop E [] = (\<lambda>s. Blocked s)"
| "pc_loop E (Acc_err e # es) =
     bindC (set_errno e) (\<lambda>_. if e = EINTR then pc_loop E es else (\<lambda>s. Exited (-1) s))"
| "pc_loop E (Acc c # es) =
     bindC (block [take_conn c, serve_request pc_read_request_line pc_response (pc_route E),
                   c_shutdown (conn_fd c) SHUT_WR, end_conn (conn_fd c)]) (\<lambda>_. pc_loop E es)"

definition pc_do_call :: "env \<Rightarrow> accept_ev list \<Rightarrow> (unit, sys) cmd" where
  "pc_do_call E evs = block [calloc_buffers, pc_loop E evs]"

end
