(* ===== verification/Request_Handling.thy ===== *)
theory Request_Handling
  imports Replies Handlers
begin

text \<open>
  The request handlers as wholes: how \<open>do_call\<close> treats a request line, what each route sends, how
  many requests it counts, and what it leaves of the semaphore and of the descriptors.
\<close>

section \<open>From the bytes to the route\<close>

text \<open>The state once the request line \<open>m u v\<close> has been read and \<open>rest\<close> is still to come.\<close>

definition parsed :: "string \<Rightarrow> string \<Rightarrow> string \<Rightarrow> string \<Rightarrow> sys \<Rightarrow> sys" where
  "parsed m u v rest s =
     (let r = after_version (req_buf s) (recv_buffer s) m u v
      in s\<lparr>rx := rest, req_buf := rd_req r, recv_buffer := rd_buf r\<rparr>)"

lemma parsed_simps [simp]:
  "sendq (parsed m u v rest s) = sendq s" "tx (parsed m u v rest s) = tx s"
  "sem (parsed m u v rest s) = sem s" "shm (parsed m u v rest s) = shm s"
  "share_address (parsed m u v rest s) = share_address s" "fds (parsed m u v rest s) = fds s"
  "errno (parsed m u v rest s) = errno s" "need_stop_script (parsed m u v rest s) = need_stop_script s"
  "kills (parsed m u v rest s) = kills s" "rx (parsed m u v rest s) = rest"
  by (simp_all add: parsed_def Let_def)

lemma parsed_uri: "request_ok m u v \<Longrightarrow> uri_at (req_buf (parsed m u v rest s)) 0 = u"
  using after_version_uri [of u] by (simp add: parsed_def Let_def uri_at_def request_ok_def)

lemma uri_at_drop: "uri_at q 0 = u \<Longrightarrow> k \<le> length u \<Longrightarrow> uri_at q k = drop k u"
  using cstr_drop [of k "req_uri q" 0 URI_LIMIT] by (simp add: uri_at_def)

lemma parsed_meth:
  "request_ok m u v \<Longrightarrow> 3 \<le> length m \<Longrightarrow> meth (req_buf (parsed m u v rest s)) = method_spec m"
  by (simp add: parsed_def Let_def after_version_meth parse_method_spec request_ok_def)

lemma parsed_version:
  "request_ok m u v \<Longrightarrow> length v < BUFFSIZE \<Longrightarrow> version (req_buf (parsed m u v rest s)) = version_spec v"
  by (simp add: parsed_def Let_def after_version_version request_ok_def)

lemma read_request_line_ok:
  assumes "rx s = render_request m u v @ rest" and "request_ok m u v"
  shows "read_request_line resp s = Ret 0 (parsed m u v rest s)"
  using rl_loop_accepts [OF assms(2), of rest "req_buf s" "recv_buffer s"]
  by (simp add: read_request_line_def assms(1) parsed_def Let_def)

lemma serve_request_ok:
  assumes "rx s = render_request m u v @ rest" and "request_ok m u v"
  shows "serve_request (read_request_line resp) resp route s =
    (let s' = parsed m u v rest s in
       if meth (req_buf s') \<noteq> GET then resp 405 ''Method Not Allowed'' None s'
       else if major (version (req_buf s')) = -1 then resp 505 ''HTTP Version Not Supported'' None s'
       else route s')"
  by (simp add: serve_request_def read_request_line_ok [OF assms] IS_ERROR_def Let_def)

text \<open>Any other input that does not overrun the buffer is answered with 400.\<close>

lemma read_request_line_bad:
  assumes "fst (rl_loop (rx s) (rl_start (req_buf s) (recv_buffer s))) = RL_error"
  obtains r :: reader and rest where "read_request_line resp s =
    bindC (resp 400 ''Bad request'' None) (\<lambda>_. ret IS_ERROR)
      (s\<lparr>rx := rest, req_buf := rd_req r, recv_buffer := rd_buf r\<rparr>)"
proof -
  obtain e r rest where run: "rl_loop (rx s) (rl_start (req_buf s) (recv_buffer s)) = (e, r, rest)"
    by (metis surj_pair)
  then have "e = RL_error" using assms by simp
  then show ?thesis using run that [of r rest] by (simp add: read_request_line_def)
qed

section \<open>What serving a request leaves alone\<close>

text \<open>
  Everything but the connection, the buffers, the counters and their semaphore, the descriptors
  and the state of the script of a \<open>/bash/\<close> request.
\<close>

definition outside :: "sys \<Rightarrow> sys" where
  "outside s = s\<lparr>rx := [], sendq := [], tx := [], errno := 0, shm := init_statistics, sem := 0,
     req_buf := calloc_req_line, recv_buffer := calloc_buffer, alarm_count := 0, need_stop_script := 0,
     alarm_handler := H_default, alarm_armed := False, kills := [], waits := [], fds := []\<rparr>"

lemma outside_simps [simp]:
  "outside (s\<lparr>rx := a\<rparr>) = outside s" "outside (s\<lparr>sendq := b\<rparr>) = outside s"
  "outside (s\<lparr>tx := c\<rparr>) = outside s" "outside (s\<lparr>errno := d\<rparr>) = outside s"
  "outside (s\<lparr>shm := e\<rparr>) = outside s" "outside (s\<lparr>sem := f\<rparr>) = outside s"
  "outside (s\<lparr>req_buf := g\<rparr>) = outside s" "outside (s\<lparr>recv_buffer := h\<rparr>) = outside s"
  "outside (s\<lparr>fds := i\<rparr>) = outside s"
  by (simp_all add: outside_def)

lemma outside_script_simps [simp]:
  "outside (s\<lparr>alarm_count := a\<rparr>) = outside s" "outside (s\<lparr>need_stop_script := a\<rparr>) = outside s"
  "outside (s\<lparr>alarm_handler := b\<rparr>) = outside s" "outside (s\<lparr>alarm_armed := c\<rparr>) = outside s"
  "outside (s\<lparr>kills := d\<rparr>) = outside s" "outside (s\<lparr>waits := e\<rparr>) = outside s"
  by (simp_all add: outside_def)

lemma outside_io_view [simp]: "outside (io_view s) = outside s"
  by (simp add: outside_def io_view_def)

lemma frames_outside:
  assumes "frames outside c" and "\<And>s. f (outside s) = f s"
  shows "frames f c"
  unfolding frames_def
proof
  fix s
  have "outcome_all (\<lambda>s'. outside s' = outside s) (c s)" using assms(1) by (simp add: frames_def)
  then show "outcome_all (\<lambda>s'. f s' = f s) (c s)"
    by (rule outcome_all_mono) (metis assms(2))
qed

lemma outside_sends: "frames outside (send_fmt d)" "frames outside (send_fmt_ret d)" "frames outside (c_send d)"
  by (intro frames_send_fmt frames_send_fmt_ret frames_c_send; simp)+

lemma outside_calls: "frames outside (set_errno e)" "frames outside (c_close fd)" "frames outside add_fd"
  "frames outside sem_wait" "frames outside sem_post"
  unfolding set_errno_def c_close_def
  by (intro frames_modify frames_add_fd frames_sem_wait frames_sem_post; simp)+

lemmas outside_intros = outside_sends outside_calls frames_ret frames_faulting

lemma outside_copy_loop: "frames outside (copy_loop es)"
proof (induction es rule: copy_loop.induct)
  case (2 es)
  show ?case unfolding copy_loop.simps by (rule frames_bind [OF outside_calls(1) 2])
next
  case (4 d es)
  then show ?case
    unfolding copy_loop.simps by (intro frames_if frames_ret frames_bind outside_sends)
qed (unfold copy_loop.simps, (rule outside_intros)+)

context status_writer
begin

lemma outside_wc: "frames outside (wc code)"
  by (rule wc_frames) simp

lemma outside_response: "frames outside (response wc code reason msg)"
  unfolding response_def by (intro frames_block) (auto intro: outside_sends outside_wc)

lemma outside_req_parser: "frames outside (req_parser wc E)"
  unfolding req_parser_def Let_def
  by (intro frames_get)
     (auto intro!: frames_bind frames_block frames_modify
       intro: outside_intros outside_response outside_wc outside_copy_loop
       simp del: block.simps split: prod.split option.split sum.split)

lemma outside_ls_version_two: "frames outside (ls_version_two wc E path)"
  unfolding ls_version_two_def
  by (auto intro!: frames_bind frames_block intro: outside_intros outside_response outside_wc
       simp del: block.simps split: sum.split)

lemma outside_route_file: "frames outside (route_file (ls_version_two wc) (req_parser wc) E)"
  unfolding route_file_def is_dir_def Let_def
  by (intro frames_get frames_bind)
     (auto intro!: frames_bind intro: outside_intros outside_req_parser outside_ls_version_two
       split: sum.split)

end

lemma outside_read_requests: "frames outside read_requests" "frames outside read_requests_locked"
proof -
  show r: "frames outside read_requests"
    unfolding read_requests_def by (intro frames_get) (auto intro: outside_intros split: shm_ptr.split)
  show "frames outside read_requests_locked"
    unfolding read_requests_locked_def by (intro frames_bind r outside_intros)
qed

lemma outside_serve_request:
  assumes "\<And>code reason msg. frames outside (resp code reason msg)" and "frames outside route"
  shows "frames outside (serve_request (read_request_line resp) resp route)"
proof -
  have "frames outside (read_request_line resp)"
    unfolding read_request_line_def
    by (intro frames_get)
       (auto intro!: frames_bind frames_modify intro: outside_intros assms
         split: prod.split rl_exit.split)
  then show ?thesis
    unfolding serve_request_def by (intro frames_bind frames_get frames_if frames_ret assms)
qed

section \<open>How many requests a connection counts\<close>

lemma answers_read_requests: "answers cost 0 0 read_requests" "answers cost 0 0 read_requests_locked"
proof -
  show r: "answers cost 0 0 read_requests"
    unfolding read_requests_def
    by (intro answers_get) (auto intro: answers_ret answers_faulting split: shm_ptr.split)
  have eq: "shm s' = shm s \<and> sem s' = sem s" if "read_requests s = Ret a s'" for s a s'
    using that by (auto simp: read_requests_def split: shm_ptr.splits)
  show "answers cost 0 0 read_requests_locked"
    by (rule answersI, rule exI [of _ "[]"])
       (auto simp: read_requests_locked_def bindC_Ret_iff sem_wait_def dest!: eq split: nat.splits)
qed

context counting_writer
begin

lemma answers_route_file: "answers cost 1 1 (route_file (ls_version_two wc) (req_parser wc) E)"
proof -
  have "answers cost 0 0 (is_dir E path)" for path
    unfolding is_dir_def
    by (cases "stat_isdir E path") (simp_all add: answers_ret answers_then [OF answers_calls(1)])
  then show ?thesis
    unfolding route_file_def Let_def
    by (intro answers_get answers_then)
       (simp_all add: answers_req_parser answers_ls_version_two del: One_nat_def)
qed

lemma answers_statistics:
  assumes "answers cost 0 0 rd"
  shows "answers cost 1 1 (bindC rd (\<lambda>total. response wc 200 ''Ok'' (Some (statistics_message total))))"
  using assms answers_response by (rule answers_then)

text \<open>
  Every way out of \<open>serve_request\<close> has called \<open>write_code\<close> exactly once, if every way out of
  the route has (or between \<open>l\<close> and 1 times, with \<open>l\<close> at most 1).
\<close>

lemma answers_serve_request:
  assumes "answers cost l 1 route" and "l \<le> 1"
  shows "answers cost l 1 (serve_request (read_request_line (response wc)) (response wc) route)"
proof (rule answersI)
  fix s u s'
  assume run: "serve_request (read_request_line (response wc)) (response wc) route s = Ret u s'"
  let ?G = "\<lambda>t t'. \<exists>codes. l \<le> length codes \<and> length codes \<le> 1 \<and>
    count_all codes (shm t) = Some (shm t') \<and> sem t = sem t' + cost * length codes"
  have resp: "?G t s'" if "response wc code reason msg t = Ret v s'" for code reason msg t v
    using answersE [OF answers_weaken [OF answers_response assms(2) le_refl] that] by blast
  obtain e r rest where rl: "rl_loop (rx s) (rl_start (req_buf s) (recv_buffer s)) = (e, r, rest)"
    by (metis surj_pair)
  let ?t = "s\<lparr>rx := rest, req_buf := rd_req r, recv_buffer := rd_buf r\<rparr>"
  have "?G ?t s'"
  proof (cases e)
    case RL_ok
    then consider "response wc 405 ''Method Not Allowed'' None ?t = Ret u s'"
      | "response wc 505 ''HTTP Version Not Supported'' None ?t = Ret u s'" | "route ?t = Ret u s'"
      using run rl by (auto simp: serve_request_def read_request_line_def IS_ERROR_def split: if_splits)
    then show ?thesis
    proof cases
      case 3
      show ?thesis using answersE [OF assms(1) 3] by blast
    qed (rule resp, assumption)+
  next
    case RL_error
    then obtain v where "response wc 400 ''Bad request'' None ?t = Ret v s'"
      using run rl by (auto simp: serve_request_def read_request_line_def bindC_Ret_iff split: if_splits)
    then show ?thesis by (rule resp)
  next
    case RL_overflow
    then show ?thesis using run rl by (simp add: serve_request_def read_request_line_def)
  qed
  then show "?G s s'" by simp
qed

end

lemma thr_route_answers: "answers 1 1 1 (thr_route E)"
  unfolding thr_route_def Let_def thr_linked
  by (intro answers_get)
     (simp add: thr.answers_statistics answers_read_requests thr.answers_route_file del: One_nat_def)

lemma thr_serve_answers: "answers 1 1 1 (serve_request thr_read_request_line thr_response (thr_route E))"
proof -
  have "thr_response = response thr_write_code" by (intro ext) (simp add: thr_response_def)
  then show ?thesis
    using thr.answers_serve_request [OF thr_route_answers] by (simp add: thr_read_request_line_def)
qed

lemma outside_thr_serve: "frames outside (serve_request thr_read_request_line thr_response (thr_route E))"
proof (unfold thr_read_request_line_def, rule outside_serve_request)
  show "frames outside (thr_response code reason msg)" for code reason msg
    unfolding thr_response_def by (rule thr.outside_response)
  then show "frames outside (thr_route E)"
    unfolding thr_route_def Let_def thr_linked
    by (intro frames_get frames_if frames_bind outside_read_requests thr.outside_route_file)
qed

section \<open>What a request asks for, and its answer\<close>

datatype target = T_statistics | T_script string | T_path string

text \<open>
  The meaning of a URI, in terms of the string alone: letters of the two keywords in either case,
  a script as everything after \<open>/bash/\<close>, else a path.
\<close>

definition target_of :: "string \<Rightarrow> target" where
  "target_of u =
     (if map tolower (tl u) = map tolower ''statistics'' then T_statistics
      else if 6 \<le> length u \<and> u ! 5 = CHR ''/'' \<and> map tolower (take 4 (tl u)) = map tolower ''bash''
      then T_script (drop 6 u) else T_path (tl u))"

lemma uri_byte:
  assumes "uri_at q 0 = u" and "length u < URI_LIMIT"
  shows "k < length u \<Longrightarrow> req_uri q k = u ! k" and "req_uri q (length u) = NUL"
  using assms cstr_nth [of k "req_uri q" 0 URI_LIMIT] cstr_stop [of 0 "req_uri q" URI_LIMIT]
  by (auto simp: uri_at_def)

lemma uri_no_NUL: "uri_at q k = u \<Longrightarrow> NUL \<notin> set u"
  using cstr_no_NUL by (auto simp: uri_at_def)

lemma is_statistics_target:
  assumes "uri_at q 0 = u" and "length u < URI_LIMIT" and "u \<noteq> []"
  shows "is_statistics q \<longleftrightarrow> target_of u = T_statistics"
proof -
  have u1: "uri_at q 1 = tl u" using uri_at_drop [OF assms(1), of 1] assms(3) by (cases u) auto
  have q0: "req_uri q 0 \<noteq> NUL"
    using uri_byte(1) [OF assms(1,2), of 0] uri_no_NUL [OF assms(1)] assms(3) nth_mem [of 0 u] by force
  have "strncasecmp ''statistics'' (tl u) 11 = 0 \<longleftrightarrow>
      map tolower ''statistics'' = map tolower (take 11 (tl u))"
    using strncasecmp_0_iff [of "''statistics''" "tl u" 11] uri_no_NUL [OF u1] by simp
  also have "\<dots> \<longleftrightarrow> map tolower (tl u) = map tolower ''statistics''"
  proof
    assume eq: "map tolower ''statistics'' = map tolower (take 11 (tl u))"
    then have "length (take 11 (tl u)) = 10" using map_eq_imp_length_eq [OF eq] by simp
    then have "take 11 (tl u) = tl u" by (simp split: if_splits)
    then show "map tolower (tl u) = map tolower ''statistics''" using eq by simp
  next
    assume eq: "map tolower (tl u) = map tolower ''statistics''"
    then have "length (tl u) = 10" using map_eq_imp_length_eq [OF eq] by simp
    then show "map tolower ''statistics'' = map tolower (take 11 (tl u))" using eq by simp
  qed
  finally show ?thesis using q0 u1 by (simp add: is_statistics_def target_of_def)
qed

lemma is_bash_target:
  assumes "uri_at q 0 = u" and "length u < URI_LIMIT" and "u \<noteq> []" and "target_of u \<noteq> T_statistics"
  shows "is_bash q \<longleftrightarrow> (\<exists>c. target_of u = T_script c)"
proof -
  have u1: "uri_at q 1 = tl u" using uri_at_drop [OF assms(1), of 1] assms(3) by (cases u) auto
  have q0: "req_uri q 0 \<noteq> NUL"
    using uri_byte(1) [OF assms(1,2), of 0] uri_no_NUL [OF assms(1)] assms(3) nth_mem [of 0 u] by force
  have cmp: "strncasecmp ''bash'' (tl u) 4 = 0 \<longleftrightarrow> map tolower (take 4 (tl u)) = map tolower ''bash''"
    using strncasecmp_0_iff [of "''bash''" "tl u" 4] uri_no_NUL [OF u1] by auto
  have len: "6 \<le> length u \<and> u ! 5 = CHR ''/''"
    if eq: "map tolower (take 4 (tl u)) = map tolower ''bash''" and q5: "req_uri q 5 = CHR ''/''"
  proof -
    have "length (take 4 (tl u)) = 4" using map_eq_imp_length_eq [OF eq] by simp
    then have "5 \<le> length u" by simp
    moreover have "length u \<noteq> 5" using q5 uri_byte(2) [OF assms(1,2)] by auto
    ultimately show ?thesis using q5 uri_byte(1) [OF assms(1,2), of 5] by simp
  qed
  have q5: "req_uri q 5 = CHR ''/''" if "6 \<le> length u" "u ! 5 = CHR ''/''"
    using that uri_byte(1) [OF assms(1,2), of 5] by simp
  have "is_bash q \<longleftrightarrow> 6 \<le> length u \<and> u ! 5 = CHR ''/'' \<and> map tolower (take 4 (tl u)) = map tolower ''bash''"
    unfolding is_bash_def u1 cmp using q0 len q5 by blast
  moreover have "map tolower (tl u) \<noteq> map tolower ''statistics''"
    using assms(4) by (auto simp: target_of_def)
  then have "(\<exists>c. target_of u = T_script c) \<longleftrightarrow>
      6 \<le> length u \<and> u ! 5 = CHR ''/'' \<and> map tolower (take 4 (tl u)) = map tolower ''bash''"
    unfolding target_of_def by (simp only: if_False) (metis target.distinct(5) target.inject(1))
  ultimately show ?thesis by blast
qed

lemma target_script: "target_of u = T_script c \<Longrightarrow> c = drop 6 u \<and> 6 \<le> length u"
  by (simp add: target_of_def split: if_splits)

lemma target_path: "target_of u = T_path p \<Longrightarrow> p = tl u"
  by (simp add: target_of_def split: if_splits)

text \<open>The reply to a path: its code and its bytes.\<close>

definition path_answer :: "env \<Rightarrow> string \<Rightarrow> int \<times> string" where
  "path_answer E u =
     (let dir = tl u; bare = takeWhile (\<lambda>c. c \<noteq> CHR ''?'') u; path = tl bare
      in if stat_isdir E dir = Inr True then
           (case open_dir E dir of
              Inr entries \<Rightarrow> (200, listing_bytes entries)
            | Inl e \<Rightarrow> (500, reply_bytes 500 ''server error'' (Some ''call opendir error'')))
         else if bare = [] then (200, reply_bytes 200 ''Ok'' None)
         else (case faccess_errno E path of
              Some e \<Rightarrow> (404, reply_bytes 404 ''not found'' (Some (strerror E e)))
            | None \<Rightarrow>
                (case open_rdonly E path of
                   Inl e \<Rightarrow>
                     (if e = EACCES then (403, reply_bytes 403 ''require permissions'' (Some (strerror E e)))
                      else (500, reply_bytes 500 ''server error'' (Some (strerror E e))))
                 | Inr es \<Rightarrow> (200, status_line 200 ''Ok'' @ CRLF @ file_data es))))"

text \<open>Names and messages of the system fit a buffer (a name has at most 255 bytes).\<close>

definition env_short :: "env \<Rightarrow> bool" where
  "env_short E \<longleftrightarrow> (\<forall>e. length (strerror E e) < 1000) \<and>
     (\<forall>p entries. open_dir E p = Inr entries \<longrightarrow> (\<forall>d \<in> set entries. length d \<le> 255))"

lemma env_shortD:
  assumes "env_short E"
  shows "length (strerror E e) < 8190"
    and "open_dir E p = Inr entries \<Longrightarrow> \<forall>d \<in> set entries. length d + 1 < BUFFSIZE"
proof -
  have "length (strerror E e) < 1000" using assms by (simp add: env_short_def)
  then show "length (strerror E e) < 8190" by simp
  show "\<forall>d \<in> set entries. length d + 1 < BUFFSIZE" if "open_dir E p = Inr entries"
    using assms that unfolding env_short_def BUFFSIZE_def by fastforce
qed

text \<open>
  \<open>answered cost a s r\<close>: the run that started in \<open>s\<close> and ended as \<open>r\<close> returned, sent the bytes of
  the answer \<open>a\<close>, counted its code, and used up \<open>cost\<close> units of the semaphore.
\<close>

definition answered :: "nat \<Rightarrow> int \<times> string \<Rightarrow> sys \<Rightarrow> (unit, sys) outcome \<Rightarrow> bool" where
  "answered cost a s r \<longleftrightarrow> (\<exists>s'. r = Ret () s' \<and> tx s' = tx s @ snd a \<and>
     shm s' = counted (fst a) (shm s) \<and> sem s' = sem s - cost)"

lemma answeredI:
  "r = Ret () s' \<Longrightarrow> tx s' = tx s @ snd a \<Longrightarrow> shm s' = counted (fst a) (shm s) \<Longrightarrow>
   sem s' = sem s - cost \<Longrightarrow> answered cost a s r"
  by (auto simp: answered_def)

text \<open>The refusals made before the URI is looked at.\<close>

definition request_answer :: "env \<Rightarrow> int \<Rightarrow> string \<Rightarrow> string \<Rightarrow> string \<Rightarrow> int \<times> string" where
  "request_answer E n m u v =
     (if method_spec m \<noteq> GET then (405, reply_bytes 405 ''Method Not Allowed'' None)
      else if major (version_spec v) = -1 then (505, reply_bytes 505 ''HTTP Version Not Supported'' None)
      else (case target_of u of
          T_statistics \<Rightarrow> (200, reply_bytes 200 ''Ok'' (Some (statistics_message n)))
        | _ \<Rightarrow> path_answer E u))"

text \<open>A decimal number has no more digits than its value, so the statistics message is short.\<close>

lemma length_dec_nat_le: "n < 10 ^ k \<Longrightarrow> 0 < k \<Longrightarrow> length (dec_nat n) \<le> k"
proof (induction k arbitrary: n)
  case 0
  then show ?case by simp
next
  case (Suc k)
  show ?case
  proof (cases "n < 10")
    case True
    then show ?thesis by (subst dec_nat.simps) simp
  next
    case False
    then have "n div 10 < 10 ^ k" "0 < k" using Suc.prems by (auto intro: gr0I)
    then show ?thesis using Suc.IH [of "n div 10"] False by (subst dec_nat.simps) simp
  qed
qed

lemma statistics_message_fits:
  assumes "stats_inv st"
  shows "reply_fits 200 ''Ok'' (Some (statistics_message (requests st)))"
proof -
  have "0 \<le> requests st" "requests st < 10 ^ 10"
    using assms by (auto simp: stats_inv_def class_sum_def INT_MAX_def)
  then have "length (dec_int (requests st)) \<le> 10"
    using length_dec_nat_le [of "nat (requests st)" 10] by (simp add: dec_int_def nat_less_iff)
  then show ?thesis by (intro reply_fitsI) (simp_all add: statistics_message_def)
qed

context ready_writer
begin

lemma response_answered:
  "ready s \<Longrightarrow> reply_fits code reason msg \<Longrightarrow>
   answered cost (code, reply_bytes code reason msg) s (response wc code reason msg s)"
  by (rule answeredI [OF response_ready]) auto

text \<open>A step that touches neither the connection nor the counters may come first.\<close>

lemma answered_from:
  "answered cost a t r \<Longrightarrow> tx t = tx s \<Longrightarrow> shm t = shm s \<Longrightarrow> sem t = sem s \<Longrightarrow> answered cost a s r"
  by (simp add: answered_def)

lemma ls_answered:
  assumes "ready s" and "env_short E"
  shows "answered cost (case open_dir E p of
       Inr entries \<Rightarrow> (200, listing_bytes entries)
     | Inl e \<Rightarrow> (500, reply_bytes 500 ''server error'' (Some ''call opendir error'')))
     s (ls_version_two wc E p s)"
proof (cases "open_dir E p")
  case (Inr entries)
  show ?thesis
    using ls_version_two_dir [OF assms(1) Inr env_shortD(2) [OF assms(2) Inr]]
    by (intro answeredI) (auto simp: Inr)
next
  case (Inl e)
  let ?t = "s\<lparr>errno := e\<rparr>"
  have "ready ?t" using assms(1) by (simp add: ready_def)
  then have "answered cost (500, reply_bytes 500 ''server error'' (Some ''call opendir error'')) ?t
      (response wc 500 ''server error'' (Some ''call opendir error'') ?t)"
    by (rule response_answered) (simp add: reply_fitsI)
  then show ?thesis
    by (auto simp: answered_def ls_version_two_def Inl)
qed

lemma file_answered:
  assumes s: "ready s" "env_short E" and u: "uri_at (req_buf s) 0 = u" "length u < URI_LIMIT"
    and dir: "stat_isdir E (tl u) \<noteq> Inr True"
  shows "answered cost (path_answer E u) s (req_parser wc E s)"
proof (cases "takeWhile (\<lambda>c. c \<noteq> CHR ''?'') u")
  case Nil
  obtain i q where cut: "cut_query (req_buf s) = (i, q)" by (metis surj_pair)
  have "i = 0" using cut_query_spec(1) [OF u] Nil cut by simp
  moreover have "ready (s\<lparr>req_buf := q\<rparr>)" using s by (simp add: ready_def)
  ultimately show ?thesis
    using response_ready [of "s\<lparr>req_buf := q\<rparr>" 200 "''Ok''" None]
    by (simp add: reply_fitsI req_parser_def cut path_answer_def Let_def dir Nil answered_def)
next
  case (Cons c path)
  note fails = req_parser_fails [OF s(1) u Cons env_shortD(1) [OF s(2)]]
  show ?thesis
  proof (cases "faccess_errno E path")
    case (Some e)
    then show ?thesis
      by (intro answeredI [OF fails(1)]) (auto simp: path_answer_def Let_def dir Cons)
  next
    case None
    show ?thesis
    proof (cases "open_rdonly E path")
      case (Inl e)
      then show ?thesis
        using None by (intro answeredI [OF fails(2)]) (auto simp: path_answer_def Let_def dir Cons)
    next
      case (Inr es)
      then show ?thesis
        using None by (intro answeredI [OF req_parser_file [OF s(1) u Cons]])
          (auto simp: path_answer_def Let_def dir Cons)
    qed
  qed
qed

lemma route_file_answered:
  assumes s: "ready s" "env_short E" and u: "uri_at (req_buf s) 0 = u" "length u < URI_LIMIT" "u \<noteq> []"
  shows "answered cost (path_answer E u) s (route_file (ls_version_two wc) (req_parser wc) E s)"
proof -
  have u1: "uri_at (req_buf s) 1 = tl u" using uri_at_drop [OF u(1), of 1] u(3) by (cases u) auto
  show ?thesis
  proof (cases "stat_isdir E (tl u)")
    case (Inl e)
    let ?t = "s\<lparr>errno := e\<rparr>"
    have "answered cost (path_answer E u) ?t (req_parser wc E ?t)"
      by (rule file_answered) (use s u Inl in \<open>auto simp: ready_def\<close>)
    then show ?thesis using Inl u1 by (simp add: route_file_def is_dir_def Let_def answered_def bindC_assoc)
  next
    case (Inr d)
    then show ?thesis
      using u1 ls_answered [OF s, of "tl u"] file_answered [OF s u(1,2)]
      by (cases d) (simp_all add: route_file_def is_dir_def Let_def path_answer_def)
  qed
qed

end

section \<open>Whole connections\<close>

lemma ready_parsed: "ready s \<Longrightarrow> ready (parsed m u v rest s)"
  by (simp add: ready_def)

context ready_writer
begin

lemma serve_request_answered:
  assumes r: "rx s = render_request m u v @ rest" "request_ok m u v" "3 \<le> length m" "length v < BUFFSIZE"
    and s: "ready s"
    and route: "method_spec m = GET \<Longrightarrow> major (version_spec v) \<noteq> -1 \<Longrightarrow>
      answered cost (request_answer E n m u v) (parsed m u v rest s) (route (parsed m u v rest s))"
  shows "answered cost (request_answer E n m u v) s (serve_request (read_request_line (response wc)) (response wc) route s)"
proof -
  have "answered cost (request_answer E n m u v) (parsed m u v rest s)
      (serve_request (read_request_line (response wc)) (response wc) route s)"
  proof (cases "method_spec m = GET \<and> major (version_spec v) \<noteq> -1")
    case True
    then show ?thesis
      using route by (simp add: serve_request_ok [OF r(1,2)] Let_def parsed_meth parsed_version r)
  next
    case False
    then show ?thesis
      using response_answered [OF ready_parsed [OF s]]
      by (auto simp: serve_request_ok [OF r(1,2)] Let_def parsed_meth parsed_version r
            request_answer_def reply_fitsI)
  qed
  then show ?thesis by (simp add: answered_def)
qed

end

text \<open>The two ways of reading the counter give its value and leave the state alone.\<close>

lemma read_requests_ready:
  "ready s \<Longrightarrow> read_requests s = Ret (requests (shm s)) s"
  "ready s \<Longrightarrow> read_requests_locked s = Ret (requests (shm s)) s"
  by (auto simp: ready_def read_requests_locked_def read_requests_def gr0_conv_Suc)

lemma parsed_target:
  assumes "request_ok m u v" and "u \<noteq> []"
  shows "is_statistics (req_buf (parsed m u v rest s)) \<longleftrightarrow> target_of u = T_statistics"
    and "target_of u \<noteq> T_statistics \<Longrightarrow>
      is_bash (req_buf (parsed m u v rest s)) \<longleftrightarrow> (\<exists>c. target_of u = T_script c)"
  using is_statistics_target [OF parsed_uri [OF assms(1)] _ assms(2)]
    is_bash_target [OF parsed_uri [OF assms(1)] _ assms(2)] assms(1)
  by (simp_all add: request_ok_def)

lemma thr_route_answered:
  assumes "request_ok m u v" "u \<noteq> []" "ready s" "env_short E"
    and "method_spec m = GET" "major (version_spec v) \<noteq> -1"
  shows "answered 1 (request_answer E (requests (shm s)) m u v) (parsed m u v rest s)
    (thr_route E (parsed m u v rest s))"
proof -
  let ?P = "parsed m u v rest s"
  note P = ready_parsed [OF assms(3), of m u v rest]
  have len: "length u < URI_LIMIT" using assms(1) by (simp add: request_ok_def)
  show ?thesis
  proof (cases "target_of u")
    case T_statistics
    then show ?thesis
      using assms(5,6) parsed_target(1) [OF assms(1,2)]
        thr.response_answered [OF P statistics_message_fits]
        read_requests_ready(2) [OF P] assms(3)
      by (simp add: thr_route_def thr_response_def request_answer_def ready_def)
  qed (use assms(5,6) parsed_target(1) [OF assms(1,2)]
        thr.route_file_answered [OF P assms(4) parsed_uri [OF assms(1)] len assms(2)]
      in \<open>simp_all add: thr_route_def thr_linked request_answer_def\<close>)
qed

text \<open>The state in which \<open>do_call\<close> reads the request: new buffers.\<close>

definition new_buffers :: "sys \<Rightarrow> sys" where
  "new_buffers s = s\<lparr>req_buf := calloc_req_line, recv_buffer := calloc_buffer\<rparr>"

lemma new_buffers_simps [simp]:
  "replies (new_buffers s) = replies s" "rx (new_buffers s) = rx s" "tx (new_buffers s) = tx s" "shm (new_buffers s) = shm s"
  "sem (new_buffers s) = sem s" "shut (new_buffers s) = shut s" "fds (new_buffers s) = fds s"
  "ready (new_buffers s) = ready s" "outside (new_buffers s) = outside s"
  by (simp_all add: new_buffers_def ready_def)

lemma calloc_buffers_apply [simp]: "calloc_buffers s = Ret () (new_buffers s)"
  by (simp add: calloc_buffers_def new_buffers_def)

lemma outside_shut: "outside s' = outside s \<Longrightarrow> shut s' = shut s"
  by (metis outside_def sys.select_convs sys.simps sys.surjective sys.update_convs)

section \<open>The pool threads\<close>

text \<open>Without a unit of the semaphore no request is finished; a finished one uses one up.\<close>

definition once :: "nat \<Rightarrow> sys \<Rightarrow> bool" where
  "once n s \<longleftrightarrow> length (replies s) + sem s \<le> n"

lemma thr_turn_once:
  assumes "once n s"
  shows "outcome_all (\<lambda>s'. length (replies s') \<le> n)
      (block [take_conn c, serve_request thr_read_request_line thr_response (thr_route E), c_shutdown fd how, end_conn fd'] s)"
    and "block [take_conn c, serve_request thr_read_request_line thr_response (thr_route E), c_shutdown fd how, end_conn fd'] s = Ret u s' \<Longrightarrow>
      once n s'"
proof -
  let ?t = "s\<lparr>rx := conn_bytes c, sendq := conn_sendq c, tx := []\<rparr>"
  let ?serve = "serve_request thr_read_request_line thr_response (thr_route E)"
  have fr: "frames replies ?serve"
    by (rule frames_outside [OF outside_thr_serve]) (simp add: outside_def)
  have sem: "sem ?t = Suc (sem t)" if "?serve ?t = Ret a t" for a t
    by (rule answersE [OF thr_serve_answers that]) auto
  have rep: "replies t = replies s" if "?serve ?t = Ret a t" for a t
    using frames_Ret [OF fr that] by simp
  have all: "outcome_all (\<lambda>t. replies t = replies s) (?serve ?t)"
    using fr [unfolded frames_def, rule_format, of ?t] by simp
  show "outcome_all (\<lambda>s'. length (replies s') \<le> n)
      (block [take_conn c, ?serve, c_shutdown fd how, end_conn fd'] s)"
  proof (cases "?serve ?t")
    case (Ret a t)
    then show ?thesis
      using sem [OF Ret] rep [OF Ret] assms by (simp add: take_conn_def end_conn_def once_def)
  qed (use all assms in \<open>simp_all add: take_conn_def once_def\<close>)
  show "once n s'" if "block [take_conn c, ?serve, c_shutdown fd how, end_conn fd'] s = Ret u s'"
  proof (cases "?serve ?t")
    case (Ret a t)
    then show ?thesis
      using that sem [OF Ret] rep [OF Ret] assms by (auto simp: take_conn_def end_conn_def once_def)
  qed (use that in \<open>auto simp: take_conn_def\<close>)
qed

lemma bq_loop_bound: "once n s \<Longrightarrow> outcome_all (\<lambda>s'. length (replies s') \<le> n) (bq_loop E conns s)"
proof (induction conns arbitrary: s)
  case Nil
  then show ?case by (simp add: once_def)
next
  case (Cons c conns)
  have "outcome_all (\<lambda>s'. length (replies s') \<le> n) (bindC (bq_serve E c) (\<lambda>_. bq_loop E conns) s)"
    unfolding bq_serve_def
    by (rule outcome_all_bind, rule thr_turn_once(1) [OF Cons.prems])
       (rule Cons.IH, rule thr_turn_once(2) [OF Cons.prems])
  then show ?case by simp
qed

lemma pc_loop_bound: "once n s \<Longrightarrow> outcome_all (\<lambda>s'. length (replies s') \<le> n) (pc_loop E evs s)"
proof (induction evs arbitrary: s)
  case Nil
  then show ?case by (simp add: once_def)
next
  case (Cons ev evs)
  show ?case
  proof (cases ev)
    case (Acc c)
    show ?thesis
      unfolding Acc pc_loop.simps thread_copies route_copies
      by (rule outcome_all_bind, rule thr_turn_once(1) [OF Cons.prems])
         (rule Cons.IH, rule thr_turn_once(2) [OF Cons.prems])
  next
    case (Acc_err e)
    have "once n (s\<lparr>errno := e\<rparr>)" using Cons.prems by (simp add: once_def)
    then show ?thesis using Cons.IH [of "s\<lparr>errno := e\<rparr>"] by (auto simp: Acc_err once_def)
  qed
qed

lemma pool_loops_once:
  assumes "sem s = 1"
  shows "outcome_all (\<lambda>s'. length (replies s') \<le> length (replies s) + 1) (bq_loop E conns s)"
    and "outcome_all (\<lambda>s'. length (replies s') \<le> length (replies s) + 1) (pc_loop E evs s)"
  using bq_loop_bound [of "length (replies s) + 1" s] pc_loop_bound [of "length (replies s) + 1" s] assms
  by (simp_all add: once_def)

section \<open>Memory safety of the reader on short input\<close>

lemma never_overflow_send: "never Heap_Overflow (send_fmt d)"
proof -
  have "c_send x s \<noteq> Fault Heap_Overflow" for x s
    by (auto simp: c_send_def split: list.split send_ev.split)
  then show ?thesis
    by (auto simp: never_def send_fmt_def send_fmt_ret_def ignore_def bindC_def split: outcome.split)
qed

lemma never_overflow_wc: "never Heap_Overflow (ms_write_code code)" "never Heap_Overflow (thr_write_code code)"
proof -
  have sem: "never Heap_Overflow sem_wait" "never Heap_Overflow sem_post"
    by (auto simp: never_def sem_wait_def split: nat.split)
  have "never Heap_Overflow (tally code)"
    by (auto simp: never_def tally_def split: shm_ptr.split option.split)
  with sem show "never Heap_Overflow (ms_write_code code)" "never Heap_Overflow (thr_write_code code)"
    unfolding ms_write_code_def thr_write_code_def block.simps by (intro never_bind never_ret; simp)+
qed

lemma never_overflow_response:
  "(\<And>code. never Heap_Overflow (wc code)) \<Longrightarrow> never Heap_Overflow (response wc code reason msg)"
  unfolding response_def by (intro never_block) (auto intro: never_overflow_send)

lemma read_request_line_safe:
  assumes "\<And>code reason msg. never Heap_Overflow (resp code reason msg)" and "length (rx s) \<le> BUFFSIZE"
  shows "read_request_line resp s \<noteq> Fault Heap_Overflow"
proof -
  obtain e r l where run: "rl_loop (rx s) (rl_start (req_buf s) (recv_buffer s)) = (e, r, l)"
    by (metis surj_pair)
  have "e \<noteq> RL_overflow"
    using rl_loop_short [of "rl_start (req_buf s) (recv_buffer s)" "rx s"] assms(2) run
    by (simp add: rl_start_def)
  moreover have "never Heap_Overflow (bindC (resp 400 ''Bad request'' None) (\<lambda>_. ret IS_ERROR))"
    by (intro never_bind assms(1) never_ret)
  then have "bindC (resp 400 ''Bad request'' None) (\<lambda>_. ret IS_ERROR) t \<noteq> Fault Heap_Overflow" for t
    by (simp add: never_def)
  ultimately show ?thesis using run by (cases e) (simp_all add: read_request_line_def)
qed

end
