(* ===== verification/Scripts.thy ===== *)
theory Scripts
  imports Request_Handling
begin

text \<open>
  The shell scripts of \<open>/bash/\<close> requests: what \<open>handle_bash\<close> leaves alone, what it sends, when it
  kills, and how its two flags carry over from one request to the next.
\<close>

section \<open>Frames\<close>

text \<open>
  Everything but the connection, \<open>errno\<close> and the state of the script: what the loops and the
  signal handlers do not touch.
\<close>

definition script_view :: "sys \<Rightarrow> sys" where
  "script_view s = s\<lparr>sendq := [], tx := [], errno := 0, alarm_count := 0, need_stop_script := 0,
     alarm_handler := H_default, alarm_armed := False, kills := [], waits := []\<rparr>"

lemma script_view_simps [simp]:
  "script_view (s\<lparr>sendq := b\<rparr>) = script_view s" "script_view (s\<lparr>tx := c\<rparr>) = script_view s"
  "script_view (s\<lparr>errno := d\<rparr>) = script_view s" "script_view (s\<lparr>alarm_count := i\<rparr>) = script_view s"
  "script_view (s\<lparr>need_stop_script := i\<rparr>) = script_view s"
  "script_view (s\<lparr>alarm_handler := h\<rparr>) = script_view s"
  "script_view (s\<lparr>alarm_armed := e\<rparr>) = script_view s" "script_view (s\<lparr>kills := k\<rparr>) = script_view s"
  "script_view (s\<lparr>waits := w\<rparr>) = script_view s"
  by (simp_all add: script_view_def)

lemma frames_script_view:
  assumes "frames script_view c" and "\<And>s. f (script_view s) = f s"
  shows "frames f c"
  unfolding frames_def
proof
  fix s
  have "outcome_all (\<lambda>s'. script_view s' = script_view s) (c s)" using assms(1) by (simp add: frames_def)
  then show "outcome_all (\<lambda>s'. f s' = f s) (c s)"
    by (rule outcome_all_mono) (metis assms(2))
qed

lemma script_sends: "frames script_view (send_fmt d)" "frames script_view (send_fmt_ret d)"
  "frames script_view (c_send d)" "frames script_view (set_errno e)"
  unfolding set_errno_def
  by (intro frames_send_fmt frames_send_fmt_ret frames_c_send frames_modify; simp)+

lemma script_deliver_alarm: "frames script_view deliver_alarm"
  by (intro framesI)
     (auto simp: deliver_alarm_def handle_sigalrm_def handle_sigalrm_stop_script_def Let_def
       split: sig_handler.split)

lemma script_signals: "frames script_view (signal_alrm h)" "frames script_view c_alarm" "frames script_view (c_kill p n)"
  unfolding signal_alrm_def c_alarm_def c_kill_def by (intro frames_modify; simp)+

lemma script_wait_loop: "frames script_view (wait_loop pid ws)"
proof (induction ws)
  case Nil
  show ?case by (intro framesI) simp
next
  case (Cons w ws)
  show ?case
    by (cases w; simp only: wait_loop.simps;
        intro frames_bind frames_get frames_if frames_modify Cons script_deliver_alarm script_signals; simp)
qed

lemma script_stop: "frames script_view (handle_bash_stop_child_process_group pid)"
  "frames script_view (stop_scirpt_timeout pid)"
  unfolding handle_bash_stop_child_process_group_def stop_scirpt_timeout_def block.simps
  by (intro frames_bind frames_get frames_modify frames_ret script_signals script_wait_loop; simp)+

lemma script_bash_loop: "frames script_view (bash_loop pid es)"
proof (induction pid es rule: bash_loop.induct)
  case (5 pid d es)
  then show ?case
    unfolding bash_loop.simps
    by (intro frames_if frames_get frames_bind frames_ret script_sends script_stop) simp_all
qed (simp only: bash_loop.simps; (intro frames_if frames_get frames_bind frames_ret script_sends script_deliver_alarm);
     simp)+

lemma answers_script: "frames script_view c \<Longrightarrow> answers cost 0 0 c"
  by (intro answers_silent; erule frames_script_view; simp add: script_view_def)

lemma outside_script: "frames script_view c \<Longrightarrow> frames outside c"
  by (erule frames_script_view) (simp add: script_view_def outside_def)

lemma pipe_read_v2_frames: "frames outside (pipe_read_v2 E command)" "answers cost 0 0 (pipe_read_v2 E command)"
proof -
  show "frames outside (pipe_read_v2 E command)"
    unfolding pipe_read_v2_def
    by (cases "pipe_errno E"; cases "fork_res E"; simp only: option.case sum.case;
        intro frames_bind outside_calls frames_ret)
  show "answers cost 0 0 (pipe_read_v2 E command)"
    unfolding pipe_read_v2_def
    by (cases "pipe_errno E"; cases "fork_res E"; simp only: option.case sum.case;
        intro answers_then answers_calls answers_ret)
qed

lemma answers_if_same:
  "answers cost l h c \<Longrightarrow> answers cost l h d \<Longrightarrow> answers cost l h (if b then c else d)"
  by simp

text \<open>\<open>handle_bash\<close> after the status line has been counted.\<close>

definition bash_rest :: "bash_ev list \<Rightarrow> int \<Rightarrow> (unit, sys) cmd" where
  "bash_rest output script_pid =
     bindC (send_fmt_ret CRLF) (\<lambda>r2. get (\<lambda>s2.
       if r2 = -1 \<and> errno s2 = EPIPE then handle_bash_stop_child_process_group script_pid
       else
         bindC (signal_alrm H_sigalrm_stop_script) (\<lambda>_.
         bindC c_alarm (\<lambda>_.
         bindC (bash_loop script_pid output) (\<lambda>x. case x of
           BX_return \<Rightarrow> ret ()
         | BX_done rt \<Rightarrow> get (\<lambda>s3.
             if rt = -1 \<or> need_stop_script s3 = 1 then stop_scirpt_timeout script_pid
             else ret ()))))))"

lemma handle_bash_unfold:
  "handle_bash wc E output command =
     bindC (pipe_read_v2 E command) (\<lambda>(fd, script_pid).
       if fd = -1 then response wc 500 ''Ok'' (Some ''command running error'')
       else
         bindC (send_fmt_ret (''HTTP/1.1 '' @ dec_int 200 @ '' '' @ ''Ok'' @ CRLF)) (\<lambda>r1. get (\<lambda>s1.
         if r1 = -1 \<and> errno s1 = EPIPE then handle_bash_stop_child_process_group script_pid
         else bindC (wc 200) (\<lambda>_. bash_rest output script_pid))))"
  by (simp only: handle_bash_def bash_rest_def)

lemma script_bash_rest: "frames script_view (bash_rest output pid)"
proof -
  have "frames script_view (case x of BX_return \<Rightarrow> ret () | BX_done rt \<Rightarrow> get (\<lambda>s3.
      if rt = -1 \<or> need_stop_script s3 = 1 then stop_scirpt_timeout pid else ret ()))" for x
    by (cases x; simp only: bash_exit.case; intro frames_get frames_if frames_ret script_stop)
  then show ?thesis
    unfolding bash_rest_def
    by (intro frames_bind frames_get frames_if script_sends script_stop script_signals script_bash_loop)
qed

context counting_writer
begin

lemma answers_handle_bash: "answers cost 0 1 (handle_bash wc E output command)"
proof -
  have bad: "answers cost 0 1 (response wc 500 ''Ok'' (Some ''command running error''))"
    by (rule answers_weaken [OF answers_response]) simp_all
  have stop: "answers cost 0 1 (handle_bash_stop_child_process_group pid)" for pid
    by (rule answers_weaken [OF answers_script [OF script_stop(1)]]) simp_all
  have "answers cost (1 + 0) (1 + 0) (bindC (wc 200) (\<lambda>_. bash_rest output pid))" for pid
    by (intro answers_bind answers_wc answers_script script_bash_rest)
  then have run: "answers cost 0 1 (bindC (wc 200) (\<lambda>_. bash_rest output pid))" for pid
    by (rule answers_weaken) simp_all
  have "answers cost 0 1 (if fd = -1 then response wc 500 ''Ok'' (Some ''command running error'')
       else bindC (send_fmt_ret h) (\<lambda>r1. get (\<lambda>s1. if r1 = -1 \<and> errno s1 = EPIPE
         then handle_bash_stop_child_process_group pid
         else bindC (wc 200) (\<lambda>_. bash_rest output pid))))" for fd pid h
    by (intro answers_if_same answers_then answers_get answers_send bad stop run)
  then show ?thesis
    unfolding handle_bash_unfold by (intro answers_then pipe_read_v2_frames) (simp only: split_beta)
qed

lemma outside_handle_bash: "frames outside (handle_bash wc E output command)"
proof -
  have "frames outside (if fd = -1 then response wc 500 ''Ok'' (Some ''command running error'')
       else bindC (send_fmt_ret h) (\<lambda>r1. get (\<lambda>s1. if r1 = -1 \<and> errno s1 = EPIPE
         then handle_bash_stop_child_process_group pid
         else bindC (wc 200) (\<lambda>_. bash_rest output pid))))" for fd pid h
    by (intro frames_if frames_bind frames_get outside_sends outside_response outside_wc
         outside_script script_stop script_bash_rest)
  then show ?thesis
    unfolding handle_bash_unfold by (intro frames_bind pipe_read_v2_frames) (simp only: split_beta)
qed

end

section \<open>The process servers\<close>

lemmas ms_program = process_copies handle_bash_copies ms_linked ms_handle_bash_def

lemma pf_route_answers: "answers 0 0 1 (pf_route E output)" "answers 0 0 1 (ms_route E output)"
proof -
  have path: "answers 0 0 1 (route_file (ls_version_two ms_write_code) (req_parser ms_write_code) E)"
    by (rule answers_weaken [OF ms.answers_route_file]) simp_all
  have stat: "answers 0 0 1 (bindC rd (\<lambda>t. response ms_write_code 200 ''Ok'' (Some (statistics_message t))))"
    if "answers 0 0 0 rd" for rd
    by (rule answers_weaken [OF ms.answers_statistics [OF that]]) simp_all
  show "answers 0 0 1 (pf_route E output)" "answers 0 0 1 (ms_route E output)"
    unfolding pf_route_def ms_route_def Let_def ms_program
    by (intro answers_get answers_if_same stat answers_read_requests ms.answers_handle_bash path)+
qed

lemma outside_routes: "frames outside (pf_route E output)" "frames outside (ms_route E output)"
  unfolding pf_route_def ms_route_def Let_def ms_program
  by (intro frames_get frames_if frames_bind outside_read_requests ms.outside_response
       ms.outside_handle_bash ms.outside_route_file)+

lemma pf_serve_answers: "answers 0 0 1 (serve_request ms_read_request_line ms_response (pf_route E output))"
  unfolding ms_program by (intro ms.answers_serve_request pf_route_answers) simp

lemma outside_pf_serve: "frames outside (serve_request ms_read_request_line ms_response (pf_route E output))"
  "frames outside (serve_request ms_read_request_line ms_response (ms_route E output))"
  unfolding ms_program
  by (intro outside_serve_request outside_routes ms.outside_response)+

section \<open>Killing the process group\<close>

lemma deliver_alarm_kills: "frames kills deliver_alarm"
  by (intro framesI)
     (auto simp: deliver_alarm_def handle_sigalrm_def handle_sigalrm_stop_script_def Let_def
       split: sig_handler.split)

text \<open>The loop kills only after \<open>waitpid\<close> has reported a child.\<close>

lemma wait_loop_no_child: "W_child \<notin> set ws \<Longrightarrow> outcome_all (\<lambda>s'. kills s' = kills s) (wait_loop pid ws s)"
proof (induction ws arbitrary: s)
  case Nil
  then show ?case by simp
next
  case (Cons w ws)
  show ?case
  proof (cases w)
    case W_alarm
    have first: "outcome_all (\<lambda>s'. kills s' = kills s) (deliver_alarm s)"
      using deliver_alarm_kills by (simp add: frames_def)
    then show ?thesis
      unfolding W_alarm wait_loop.simps
    proof (rule outcome_all_bind)
      fix a :: unit and t
      assume "deliver_alarm s = Ret a t"
      then have "kills t = kills s" using first by simp
      then show "outcome_all (\<lambda>s'. kills s' = kills s) (wait_loop pid ws t)"
        using Cons.IH [of t] Cons.prems by simp
    qed
  qed (use Cons in auto)
qed

lemma stop_unfold:
  "stop_scirpt_timeout pid s = bindC (wait_loop pid (waits s)) ret
     (s\<lparr>alarm_count := 0, alarm_handler := H_sigalrm, kills := kills s @ [(- pid, SIGTERM)], alarm_armed := True\<rparr>)"
  "handle_bash_stop_child_process_group pid s = bindC (wait_loop pid (waits s)) ret
     (s\<lparr>alarm_handler := H_sigalrm, kills := kills s @ [(- pid, SIGTERM)], alarm_armed := True\<rparr>)"
  by (simp_all add: stop_scirpt_timeout_def handle_bash_stop_child_process_group_def
        signal_alrm_def c_kill_def c_alarm_def)

lemma stop_only_term:
  assumes "W_child \<notin> set (waits s)"
  shows "outcome_all (\<lambda>s'. kills s' = kills s @ [(- pid, SIGTERM)]) (stop_scirpt_timeout pid s)"
    and "outcome_all (\<lambda>s'. kills s' = kills s @ [(- pid, SIGTERM)]) (handle_bash_stop_child_process_group pid s)"
  unfolding stop_unfold
  by (rule outcome_all_bind_ret, rule outcome_all_mono [OF wait_loop_no_child [OF assms]], simp)+

text \<open>When a child is reaped after the alarm has gone off, the group is killed.\<close>

lemma wait_loop_escalates:
  assumes "alarm_armed s" "alarm_handler s = H_sigalrm" "errno s \<noteq> ECHILD" "0 \<le> alarm_count s"
  shows "wait_loop pid [W_alarm, W_child, W_fail e] s =
    Ret () (s\<lparr>alarm_armed := False, alarm_count := alarm_count s + 1,
      kills := kills s @ [(- pid, SIGKILL)], errno := e, waits := []\<rparr>)"
  using assms by (simp add: deliver_alarm_def handle_sigalrm_def c_kill_def Let_def)

section \<open>The flag need_stop_script\<close>

abbreviation stopped :: "sys \<Rightarrow> bool" where
  "stopped s \<equiv> need_stop_script s = 1"

lemma stopped_alarm: "keeps stopped deliver_alarm"
  by (intro keepsI)
     (auto simp: deliver_alarm_def handle_sigalrm_def handle_sigalrm_stop_script_def Let_def
       split: sig_handler.split)

lemma stopped_calls: "keeps stopped (c_send d)" "keeps stopped (send_fmt_ret d)" "keeps stopped (set_errno e)"
  "keeps stopped (signal_alrm h)" "keeps stopped c_alarm" "keeps stopped (c_kill p n)"
proof -
  show "keeps stopped (c_send d)" "keeps stopped (send_fmt_ret d)"
    by (rule keeps_frames [of need_stop_script]; (intro frames_c_send frames_send_fmt_ret)?; simp)+
qed (auto simp: set_errno_def signal_alrm_def c_alarm_def c_kill_def intro!: keeps_modify)

lemma stopped_wait_loop: "keeps stopped (wait_loop pid ws)"
proof (induction ws)
  case Nil
  show ?case by (intro keepsI) simp
next
  case (Cons w ws)
  show ?case
    by (cases w; simp only: wait_loop.simps;
        intro keeps_bind keeps_get keeps_if keeps_modify Cons stopped_alarm stopped_calls; simp)
qed

lemma stopped_stop: "keeps stopped (stop_scirpt_timeout pid)"
  "keeps stopped (handle_bash_stop_child_process_group pid)"
  unfolding handle_bash_stop_child_process_group_def stop_scirpt_timeout_def block.simps
  by (intro keeps_bind keeps_get keeps_modify keeps_ret stopped_calls stopped_wait_loop; simp)+

lemma stopped_bash_loop: "keeps stopped (bash_loop pid es)"
proof (induction pid es rule: bash_loop.induct)
  case (5 pid d es)
  then show ?case
    unfolding bash_loop.simps
    by (intro keeps_if keeps_get keeps_bind keeps_ret stopped_calls stopped_stop) simp_all
qed (simp only: bash_loop.simps; (intro keeps_if keeps_get keeps_bind keeps_ret stopped_calls stopped_alarm);
     simp)+

text \<open>With the flag set nothing of the output is sent.\<close>

lemma deliver_alarm_tx: "frames tx deliver_alarm"
  by (intro framesI)
     (auto simp: deliver_alarm_def handle_sigalrm_def handle_sigalrm_stop_script_def Let_def
       split: sig_handler.split)

definition cut_off :: "string \<Rightarrow> sys \<Rightarrow> bool" where
  "cut_off sent s \<longleftrightarrow> stopped s \<and> tx s = sent \<and> alarm_handler s = H_sigalrm_stop_script"

lemma cut_off_alarm:
  "cut_off sent s \<Longrightarrow> \<exists>t. deliver_alarm s = Ret () t \<and> cut_off sent t \<and> kills t = kills s"
  by (auto simp: deliver_alarm_def cut_off_def handle_sigalrm_stop_script_def Let_def)

lemma cut_off_bash_loop:
  "cut_off sent s \<Longrightarrow> \<exists>n t. bash_loop pid es s = Ret (BX_done n) t \<and> cut_off sent t \<and> kills t = kills s"
proof (induction pid es arbitrary: s rule: bash_loop.induct)
  case (2 pid es)
  obtain t where "deliver_alarm s = Ret () t" "cut_off sent t" "kills t = kills s"
    using cut_off_alarm [OF 2(2)] by blast
  then show ?case using 2(1) [of t] by simp
qed (auto simp: cut_off_def)

lemma tx_wait_loop: "frames tx (wait_loop pid ws)"
proof (induction ws)
  case Nil
  show ?case by (intro framesI) simp
next
  case (Cons w ws)
  have "frames tx (c_kill p n)" for p n by (simp add: c_kill_def frames_modify)
  then show ?case
    by (cases w; simp only: wait_loop.simps;
        intro frames_bind frames_get frames_if frames_modify Cons deliver_alarm_tx; simp)
qed

text \<open>
  \<open>kills\<close> only grows, so a signal sent at the beginning of a stop is among those sent in the end.
\<close>

lemma kills_wait_loop: "keeps (\<lambda>s. x \<in> set (kills s)) (wait_loop pid ws)"
proof (induction ws)
  case Nil
  show ?case by (intro keepsI) simp
next
  case (Cons w ws)
  have "keeps (\<lambda>s. x \<in> set (kills s)) deliver_alarm"
    by (rule keeps_frames [OF deliver_alarm_kills]) simp
  moreover have "keeps (\<lambda>s. x \<in> set (kills s)) (c_kill p n)" for p n
    unfolding c_kill_def by (rule keeps_modify) simp
  ultimately show ?case
    by (cases w; simp only: wait_loop.simps;
        intro keeps_bind keeps_get keeps_if keeps_modify Cons; simp)
qed

lemma stop_sends_term:
  "outcome_all (\<lambda>s'. tx s' = tx s \<and> (- pid, SIGTERM) \<in> set (kills s')) (stop_scirpt_timeout pid s)"
proof -
  let ?t = "s\<lparr>alarm_count := 0, alarm_handler := H_sigalrm, kills := kills s @ [(- pid, SIGTERM)], alarm_armed := True\<rparr>"
  have a: "outcome_all (\<lambda>s'. tx s' = tx s) (wait_loop pid (waits s) ?t)"
    using tx_wait_loop [of pid "waits s", unfolded frames_def, rule_format, of ?t] by simp
  have b: "outcome_all (\<lambda>s'. (- pid, SIGTERM) \<in> set (kills s')) (wait_loop pid (waits s) ?t)"
    by (rule keepsD [OF kills_wait_loop]) simp
  have "outcome_all (\<lambda>s'. tx s' = tx s \<and> (- pid, SIGTERM) \<in> set (kills s')) (wait_loop pid (waits s) ?t)"
    using a b by (cases "wait_loop pid (waits s) ?t") auto
  then show ?thesis unfolding stop_unfold by (rule outcome_all_bind_ret)
qed

text \<open>A script started while the flag is set: no byte of its output, and SIGTERM to its group.\<close>

lemma bash_rest_cut_off:
  assumes "sendq s = []" and "stopped s"
  shows "outcome_all (\<lambda>s'. tx s' = tx s @ CRLF \<and> (- pid, SIGTERM) \<in> set (kills s')) (bash_rest output pid s)"
proof -
  let ?t = "s\<lparr>tx := tx s @ CRLF, alarm_handler := H_sigalrm_stop_script, alarm_armed := True\<rparr>"
  have "cut_off (tx s @ CRLF) ?t" using assms by (simp add: cut_off_def)
  then obtain n t where t: "bash_loop pid output ?t = Ret (BX_done n) t" "cut_off (tx s @ CRLF) t"
    using cut_off_bash_loop [of "tx s @ CRLF" ?t pid "output"] by blast
  have "outcome_all (\<lambda>s'. tx s' = tx t \<and> (- pid, SIGTERM) \<in> set (kills s')) (stop_scirpt_timeout pid t)"
    by (rule stop_sends_term)
  then show ?thesis
    using t assms by (simp add: bash_rest_def send_fmt_ret_def BUFFSIZE_def signal_alrm_def c_alarm_def cut_off_def)
qed

lemma stopped_bash_rest: "keeps stopped (bash_rest output pid)"
proof -
  have "keeps stopped (case x of BX_return \<Rightarrow> ret () | BX_done rt \<Rightarrow> get (\<lambda>s3.
      if rt = -1 \<or> need_stop_script s3 = 1 then stop_scirpt_timeout pid else ret ()))" for x
    by (cases x; simp only: bash_exit.case; intro keeps_get keeps_if keeps_ret stopped_stop)
  then show ?thesis
    unfolding bash_rest_def
    by (intro keeps_bind keeps_get keeps_if stopped_calls stopped_stop stopped_bash_loop)
qed

text \<open>The pipe and the child: two descriptors, of which the parent keeps the read end.\<close>

definition script_started :: "sys \<Rightarrow> sys" where
  "script_started s = (let r = fresh_fd (fds s) in s\<lparr>fds := r # fds s\<rparr>)"

lemma pipe_read_v2_started:
  assumes "pipe_errno E = None" and "fork_res E = Inr pid"
  shows "pipe_read_v2 E command s = Ret (int (fresh_fd (fds s)), pid) (script_started s)"
proof -
  let ?r = "fresh_fd (fds s)"
  have w: "fresh_fd (?r # fds s) \<notin> set (?r # fds s)" by (rule fresh_fd_fresh)
  then show ?thesis
    using assms by (simp add: pipe_read_v2_def add_fd_apply script_started_def Let_def)
qed

lemma script_started_simps [simp]:
  "sendq (script_started s) = sendq s" "tx (script_started s) = tx s" "shm (script_started s) = shm s"
  "sem (script_started s) = sem s" "ready (script_started s) = ready s" "kills (script_started s) = kills s"
  "need_stop_script (script_started s) = need_stop_script s"
  by (simp_all add: script_started_def Let_def ready_def)

context ready_writer
begin

text \<open>The state after the status line has been sent and counted.\<close>

definition bash_counted :: "sys \<Rightarrow> sys" where
  "bash_counted s = (script_started s)\<lparr>tx := tx s @ status_line 200 ''Ok'',
     shm := counted 200 (shm s), sem := sem s - cost\<rparr>"

lemma handle_bash_started:
  assumes "ready s" "pipe_errno E = None" "fork_res E = Inr pid"
  shows "handle_bash wc E output command s = bash_rest output pid (bash_counted s)"
proof -
  let ?t = "(script_started s)\<lparr>tx := tx s @ status_line 200 ''Ok''\<rparr>"
  have line: "length (status_line 200 ''Ok'') < BUFFSIZE"
    using length_status_line [of 200 "''Ok''"] by (simp add: BUFFSIZE_def)
  have "ready ?t" using assms(1) by (simp add: ready_def script_started_def Let_def)
  then have "wc 200 ?t = Ret () (bash_counted s)"
    by (simp add: wc_ready bash_counted_def)
  moreover have "sendq (script_started s) = []" using assms(1) by (simp add: ready_def)
  ultimately show ?thesis
    unfolding handle_bash_unfold status_line_def [symmetric]
    using line by (simp add: pipe_read_v2_started [OF assms(2,3)] send_fmt_ret_def)
qed

end

text \<open>A script of \<open>ms_handle_bash\<close> that is started while the flag is set.\<close>

lemma handle_bash_stopped:
  assumes "ready s" and "pipe_errno E = None" and "fork_res E = Inr pid" and "stopped s"
  shows "outcome_all (\<lambda>s'. tx s' = tx s @ status_line 200 ''Ok'' @ CRLF \<and> (- pid, SIGTERM) \<in> set (kills s') \<and>
    stopped s') (ms_handle_bash E es command s)"
proof -
  let ?t = "ms.bash_counted s"
  have t: "sendq ?t = []" "stopped ?t" "tx ?t = tx s @ status_line 200 ''Ok''"
    using assms by (simp_all add: ms.bash_counted_def ready_def)
  have "outcome_all stopped (bash_rest es pid ?t)"
    by (rule keepsD [OF stopped_bash_rest t(2)])
  moreover have "outcome_all (\<lambda>s'. tx s' = tx ?t @ CRLF \<and> (- pid, SIGTERM) \<in> set (kills s')) (bash_rest es pid ?t)"
    by (rule bash_rest_cut_off [OF t(1,2)])
  ultimately have "outcome_all (\<lambda>s'. tx s' = tx s @ status_line 200 ''Ok'' @ CRLF \<and>
      (- pid, SIGTERM) \<in> set (kills s') \<and> stopped s') (bash_rest es pid ?t)"
    using t(3) by (cases "bash_rest es pid ?t") auto
  then show ?thesis
    by (simp add: ms_handle_bash_def ms.handle_bash_started [OF assms(1-3)])
qed

section \<open>A script that is left to finish\<close>

fun script_data :: "bash_ev list \<Rightarrow> string" where
  "script_data [] = []"
| "script_data (B_read (Rd d) # es) = (if d = [] then [] else d @ script_data es)"
| "script_data (_ # es) = script_data es"

text \<open>No alarm goes off and no read fails but by an interruption.\<close>

fun undisturbed :: "bash_ev list \<Rightarrow> bool" where
  "undisturbed [] = True"
| "undisturbed (B_alarm # es) = False"
| "undisturbed (B_read (Rd_err e) # es) = False"
| "undisturbed (B_read _ # es) = undisturbed es"

lemma bash_loop_undisturbed:
  assumes "undisturbed es" and "sendq s = []" and "need_stop_script s = 0"
  shows "\<exists>e. bash_loop pid es s = Ret (BX_done 0) (s\<lparr>tx := tx s @ script_data es, errno := e\<rparr>)"
  using assms
proof (induction pid es arbitrary: s rule: bash_loop.induct)
  case (1 pid)
  have "s = s\<lparr>tx := tx s @ [], errno := errno s\<rparr>" by simp
  then show ?case by (metis bash_loop.simps(1) ret_apply script_data.simps(1))
next
  case (3 pid es)
  then show ?case using 3(1) [of "s\<lparr>errno := EINTR\<rparr>" "s\<lparr>errno := EINTR\<rparr>"] by simp
next
  case (5 pid d es)
  show ?case
  proof (cases "d = []")
    case True
    have "s = s\<lparr>tx := tx s, errno := errno s\<rparr>" by simp
    then show ?thesis using True by (metis append_Nil2 bash_loop.simps(5) ret_apply script_data.simps(2))
  next
    case False
    let ?t = "s\<lparr>tx := tx s @ d\<rparr>"
    have "\<exists>e. bash_loop pid es ?t = Ret (BX_done 0) (?t\<lparr>tx := tx ?t @ script_data es, errno := e\<rparr>)"
      by (rule 5(1) [OF False, of s "int (length d)" ?t]) (use 5(2-) in auto)
    then show ?thesis using False 5(2-) by simp
  qed
qed simp_all

text \<open>The alarm of this script is still pending when its request is done.\<close>

lemma bash_rest_undisturbed:
  assumes "undisturbed es" and "sendq s = []" and "need_stop_script s = 0"
  shows "\<exists>e. bash_rest es pid s = Ret () (s\<lparr>tx := tx s @ CRLF @ script_data es, errno := e,
    alarm_handler := H_sigalrm_stop_script, alarm_armed := True\<rparr>)"
proof -
  let ?t = "s\<lparr>tx := tx s @ CRLF, alarm_handler := H_sigalrm_stop_script, alarm_armed := True\<rparr>"
  obtain e where "bash_loop pid es ?t = Ret (BX_done 0) (?t\<lparr>tx := tx ?t @ script_data es, errno := e\<rparr>)"
    using bash_loop_undisturbed [OF assms(1), of ?t pid] assms(2,3) by auto
  then show ?thesis
    using assms by (intro exI [of _ e])
      (simp add: bash_rest_def send_fmt_ret_def BUFFSIZE_def signal_alrm_def c_alarm_def)
qed

section \<open>A broken connection\<close>

text \<open>While SIGPIPE has its default action no \<open>send\<close> returns -1 with \<open>EPIPE\<close>.\<close>

lemma send_never_EPIPE:
  assumes "\<not> sigpipe_ign s" and "c_send d s = Ret r s'"
  shows "\<not> (r = -1 \<and> errno s' = EPIPE)"
  using assms by (auto simp: c_send_def split: list.splits send_ev.splits if_splits)

lemma sigpipe_frames: "frames sigpipe_ign (c_send d)" "frames sigpipe_ign deliver_alarm"
  "frames sigpipe_ign (set_errno e)"
  unfolding set_errno_def
  by (intro frames_c_send frames_modify framesI;
      auto simp: deliver_alarm_def handle_sigalrm_def handle_sigalrm_stop_script_def Let_def
        split: sig_handler.split)+

lemma bash_loop_no_return:
  assumes "\<not> sigpipe_ign s" and "bash_loop pid es s = Ret x s'"
  shows "x \<noteq> BX_return"
  using assms
proof (induction pid es arbitrary: s rule: bash_loop.induct)
  case (2 pid es)
  then obtain t where t: "deliver_alarm s = Ret () t" "bash_loop pid es t = Ret x s'"
    by (auto simp: bindC_Ret_iff)
  then have "\<not> sigpipe_ign t" using 2(2) frames_Ret [OF sigpipe_frames(2) t(1)] by simp
  then show ?case using 2(1) t(2) by simp
next
  case (5 pid d es)
  show ?case
  proof (cases "d = [] \<or> need_stop_script s \<noteq> 0")
    case True
    then show ?thesis using 5(3) by (auto split: if_splits)
  next
    case False
    then obtain r t where t: "c_send d s = Ret r t"
      "(if r = -1 \<and> errno t = EPIPE
        then bindC (handle_bash_stop_child_process_group pid) (\<lambda>_. ret BX_return)
        else bash_loop pid es) t = Ret x s'"
      using 5(3) by (auto simp: bindC_Ret_iff)
    have nE: "\<not> (r = -1 \<and> errno t = EPIPE)" by (rule send_never_EPIPE [OF 5(2) t(1)])
    have "\<not> sigpipe_ign t" using 5(2) frames_Ret [OF sigpipe_frames(1) t(1)] by simp
    moreover have "bash_loop pid es t = Ret x s'" using t(2) nE by (simp only: if_False)
    ultimately show ?thesis using 5(1) [of s r t t] False nE by blast
  qed
next
  case (3 pid es)
  then show ?case using 3(1) [of s "s\<lparr>errno := EINTR\<rparr>"] by (auto split: if_splits)
next
  case (4 pid e es)
  then show ?case using 4(1) [of s "s\<lparr>errno := e\<rparr>"] by (auto split: if_splits)
qed auto

end
