(* ===== verification/Process_Handling.thy ===== *)
theory Process_Handling
  imports Scripts
begin

text \<open>
  Whole connections of the process servers: \<open>do_call\<close> of \<open>multi_server.c\<close> and of the pre-forked
  pools, against the answer that \<open>Request_Handling\<close> defines from the request alone.
\<close>

lemma process_routes_answered:
  assumes "request_ok m u v" "u \<noteq> []" "ready s" "env_short E" "\<forall>c. target_of u \<noteq> T_script c"
    and "method_spec m = GET" "major (version_spec v) \<noteq> -1"
  shows "answered 0 (request_answer E (requests (shm s)) m u v) (parsed m u v rest s)
      (pf_route E out (parsed m u v rest s))"
    and "answered 0 (request_answer E (requests (shm s)) m u v) (parsed m u v rest s)
      (ms_route E out (parsed m u v rest s))"
proof -
  let ?P = "parsed m u v rest s"
  note P = ready_parsed [OF assms(3), of m u v rest]
  have len: "length u < URI_LIMIT" using assms(1) by (simp add: request_ok_def)
  have "answered 0 (request_answer E (requests (shm s)) m u v) ?P (pf_route E out ?P) \<and>
    answered 0 (request_answer E (requests (shm s)) m u v) ?P (ms_route E out ?P)"
  proof (cases "target_of u")
    case T_statistics
    then show ?thesis
      using assms(6,7) parsed_target(1) [OF assms(1,2)]
        ms.response_answered [OF P statistics_message_fits]
        read_requests_ready [OF P] assms(3)
      by (simp add: pf_route_def ms_route_def ms_response_def request_answer_def ready_def)
  next
    case (T_path p)
    then show ?thesis
      using assms(6,7) parsed_target [OF assms(1,2)]
        ms.route_file_answered [OF P assms(4) parsed_uri [OF assms(1)] len assms(2)]
      by (simp add: pf_route_def ms_route_def ms_linked request_answer_def)
  qed (use assms(5) in simp)
  then show "answered 0 (request_answer E (requests (shm s)) m u v) ?P (pf_route E out ?P)"
    and "answered 0 (request_answer E (requests (shm s)) m u v) ?P (ms_route E out ?P)"
    by blast+
qed

text \<open>What the client sends, and that the answer can be put together from it.\<close>

definition good_request :: "string \<Rightarrow> string \<Rightarrow> string \<Rightarrow> string \<Rightarrow> sys \<Rightarrow> bool" where
  "good_request m u v rest s \<longleftrightarrow> rx s = render_request m u v @ rest \<and> request_ok m u v \<and>
     3 \<le> length m \<and> length v < BUFFSIZE \<and> u \<noteq> []"

lemma serve_process_answered:
  assumes "good_request m u v rest s" "ready s" "env_short E" "\<forall>c. target_of u \<noteq> T_script c"
  shows "answered 0 (request_answer E (requests (shm s)) m u v) s (serve_request ms_read_request_line ms_response (pf_route E out) s)"
    and "answered 0 (request_answer E (requests (shm s)) m u v) s (serve_request ms_read_request_line ms_response (ms_route E out) s)"
  unfolding ms_program
  by (rule ms.serve_request_answered; use assms in \<open>auto simp: good_request_def intro: process_routes_answered\<close>)+

lemma serve_thread_answered:
  assumes "good_request m u v rest s" "ready s" "env_short E"
  shows "answered 1 (request_answer E (requests (shm s)) m u v) s
    (serve_request thr_read_request_line thr_response (thr_route E) s)"
  unfolding thr_read_request_line_def thr_response_def
  by (rule thr.serve_request_answered)
     (use assms in \<open>auto simp: good_request_def intro: thr_route_answered simp del: One_nat_def\<close>)

lemma good_request_new_buffers: "good_request m u v rest (new_buffers s) = good_request m u v rest s"
  by (simp add: good_request_def)

end
