(* ===== verification/Reply_Codes.thy ===== *)
theory Reply_Codes
  imports Process_Handling
begin

text \<open>
  The code a process counts for a connection is the one in the status line it sends: on a connection that
  takes everything it is sent, the reply of a handler begins with the status line of the counted code.
\<close>

section \<open>Commands that send and count\<close>

text \<open>Nothing is sent and nothing counted.\<close>

definition mute :: "('a, sys) cmd \<Rightarrow> bool" where
  "mute c \<longleftrightarrow> frames (\<lambda>s. (shm s, tx s, sendq s)) c"

text \<open>Bytes may be sent, and at most one code is counted, one of \<open>K\<close>.\<close>

definition sends :: "int set \<Rightarrow> ('a, sys) cmd \<Rightarrow> bool" where
  "sends K c \<longleftrightarrow> (\<forall>s a s'. c s = Ret a s' \<longrightarrow> sendq s = [] \<longrightarrow> sendq s' = [] \<and> (\<exists>out. tx s' = tx s @ out) \<and>
     (shm s' = shm s \<or> (\<exists>code \<in> K. count_code code (shm s) = Some (shm s'))))"

text \<open>What is counted is the code of the status line with which the bytes sent begin.\<close>

definition labelled :: "('a, sys) cmd \<Rightarrow> bool" where
  "labelled c \<longleftrightarrow> (\<forall>s a s'. c s = Ret a s' \<longrightarrow> sendq s = [] \<longrightarrow> sendq s' = [] \<and> (\<exists>out. tx s' = tx s @ out \<and>
     (shm s' = shm s \<or> (\<exists>code r rest. count_code code (shm s) = Some (shm s') \<and> out = status_line code r @ rest))))"

lemma mute_Ret: "mute c \<Longrightarrow> c s = Ret a s' \<Longrightarrow> shm s' = shm s \<and> tx s' = tx s \<and> sendq s' = sendq s"
  unfolding mute_def by (drule frames_Ret) auto

lemma sendsD:
  assumes "sends K c" "c s = Ret a s'" "sendq s = []"
  obtains out where "sendq s' = []" "tx s' = tx s @ out"
    "shm s' = shm s \<or> (\<exists>code \<in> K. count_code code (shm s) = Some (shm s'))"
  using assms unfolding sends_def by blast

lemma labelledD:
  assumes "labelled c" "c s = Ret a s'" "sendq s = []"
  obtains out where "sendq s' = []" "tx s' = tx s @ out"
    "shm s' = shm s \<or> (\<exists>code r rest. count_code code (shm s) = Some (shm s') \<and> out = status_line code r @ rest)"
  using assms unfolding labelled_def by blast

lemma sends_mute: "mute c \<Longrightarrow> sends K c"
  unfolding sends_def by (metis append_Nil2 mute_Ret)

lemma labelled_sends: "sends {} c \<Longrightarrow> labelled c"
  unfolding labelled_def sends_def by blast

lemma sends_before:
  assumes "sends {} m" and "\<And>a. sends K (k a)"
  shows "sends K (bindC m k)"
  unfolding sends_def
proof (intro allI impI)
  fix s b s'
  assume "bindC m k s = Ret b s'" and s: "sendq s = []"
  then obtain a t where mt: "m s = Ret a t" and kt: "k a t = Ret b s'" by (auto simp: bindC_Ret_iff)
  obtain out where t: "sendq t = []" "tx t = tx s @ out" "shm t = shm s" by (rule sendsD [OF assms(1) mt s]) auto
  show "sendq s' = [] \<and> (\<exists>out. tx s' = tx s @ out) \<and>
      (shm s' = shm s \<or> (\<exists>code \<in> K. count_code code (shm s) = Some (shm s')))"
    by (rule sendsD [OF assms(2) kt t(1)]) (use t in auto)
qed

lemma sends_after:
  assumes "sends K m" and "\<And>a. sends {} (k a)"
  shows "sends K (bindC m k)"
  unfolding sends_def
proof (intro allI impI)
  fix s b s'
  assume "bindC m k s = Ret b s'" and s: "sendq s = []"
  then obtain a t where mt: "m s = Ret a t" and kt: "k a t = Ret b s'" by (auto simp: bindC_Ret_iff)
  obtain out where t: "sendq t = []" "tx t = tx s @ out"
    "shm t = shm s \<or> (\<exists>code \<in> K. count_code code (shm s) = Some (shm t))" by (rule sendsD [OF assms(1) mt s])
  show "sendq s' = [] \<and> (\<exists>out. tx s' = tx s @ out) \<and>
      (shm s' = shm s \<or> (\<exists>code \<in> K. count_code code (shm s) = Some (shm s')))"
    by (rule sendsD [OF assms(2) kt t(1)]) (use t in auto)
qed

lemma sends_get: "(\<And>s. sends K (k s)) \<Longrightarrow> sends K (get k)"
  by (auto simp: sends_def)

lemma sends_if: "(b \<Longrightarrow> sends K c) \<Longrightarrow> (\<not> b \<Longrightarrow> sends K d) \<Longrightarrow> sends K (if b then c else d)"
  by simp

lemma sends_ret: "sends K (ret a)" and sends_fault: "sends K (faulting e)"
  by (simp_all add: sends_def)

lemma sends_block: "(\<And>c. c \<in> set cs \<Longrightarrow> sends {} c) \<Longrightarrow> sends {} (block cs)"
  by (induction cs) (auto intro: sends_before sends_ret)

lemma sends_c_send: "sends K (c_send d)"
  by (auto simp: sends_def)

lemma sends_fmt: "sends K (send_fmt_ret d)" "sends K (send_fmt d)"
proof -
  show r: "sends K (send_fmt_ret d)" for K
    unfolding send_fmt_ret_def by (intro sends_if sends_c_send sends_fault)
  show "sends K (send_fmt d)"
    unfolding send_fmt_def ignore_def by (intro sends_before r sends_ret)
qed

lemma labelled_then:
  assumes "mute m" and "\<And>a. labelled (k a)"
  shows "labelled (bindC m k)"
  unfolding labelled_def
proof (intro allI impI)
  fix s b s'
  assume "bindC m k s = Ret b s'" and s: "sendq s = []"
  then obtain a t where mt: "m s = Ret a t" and kt: "k a t = Ret b s'" by (auto simp: bindC_Ret_iff)
  note t = mute_Ret [OF assms(1) mt]
  have "sendq t = []" using t s by simp
  from labelledD [OF assms(2) kt this] t
  show "sendq s' = [] \<and> (\<exists>out. tx s' = tx s @ out \<and> (shm s' = shm s \<or>
      (\<exists>code r rest. count_code code (shm s) = Some (shm s') \<and> out = status_line code r @ rest)))"
    by metis
qed

lemma labelled_get: "(\<And>s. labelled (k s)) \<Longrightarrow> labelled (get k)"
  by (auto simp: labelled_def)

lemma labelled_if: "labelled c \<Longrightarrow> labelled d \<Longrightarrow> labelled (if b then c else d)"
  by simp

lemma labelled_after:
  assumes "labelled m" and "\<And>a. sends {} (k a)"
  shows "labelled (bindC m k)"
  unfolding labelled_def
proof (intro allI impI)
  fix s b s'
  assume "bindC m k s = Ret b s'" and s: "sendq s = []"
  then obtain a t where mt: "m s = Ret a t" and kt: "k a t = Ret b s'" by (auto simp: bindC_Ret_iff)
  obtain out where t: "sendq t = []" "tx t = tx s @ out" "shm t = shm s \<or>
      (\<exists>code r rest. count_code code (shm s) = Some (shm t) \<and> out = status_line code r @ rest)"
    by (rule labelledD [OF assms(1) mt s])
  obtain out' where k: "sendq s' = []" "tx s' = tx t @ out'" "shm s' = shm t" by (rule sendsD [OF assms(2) kt t(1)]) auto
  show "sendq s' = [] \<and> (\<exists>out. tx s' = tx s @ out \<and> (shm s' = shm s \<or>
      (\<exists>code r rest. count_code code (shm s) = Some (shm s') \<and> out = status_line code r @ rest)))"
  proof (intro conjI k(1) exI [of _ "out @ out'"])
    show "tx s' = tx s @ out @ out'" using t(2) k(2) by simp
    show "shm s' = shm s \<or> (\<exists>code r rest. count_code code (shm s) = Some (shm s') \<and> out @ out' = status_line code r @ rest)"
      using t(3) by (metis append.assoc k(3))
  qed
qed

text \<open>The status line first, then its code.\<close>

lemma labelled_started:
  assumes "sends {code} c" "c (s\<lparr>tx := tx s @ status_line code r\<rparr>) = Ret b s'" "sendq s = []"
  shows "sendq s' = [] \<and> (\<exists>out. tx s' = tx s @ out \<and> (shm s' = shm s \<or>
    (\<exists>code r rest. count_code code (shm s) = Some (shm s') \<and> out = status_line code r @ rest)))"
  by (rule sendsD [OF assms(1,2)]) (use assms(3) in auto)

lemma labelled_status_ret:
  assumes "length (status_line code r) < BUFFSIZE" and "\<And>a. sends {code} (k a)"
  shows "labelled (bindC (send_fmt_ret (status_line code r)) k)"
  unfolding labelled_def using labelled_started [OF assms(2)] assms(1) by (auto simp: bindC_Ret_iff send_fmt_ret_def)

lemma labelled_status:
  assumes "length (status_line code r) < BUFFSIZE" and "\<And>a. sends {code} (k a)"
  shows "labelled (bindC (send_fmt (status_line code r)) k)"
  unfolding labelled_def using labelled_started [OF assms(2)] assms(1) by (auto simp: bindC_Ret_iff)

section \<open>The functions of a server\<close>

lemma mute_calls: "mute (set_errno e)" "mute (c_close fd)" "mute add_fd" "mute sem_wait" "mute sem_post" "mute (ret a)"
  "mute deliver_alarm" "mute (signal_alrm h)" "mute c_alarm" "mute (c_kill pid n)"
  unfolding mute_def set_errno_def c_close_def signal_alrm_def c_alarm_def c_kill_def
  by (intro frames_modify frames_add_fd frames_sem_wait frames_sem_post frames_ret framesI;
      auto simp: deliver_alarm_def handle_sigalrm_def handle_sigalrm_stop_script_def Let_def split: sig_handler.split)+

lemma mute_intros:
  "mute m \<Longrightarrow> (\<And>a. mute (k a)) \<Longrightarrow> mute (bindC m k)" "(\<And>s. mute (k' s)) \<Longrightarrow> mute (get k')"
  "mute c \<Longrightarrow> mute d \<Longrightarrow> mute (if b then c else d)" "mute (faulting e)"
  "(\<And>s. shm (f s) = shm s \<and> tx (f s) = tx s \<and> sendq (f s) = sendq s) \<Longrightarrow> mute (modify f)"
  unfolding mute_def by (intro frames_bind frames_get frames_if frames_faulting frames_modify; simp)+

lemma mute_read_requests: "mute read_requests" "mute read_requests_locked"
proof -
  show r: "mute read_requests"
    unfolding read_requests_def by (intro mute_intros) (auto intro: mute_calls mute_intros split: shm_ptr.split)
  show "mute read_requests_locked"
    unfolding read_requests_locked_def by (intro mute_intros mute_calls r)
qed

lemma mute_wait_loop: "mute (wait_loop pid ws)"
proof (induction ws)
  case Nil
  show ?case by (simp add: mute_def frames_def)
next
  case (Cons w ws)
  show ?case
    by (cases w; simp only: wait_loop.simps; intro mute_intros Cons mute_calls; simp)
qed

lemma mute_stop: "mute (handle_bash_stop_child_process_group pid)" "mute (stop_scirpt_timeout pid)"
  unfolding handle_bash_stop_child_process_group_def stop_scirpt_timeout_def block.simps
  by (intro mute_intros mute_calls mute_wait_loop; simp)+

lemma mute_pipe_read_v2: "mute (pipe_read_v2 E command)"
  unfolding pipe_read_v2_def
  by (cases "pipe_errno E"; cases "fork_res E"; simp only: option.case sum.case; intro mute_intros mute_calls)

lemma sends_bash_loop: "sends {} (bash_loop pid es)"
proof (induction pid es rule: bash_loop.induct)
  case (2 pid es)
  show ?case unfolding bash_loop.simps by (rule sends_before [OF sends_mute [OF mute_calls(7)] 2])
next
  case (3 pid es)
  then show ?case
    unfolding bash_loop.simps by (intro sends_before [OF sends_mute [OF mute_calls(1)]] sends_get sends_if sends_ret) simp_all
next
  case (4 pid e es)
  then show ?case
    unfolding bash_loop.simps by (intro sends_before [OF sends_mute [OF mute_calls(1)]] sends_get sends_if sends_ret) simp_all
next
  case (5 pid d es)
  then show ?case
    unfolding bash_loop.simps
    by (intro sends_if sends_get sends_before sends_ret sends_c_send sends_mute [OF mute_stop(1)]) simp_all
qed (simp only: bash_loop.simps sends_ret)

lemma sends_bash_rest: "sends {} (bash_rest output pid)"
proof -
  have "sends {} (case x of BX_return \<Rightarrow> ret () | BX_done rt \<Rightarrow> get (\<lambda>s3.
      if rt = -1 \<or> need_stop_script s3 = 1 then stop_scirpt_timeout pid else ret ()))" for x
    by (cases x; simp only: bash_exit.case; intro sends_get sends_if sends_ret sends_mute [OF mute_stop(2)])
  then show ?thesis
    unfolding bash_rest_def
    by (intro sends_get sends_if sends_before sends_fmt sends_mute [OF mute_stop(1)] sends_mute [OF mute_calls(8)]
         sends_mute [OF mute_calls(9)] sends_bash_loop)
qed

lemma sends_copy_loop: "sends {} (copy_loop es)"
proof (induction es rule: copy_loop.induct)
  case (2 es)
  show ?case unfolding copy_loop.simps by (rule sends_before [OF sends_mute [OF mute_calls(1)] 2])
next
  case (4 d es)
  then show ?case unfolding copy_loop.simps by (intro sends_if sends_ret sends_before sends_c_send) simp_all
qed (unfold copy_loop.simps, (rule sends_ret sends_mute [OF mute_calls(1)])+)

context counting_writer
begin

lemma sends_wc: "sends {code} (wc code)"
  unfolding sends_def
proof (intro allI impI)
  fix s u s'
  assume run: "wc code s = Ret u s'" and "sendq s = []"
  have "(tx s', sendq s') = (tx s, sendq s)"
    by (rule frames_Ret [OF wc_frames run]) (simp add: io_view_def)
  then show "sendq s' = [] \<and> (\<exists>out. tx s' = tx s @ out) \<and>
      (shm s' = shm s \<or> (\<exists>c \<in> {code}. count_code c (shm s) = Some (shm s')))"
    using wc_counts [OF run] \<open>sendq s = []\<close> by simp
qed

lemma labelled_response:
  assumes "0 \<le> code" "code < 1000" "length reason < 8000"
  shows "labelled (response wc code reason msg)"
proof -
  have "length (status_line code reason) < BUFFSIZE"
    using length_status_line [OF assms(1,2), of reason] assms(3) by (simp add: BUFFSIZE_def)
  then show ?thesis
    unfolding response_def status_line_def [symmetric] block.simps
    by (rule labelled_status)
       (intro sends_before sends_fmt sends_after [OF sends_wc] sends_ret)
qed

lemma labelled_failed:
  assumes "0 \<le> code" "code < 1000" "length reason < 8000"
  shows "labelled (block [set_errno e, response wc code reason msg])"
  unfolding block.simps
  by (rule labelled_then [OF mute_calls(1)], rule labelled_after [OF labelled_response [OF assms] sends_ret])

lemma length_status_ok: "length (status_line 200 ''Ok'') < BUFFSIZE"
  using length_status_line [of 200 "''Ok''"] by (simp add: BUFFSIZE_def)

lemma labelled_req_parser: "labelled (req_parser wc E)"
proof -
  have copy: "labelled (bindC add_fd (\<lambda>fd. block [send_fmt (status_line 200 ''Ok''), wc 200, send_fmt CRLF, copy_loop es]))" for es
    unfolding block.simps
    by (intro labelled_then mute_calls labelled_status length_status_ok sends_after [OF sends_wc] sends_before sends_fmt
        sends_copy_loop sends_ret)
  have q: "mute (modify (\<lambda>s. s\<lparr>req_buf := q\<rparr>))" for q by (rule mute_intros) simp
  show ?thesis
    unfolding req_parser_def Let_def status_line_def [symmetric]
    by (intro labelled_get)
       (auto intro!: labelled_then [OF q] labelled_failed labelled_response copy
         simp del: block.simps split: prod.split option.split sum.split)
qed

lemma labelled_ls_version_two: "labelled (ls_version_two wc E path)"
proof (cases "open_dir E path")
  case (Inl e)
  then show ?thesis
    by (simp add: ls_version_two_def labelled_failed del: block.simps)
next
  case (Inr entries)
  have rest: "sends {} (block (map (\<lambda>d. send_fmt (d @ [LF])) entries @ [send_fmt CRLF, c_close fd]))" for fd
    by (rule sends_block) (auto intro: sends_fmt sends_mute mute_calls)
  have main: "labelled (block ([set_errno 0, send_fmt (status_line 200 ''Ok''), wc 200, send_fmt h, send_fmt CRLF] @
      map (\<lambda>d. send_fmt (d @ [LF])) entries @ [send_fmt CRLF, c_close fd]))" for h fd
    unfolding append.simps block.simps
    by (rule labelled_then [OF mute_calls(1)], intro labelled_status [OF length_status_ok] sends_after [OF sends_wc])
       (intro sends_before [OF sends_fmt(2)] rest)
  show ?thesis
    unfolding ls_version_two_def Inr status_line_def [symmetric] sum.case by (rule labelled_then [OF mute_calls(3) main])
qed

lemma labelled_route_file: "labelled (route_file (ls_version_two wc) (req_parser wc) E)"
proof -
  have "mute (is_dir E path)" for path
    unfolding is_dir_def by (cases "stat_isdir E path") (auto intro: mute_intros mute_calls)
  then show ?thesis
    unfolding route_file_def Let_def
    by (intro labelled_get labelled_then labelled_if labelled_req_parser labelled_ls_version_two)
qed

lemma labelled_handle_bash: "labelled (handle_bash wc E output command)"
proof -
  have "labelled (if fd = -1 then response wc 500 ''Ok'' (Some ''command running error'')
       else bindC (send_fmt_ret (status_line 200 ''Ok'')) (\<lambda>r1. get (\<lambda>s1. if r1 = -1 \<and> errno s1 = EPIPE
         then handle_bash_stop_child_process_group pid
         else bindC (wc 200) (\<lambda>_. bash_rest output pid))))" for fd pid
    by (intro labelled_if labelled_response labelled_status_ret length_status_ok sends_get sends_if
         sends_mute [OF mute_stop(1)] sends_after [OF sends_wc] sends_bash_rest sends_ret) simp_all
  then show ?thesis
    unfolding handle_bash_unfold status_line_def [symmetric]
    by (intro labelled_then mute_pipe_read_v2) (simp only: split_beta)
qed

lemma labelled_serve_request:
  assumes "labelled route"
  shows "labelled (serve_request (read_request_line (response wc)) (response wc) route)"
  unfolding labelled_def
proof (intro allI impI)
  fix s u s'
  assume run: "serve_request (read_request_line (response wc)) (response wc) route s = Ret u s'" and s: "sendq s = []"
  let ?G = "\<lambda>t t'. sendq t' = [] \<and> (\<exists>out. tx t' = tx t @ out \<and> (shm t' = shm t \<or>
    (\<exists>code r rest. count_code code (shm t) = Some (shm t') \<and> out = status_line code r @ rest)))"
  have G: "?G t s'" if "labelled c" "c t = Ret v s'" "sendq t = []" for c :: "('x, sys) cmd" and t v
    using that unfolding labelled_def by blast
  have l: "labelled (response wc 400 ''Bad request'' None)" "labelled (response wc 405 ''Method Not Allowed'' None)"
    "labelled (response wc 505 ''HTTP Version Not Supported'' None)" by (rule labelled_response; simp)+
  obtain e r rest where rl: "rl_loop (rx s) (rl_start (req_buf s) (recv_buffer s)) = (e, r, rest)"
    by (metis surj_pair)
  let ?t = "s\<lparr>rx := rest, req_buf := rd_req r, recv_buffer := rd_buf r\<rparr>"
  have "?G ?t s'"
  proof (cases e)
    case RL_ok
    then consider "response wc 405 ''Method Not Allowed'' None ?t = Ret u s'"
      | "response wc 505 ''HTTP Version Not Supported'' None ?t = Ret u s'" | "route ?t = Ret u s'"
      using run rl by (auto simp: serve_request_def read_request_line_def IS_ERROR_def split: if_splits)
    then show ?thesis
    proof cases
      case 1
      show ?thesis by (rule G [OF l(2) 1]) (simp add: s)
    next
      case 2
      show ?thesis by (rule G [OF l(3) 2]) (simp add: s)
    next
      case 3
      show ?thesis by (rule G [OF assms 3]) (simp add: s)
    qed
  next
    case RL_error
    then obtain v where "response wc 400 ''Bad request'' None ?t = Ret v s'"
      using run rl by (auto simp: serve_request_def read_request_line_def bindC_Ret_iff split: if_splits)
    then show ?thesis by (rule G [OF l(1)]) (simp add: s)
  next
    case RL_overflow
    then show ?thesis using run rl by (simp add: serve_request_def read_request_line_def)
  qed
  then show "?G s s'" by simp
qed

end

section \<open>The process servers\<close>

lemma labelled_routes: "labelled (pf_route E output)" "labelled (ms_route E output)"
  unfolding pf_route_def ms_route_def Let_def ms_program
  by (intro labelled_get labelled_if labelled_then mute_read_requests ms.labelled_response ms.labelled_handle_bash
      ms.labelled_route_file; simp)+

lemma labelled_serve: "labelled (serve_request ms_read_request_line ms_response (pf_route E output))"
  "labelled (serve_request ms_read_request_line ms_response (ms_route E output))"
  unfolding ms_program by (intro ms.labelled_serve_request labelled_routes)+

end
