(* ===== verification/Servers.thy ===== *)
theory Servers
  imports Handlers
begin

text \<open>
  The programs around the request handlers: opening the listening socket, the accept loops of
  \<open>server\<close>, the shared memory set-up of \<open>main\<close>, the SIGUSR1 reporter and the exit handlers, file
  by file. A program is run by a list of events (what \<open>accept\<close>, \<open>fork\<close> and \<open>select\<close> return); with
  no event left it waits.
\<close>

section \<open>Set-up calls\<close>

definition EBADF :: int where "EBADF = 9"

text \<open>The descriptor a call works on. A call on a negative descriptor fails, whatever \<open>fails\<close> says.\<close>

fun call_fd :: "sys_call \<Rightarrow> int" where
  "call_fd (C_setsockopt fd _) = fd"
| "call_fd (C_bind fd _) = fd"
| "call_fd (C_listen fd _) = fd"
| "call_fd _ = 0"

definition syscall :: "env \<Rightarrow> sys_call \<Rightarrow> (bool, sys) cmd" where
  "syscall E c = (\<lambda>s. let s' = s\<lparr>calls := calls s @ [c]\<rparr> in
     if call_fd c < 0 then Ret False (s'\<lparr>errno := EBADF\<rparr>)
     else (case fails E c of
         Some e \<Rightarrow> Ret False (s'\<lparr>errno := e\<rparr>)
       | None \<Rightarrow> Ret True s'))"

text \<open>\<open>err_sys\<close> prints a message and calls \<open>exit(-1)\<close>.\<close>

definition err_sys :: "('a, sys) cmd" where
  "err_sys = (\<lambda>s. Exited (-1) s)"

definition check :: "env \<Rightarrow> sys_call \<Rightarrow> (unit, sys) cmd" where
  "check E c = bindC (syscall E c) (\<lambda>done. if done then ret () else err_sys)"

definition create_socket :: "env \<Rightarrow> (int, sys) cmd" where
  "create_socket E = bindC (syscall E C_socket) (\<lambda>done.
     if done then bindC add_fd (\<lambda>fd. ret (int fd)) else ret (-1))"

definition bind_listen :: "env \<Rightarrow> int \<Rightarrow> sockopt \<Rightarrow> 16 word \<Rightarrow> int \<Rightarrow> (unit, sys) cmd" where
  "bind_listen E fd opt port backlog = block
     [check E (C_setsockopt fd opt), check E (C_bind fd port), check E (C_listen fd backlog)]"

definition open_listener :: "env \<Rightarrow> sockopt \<Rightarrow> 16 word \<Rightarrow> int \<Rightarrow> (int, sys) cmd" where
  "open_listener E opt port backlog =
     bindC (create_socket E) (\<lambda>fd.
       if fd = -1 then err_sys
       else bindC (bind_listen E fd opt port backlog) (\<lambda>_. ret fd))"

definition log_call :: "sys_call \<Rightarrow> (unit, sys) cmd" where
  "log_call c = modify (\<lambda>s. s\<lparr>calls := calls s @ [c]\<rparr>)"

text \<open>\<open>fork\<close>: in the parent (with the child's pid), in the child, or failed.\<close>

datatype fork_ev = F_parent int | F_child | F_fail int

section \<open>multi_server.c\<close>

text \<open>
  \<open>server\<close>: the parent closes its copy of the connection and accepts the next one; the child
  closes the listening socket, serves the one connection and returns.
\<close>

fun ms_accept_loop ::
  "env \<Rightarrow> nat \<Rightarrow> (accept_ev \<times> fork_ev \<times> bash_ev list) list \<Rightarrow> (unit, sys) cmd" where
  "ms_accept_loop E serverfd [] = (\<lambda>s. Blocked s)"
| "ms_accept_loop E serverfd ((Acc_err e, _, _) # es) =
     bindC (set_errno e) (\<lambda>_. if e = EINTR then ms_accept_loop E serverfd es else err_sys)"
| "ms_accept_loop E serverfd ((Acc c, f, output) # es) =
     bindC add_fd (\<lambda>connfd. bindC (log_call C_fork) (\<lambda>_. case f of
         F_parent pid \<Rightarrow> bindC (c_close connfd) (\<lambda>_. ms_accept_loop E serverfd es)
       | F_child \<Rightarrow> block [c_close serverfd, take_conn c, ms_do_call E output connfd, end_conn connfd]
       | F_fail e \<Rightarrow> bindC (set_errno e) (\<lambda>_. err_sys)))"

definition ms_server ::
  "env \<Rightarrow> 16 word \<Rightarrow> (accept_ev \<times> fork_ev \<times> bash_ev list) list \<Rightarrow> (unit, sys) cmd" where
  "ms_server E port evs =
     bindC (open_listener E SO_REUSEADDR port 0) (\<lambda>fd. ms_accept_loop E (nat fd) evs)"

definition siguser1_signo_handler :: "sys \<Rightarrow> sys" where
  "siguser1_signo_handler s = s\<lparr>user1_sem := Suc (user1_sem s)\<rparr>"

text \<open>
  \<open>handler_siguser1\<close>: a failed \<open>sem_open\<close> or \<open>shmat\<close> is only logged, so the loop then works on
  \<open>SEM_FAILED\<close> (undefined, the fault \<open>Bad_Semaphore\<close>) or through a wild pointer. The loop prints the counter
  once for every post of \<open>user1_sem\<close>; \<open>n\<close> counts the posts still to be taken.
\<close>

primrec siguser1_loop :: "nat \<Rightarrow> (unit, sys) cmd" where
  "siguser1_loop 0 = (\<lambda>s. Blocked s)"
| "siguser1_loop (Suc n) =
     bindC (modify (\<lambda>s. s\<lparr>user1_sem := n\<rparr>)) (\<lambda>_.
     bindC read_requests_locked (\<lambda>value.
     bindC (modify (\<lambda>s. s\<lparr>printed := printed s @ [value]\<rparr>)) (\<lambda>_. siguser1_loop n)))"

definition open_user1_sem :: "(unit, sys) cmd" where
  "open_user1_sem = modify (\<lambda>s. if user1_exists s then s else s\<lparr>user1_exists := True, user1_sem := 0\<rparr>)"

definition handler_siguser1 :: "env \<Rightarrow> (unit, sys) cmd" where
  "handler_siguser1 E =
     (if \<not> sem_open_ok E then faulting Bad_Semaphore
      else block [open_shm_sem, open_user1_sem, attach E, get (\<lambda>s. siguser1_loop (user1_sem s))])"

text \<open>The handler of SIGINT: remove the segment, write a line, exit with the signal's number.\<close>

definition exit_handler :: "env \<Rightarrow> int \<Rightarrow> (unit, sys) cmd" where
  "exit_handler E signo = block
     [get (\<lambda>s. if shm_id s \<noteq> -1 then log_call (C_shm_rm (shm_id s)) else ret ()),
      log_call (C_write (''main process end'' @ [LF])),
      (\<lambda>s. Exited signo s)]"

text \<open>
  The part every \<open>main\<close> has: \<open>ftok\<close>, \<open>shmget\<close>, \<open>shmat\<close> (unchecked, so a failure makes the
  \<open>memcpy\<close> write through \<open>(void *)-1\<close>) and the counters set to zero.
\<close>

definition init_share :: "env \<Rightarrow> (unit, sys) cmd" where
  "init_share E =
     (if \<not> ftok_ok E then err_sys
      else (case shmget_res E of
          None \<Rightarrow> err_sys
        | Some i \<Rightarrow> bindC (modify (\<lambda>s. s\<lparr>shm_id := i\<rparr>)) (\<lambda>_.
            if \<not> shmat_ok E then faulting Wild_Deref
            else modify (\<lambda>s. s\<lparr>shm := init_statistics\<rparr>))))"

text \<open>
  \<open>sem_unlink(SEM_FILE)\<close>. On Linux \<open>SEM_FILE\<close> is not the name that \<open>sem_open\<close> is given later, so
  a semaphore of an earlier run stays; elsewhere the names agree. The name of the second semaphore
  is the same in both calls.
\<close>

definition unlink_shm_sem :: "env \<Rightarrow> (unit, sys) cmd" where
  "unlink_shm_sem E = modify (\<lambda>s. if is_linux E then s else s\<lparr>sem_exists := False\<rparr>)"

definition unlink_user1_sem :: "(unit, sys) cmd" where
  "unlink_user1_sem = modify (\<lambda>s. s\<lparr>user1_exists := False\<rparr>)"

text \<open>
  \<open>main\<close>. \<open>f\<close> is the \<open>fork\<close> of the reporter process. The child of a connection returns from
  \<open>server\<close> and from \<open>main\<close>. (SIGCHLD is ignored with \<open>SA_NOCLDWAIT\<close>, so \<open>waitpid\<close> in this program
  never reports a child: its event lists have no \<open>W_child\<close>.)
\<close>

definition ms_main ::
  "env \<Rightarrow> fork_ev \<Rightarrow> (accept_ev \<times> fork_ev \<times> bash_ev list) list \<Rightarrow> (unit, sys) cmd" where
  "ms_main E f evs = block
     [init_share E,
      unlink_shm_sem E, unlink_user1_sem,
      (if sem_open_ok E then open_user1_sem else ret ()),
      log_call C_fork,
      (case f of
         F_child \<Rightarrow> bindC (handler_siguser1 E) (\<lambda>_. (\<lambda>s. Exited 127 s))
       | F_fail e \<Rightarrow> (\<lambda>s. Exited 1 s)
       | F_parent pid \<Rightarrow> bindC (ms_server E 2346 evs) (\<lambda>_. (\<lambda>s. Exited 0 s)))]"

section \<open>multi_server_pre_forked_pool_of_processes.c\<close>

text \<open>
  Every worker opens its own listening socket (\<open>SO_REUSEPORT\<close>), attaches the segment once and
  serves one connection after the other. The descriptor of a connection is shut down but not closed.
\<close>

fun pool_loop :: "(env \<Rightarrow> bash_ev list \<Rightarrow> nat \<Rightarrow> (unit, sys) cmd) \<Rightarrow> env \<Rightarrow>
    (accept_ev \<times> bash_ev list) list \<Rightarrow> (unit, sys) cmd" where
  "pool_loop call E [] = (\<lambda>s. Blocked s)"
| "pool_loop call E ((Acc_err e, _) # es) =
     bindC (set_errno e) (\<lambda>_. if e = EINTR then pool_loop call E es else err_sys)"
| "pool_loop call E ((Acc c, output) # es) =
     bindC add_fd (\<lambda>connfd.
     bindC (block [take_conn c, call E output connfd, end_conn connfd]) (\<lambda>_. pool_loop call E es))"

definition pool_server :: "(env \<Rightarrow> bash_ev list \<Rightarrow> nat \<Rightarrow> (unit, sys) cmd) \<Rightarrow> env \<Rightarrow> 16 word \<Rightarrow>
    (accept_ev \<times> bash_ev list) list \<Rightarrow> (unit, sys) cmd" where
  "pool_server call E port evs =
     bindC (open_listener E SO_REUSEPORT port 0) (\<lambda>_.
       if \<not> sem_open_ok E then (\<lambda>s. Exited 1 s)
       else block [open_shm_sem, attach E, pool_loop call E evs])"

definition pf_server :: "env \<Rightarrow> 16 word \<Rightarrow> (accept_ev \<times> bash_ev list) list \<Rightarrow> (unit, sys) cmd" where
  "pf_server = pool_server pf_do_call"

text \<open>
  The 32 forks of \<open>main\<close>: in a child \<open>server\<close> runs (and \<open>exit(1)\<close> follows if it ever returns), a
  failed one ends the parent and leaves the workers already made.
\<close>

fun fork_pool :: "(unit, sys) cmd \<Rightarrow> fork_ev list \<Rightarrow> (unit, sys) cmd" where
  "fork_pool worker [] = ret ()"
| "fork_pool worker (F_child # fs) =
     bindC (log_call C_fork) (\<lambda>_. bindC worker (\<lambda>_. (\<lambda>s. Exited 1 s)))"
| "fork_pool worker (F_fail e # fs) =
     bindC (log_call C_fork) (\<lambda>_. bindC (set_errno e) (\<lambda>_. err_sys))"
| "fork_pool worker (F_parent pid # fs) = bindC (log_call C_fork) (\<lambda>_. fork_pool worker fs)"

text \<open>
  \<open>main\<close>: \<open>fs\<close> are the results of the forks of the workers, of which 32 are made, \<open>f\<close> that of the
  reporter. The parent ends in a loop of \<open>waitpid\<close>.
\<close>

definition pool_main :: "(unit, sys) cmd \<Rightarrow> env \<Rightarrow> fork_ev list \<Rightarrow> fork_ev \<Rightarrow> (unit, sys) cmd" where
  "pool_main worker E fs f = block
     [init_share E,
      unlink_shm_sem E,
      fork_pool worker (take 32 fs),
      unlink_user1_sem,
      (if sem_open_ok E then open_user1_sem else ret ()),
      log_call C_fork,
      (case f of
         F_child \<Rightarrow> bindC (handler_siguser1 E) (\<lambda>_. (\<lambda>s. Exited 127 s))
       | F_fail e \<Rightarrow> (\<lambda>s. Exited 1 s)
       | F_parent pid \<Rightarrow> (\<lambda>s. Blocked s))]"

definition pf_main :: "env \<Rightarrow> fork_ev list \<Rightarrow> fork_ev \<Rightarrow> (accept_ev \<times> bash_ev list) list \<Rightarrow> (unit, sys) cmd" where
  "pf_main E fs f evs = pool_main (pf_server E 2346 evs) E fs f"

section \<open>multi_server_pass_socket_fd_to_child_processes.c\<close>

text \<open>
  The same program; the UNIX socket its name speaks of is never made. (\<open>main\<close> only compares the
  length of a constant name, 32, with the size of \<open>sun_path\<close>, at least 92.)
\<close>

definition ps_server :: "env \<Rightarrow> 16 word \<Rightarrow> (accept_ev \<times> bash_ev list) list \<Rightarrow> (unit, sys) cmd" where
  "ps_server = pool_server ps_do_call"

definition ps_main :: "env \<Rightarrow> fork_ev list \<Rightarrow> fork_ev \<Rightarrow> (accept_ev \<times> bash_ev list) list \<Rightarrow> (unit, sys) cmd" where
  "ps_main E fs f evs = pool_main (ps_server E 2346 evs) E fs f"

end
