(* ===== verification/Broken_Pipe.thy ===== *)
theory Broken_Pipe
  imports Reply_Codes Servers
begin

text \<open>
  A client that goes away while it is being answered: \<open>send\<close> raises SIGPIPE, which no process server
  handles or ignores. A handler that returns has met no broken connection, so its code for \<open>EPIPE\<close> is dead,
  and a worker killed while it copies a script's output has not sent the script a signal.
\<close>

section \<open>Nobody ignores SIGPIPE\<close>

lemma sigpipe_wrap: "frames sigpipe_ign calloc_buffers" "frames sigpipe_ign detach" "frames sigpipe_ign (attach E)"
  "frames sigpipe_ign open_shm_sem" "frames sigpipe_ign open_user1_sem" "frames sigpipe_ign (c_shutdown fd how)"
  "frames sigpipe_ign (c_close fd)" "frames sigpipe_ign (take_conn c)" "frames sigpipe_ign (end_conn fd)"
  "frames sigpipe_ign (log_call call)" "frames sigpipe_ign (set_errno e)" "frames sigpipe_ign add_fd"
  "frames sigpipe_ign sem_wait" "frames sigpipe_ign sem_post" "frames sigpipe_ign (unlink_shm_sem E)"
  "frames sigpipe_ign unlink_user1_sem"
  unfolding calloc_buffers_def detach_def attach_def open_shm_sem_def open_user1_sem_def c_shutdown_def c_close_def
    take_conn_def end_conn_def log_call_def set_errno_def unlink_shm_sem_def unlink_user1_sem_def
  by (intro frames_modify frames_add_fd frames_sem_wait frames_sem_post; simp)+

lemma sigpipe_stops: "frames sigpipe_ign err_sys" "frames sigpipe_ign (\<lambda>s. Exited n s)" "frames sigpipe_ign (\<lambda>s. Blocked s)"
  by (simp_all add: frames_def err_sys_def)

lemma sigpipe_handlers: "frames sigpipe_ign (pf_do_call E output connfd)" "frames sigpipe_ign (ms_do_call E output connfd)"
proof -
  have serve: "frames sigpipe_ign (serve_request ms_read_request_line ms_response (pf_route E output))"
    "frames sigpipe_ign (serve_request ms_read_request_line ms_response (ms_route E output))"
    by (rule frames_outside [OF outside_pf_serve(1)] frames_outside [OF outside_pf_serve(2)]; simp add: outside_def)+
  then show "frames sigpipe_ign (pf_do_call E output connfd)" "frames sigpipe_ign (ms_do_call E output connfd)"
    unfolding pf_do_call_def ms_do_call_def block.simps process_copies
    by (intro frames_bind frames_if frames_ret sigpipe_wrap; simp)+
qed

lemma sigpipe_listener: "frames sigpipe_ign (open_listener E opt port backlog)"
proof -
  have call: "frames sigpipe_ign (syscall E c)" for c
    by (intro framesI) (simp add: syscall_def Let_def split: option.split)
  show ?thesis
    unfolding open_listener_def create_socket_def bind_listen_def check_def block.simps
    by (intro frames_bind frames_if frames_ret sigpipe_wrap sigpipe_stops call)
qed

lemma sigpipe_ms_accept_loop: "frames sigpipe_ign (ms_accept_loop E serverfd evs)"
proof (induction E serverfd evs rule: ms_accept_loop.induct)
  case (1 E serverfd)
  show ?case unfolding ms_accept_loop.simps by (rule sigpipe_stops)
next
  case (2 E serverfd e f out es)
  then show ?case unfolding ms_accept_loop.simps by (intro frames_bind frames_if sigpipe_wrap sigpipe_stops)
next
  case (3 E serverfd c f out es)
  then show ?case
    unfolding ms_accept_loop.simps block.simps
    by (cases f; simp only: fork_ev.case;
        intro frames_bind frames_ret sigpipe_wrap sigpipe_stops sigpipe_handlers; simp)
qed

lemma sigpipe_pool_loop: "frames sigpipe_ign (pool_loop pf_do_call E evs)"
proof (induction pf_do_call E evs rule: pool_loop.induct)
  case (1 E)
  show ?case unfolding pool_loop.simps by (rule sigpipe_stops)
next
  case (2 E e out es)
  then show ?case unfolding pool_loop.simps by (intro frames_bind frames_if sigpipe_wrap sigpipe_stops)
next
  case (3 E c out es)
  then show ?case
    unfolding pool_loop.simps block.simps by (intro frames_bind frames_ret sigpipe_wrap sigpipe_handlers)
qed

lemma sigpipe_reporter: "frames sigpipe_ign (handler_siguser1 E)"
proof -
  have r: "frames sigpipe_ign read_requests_locked"
    unfolding read_requests_locked_def read_requests_def
    by (intro frames_bind frames_get frames_ret sigpipe_wrap) (auto intro: frames_ret frames_faulting split: shm_ptr.split)
  have "frames sigpipe_ign (siguser1_loop n)" for n
    by (induction n) (auto simp only: siguser1_loop.simps intro!: frames_bind frames_modify sigpipe_stops r; simp)+
  then show ?thesis
    unfolding handler_siguser1_def block.simps
    by (intro frames_if frames_faulting frames_bind frames_get frames_ret sigpipe_wrap)
qed

lemma sigpipe_init_share: "frames sigpipe_ign (init_share E)"
  unfolding init_share_def
  by (cases "shmget_res E"; simp only: option.case;
      intro frames_if frames_bind frames_faulting frames_modify sigpipe_stops; simp)

lemma sigpipe_fork_pool: "frames sigpipe_ign worker \<Longrightarrow> frames sigpipe_ign (fork_pool worker fs)"
proof (induction worker fs rule: fork_pool.induct)
  case (1 worker)
  show ?case unfolding fork_pool.simps by (rule frames_ret)
qed (unfold fork_pool.simps, (intro frames_bind sigpipe_wrap sigpipe_stops; simp)+)

lemma sigpipe_mains: "frames sigpipe_ign (ms_main E f evs)" "frames sigpipe_ign (pf_main E fs f evs')"
proof -
  have server: "frames sigpipe_ign (pf_server E port evs')" for port
    unfolding pf_server_def pool_server_def block.simps
    by (intro frames_bind frames_if frames_ret sigpipe_stops sigpipe_wrap sigpipe_listener sigpipe_pool_loop)
  show "frames sigpipe_ign (pf_main E fs f evs')"
    unfolding pf_main_def pool_main_def block.simps
    by (cases f; simp only: fork_ev.case;
        intro frames_bind frames_if frames_ret sigpipe_wrap sigpipe_stops sigpipe_init_share sigpipe_reporter
          sigpipe_fork_pool server)
  show "frames sigpipe_ign (ms_main E f evs)"
    unfolding ms_main_def ms_server_def block.simps
    by (cases f; simp only: fork_ev.case;
        intro frames_bind frames_if frames_ret sigpipe_wrap sigpipe_stops sigpipe_init_share sigpipe_reporter
          sigpipe_listener sigpipe_ms_accept_loop)
qed

section \<open>A handler that returns has met no broken connection\<close>

definition unbroken :: "('a, sys) cmd \<Rightarrow> bool" where
  "unbroken c \<longleftrightarrow> (\<forall>s a s'. c s = Ret a s' \<longrightarrow> \<not> sigpipe_ign s \<longrightarrow>
     \<not> sigpipe_ign s' \<and> (\<exists>used. sendq s = used @ sendq s' \<and> Snd_err EPIPE \<notin> set used))"

lemma unbrokenD:
  assumes "unbroken c" "c s = Ret a s'" "\<not> sigpipe_ign s"
  obtains used where "\<not> sigpipe_ign s'" "sendq s = used @ sendq s'" "Snd_err EPIPE \<notin> set used"
  using assms unfolding unbroken_def by blast

lemma unbroken_frames: "frames (\<lambda>s. (sigpipe_ign s, sendq s)) c \<Longrightarrow> unbroken c"
  unfolding unbroken_def by (metis append_Nil empty_iff frames_Ret list.set(1) prod.inject)

lemma unbroken_bind:
  assumes "unbroken m" and "\<And>a. unbroken (k a)"
  shows "unbroken (bindC m k)"
  unfolding unbroken_def
proof (intro allI impI)
  fix s b s'
  assume "bindC m k s = Ret b s'" and s: "\<not> sigpipe_ign s"
  then obtain a t where mt: "m s = Ret a t" and kt: "k a t = Ret b s'" by (auto simp: bindC_Ret_iff)
  obtain u where t: "\<not> sigpipe_ign t" "sendq s = u @ sendq t" "Snd_err EPIPE \<notin> set u" by (rule unbrokenD [OF assms(1) mt s])
  obtain v where "\<not> sigpipe_ign s'" "sendq t = v @ sendq s'" "Snd_err EPIPE \<notin> set v" by (rule unbrokenD [OF assms(2) kt t(1)])
  then show "\<not> sigpipe_ign s' \<and> (\<exists>used. sendq s = used @ sendq s' \<and> Snd_err EPIPE \<notin> set used)"
    using t by (intro conjI exI [of _ "u @ v"]) auto
qed

lemma unbroken_get: "(\<And>s. unbroken (k s)) \<Longrightarrow> unbroken (get k)"
  by (auto simp: unbroken_def)

lemma unbroken_if: "(b \<Longrightarrow> unbroken c) \<Longrightarrow> (\<not> b \<Longrightarrow> unbroken d) \<Longrightarrow> unbroken (if b then c else d)"
  by simp

lemma unbroken_ret: "unbroken (ret a)" and unbroken_fault: "unbroken (faulting e)"
  and unbroken_modify: "(\<And>s. sigpipe_ign (f s) = sigpipe_ign s \<and> sendq (f s) = sendq s) \<Longrightarrow> unbroken (modify f)"
  by (rule unbroken_frames; simp add: frames_def)+

lemma unbroken_block: "(\<And>c. c \<in> set cs \<Longrightarrow> unbroken c) \<Longrightarrow> unbroken (block cs)"
  by (induction cs) (auto intro: unbroken_bind unbroken_ret)

lemma unbroken_c_send: "unbroken (c_send d)"
  unfolding unbroken_def
proof (intro allI impI)
  fix s a s'
  assume run: "c_send d s = Ret a s'" and s: "\<not> sigpipe_ign s"
  show "\<not> sigpipe_ign s' \<and> (\<exists>used. sendq s = used @ sendq s' \<and> Snd_err EPIPE \<notin> set used)"
  proof (cases "sendq s")
    case Nil
    then show ?thesis using run s by auto
  next
    case (Cons e q)
    then show ?thesis using run s by (intro conjI exI [of _ "[e]"]) (auto simp: c_send_def split: send_ev.splits if_splits)
  qed
qed

lemma unbroken_fmt: "unbroken (send_fmt_ret d)" "unbroken (send_fmt d)"
  unfolding send_fmt_def ignore_def send_fmt_ret_def
  by (intro unbroken_bind unbroken_if unbroken_c_send unbroken_fault unbroken_ret)+

lemma unbroken_calls: "unbroken (set_errno e)" "unbroken (c_close fd)" "unbroken add_fd" "unbroken sem_wait" "unbroken sem_post"
  "unbroken deliver_alarm" "unbroken (signal_alrm h)" "unbroken c_alarm" "unbroken (c_kill pid n)" "unbroken calloc_buffers"
  "unbroken detach" "unbroken (attach E)" "unbroken open_shm_sem" "unbroken (c_shutdown fd how)"
  unfolding set_errno_def c_close_def signal_alrm_def c_alarm_def c_kill_def calloc_buffers_def detach_def attach_def
    open_shm_sem_def c_shutdown_def
  by (intro unbroken_frames frames_modify frames_add_fd frames_sem_wait frames_sem_post framesI;
      auto simp: deliver_alarm_def handle_sigalrm_def handle_sigalrm_stop_script_def Let_def split: sig_handler.split)+

lemma unbroken_read_requests: "unbroken read_requests" "unbroken read_requests_locked"
proof -
  show r: "unbroken read_requests"
    unfolding read_requests_def by (intro unbroken_get) (auto intro: unbroken_ret unbroken_fault split: shm_ptr.split)
  show "unbroken read_requests_locked"
    unfolding read_requests_locked_def by (intro unbroken_bind unbroken_calls unbroken_ret r)
qed

lemma unbroken_wait_loop: "unbroken (wait_loop pid ws)"
proof (induction ws)
  case Nil
  show ?case by (simp add: unbroken_def)
next
  case (Cons w ws)
  show ?case
    by (cases w; simp only: wait_loop.simps; intro unbroken_bind unbroken_get unbroken_if unbroken_modify Cons unbroken_calls; simp)
qed

lemma unbroken_stop: "unbroken (handle_bash_stop_child_process_group pid)" "unbroken (stop_scirpt_timeout pid)"
  unfolding handle_bash_stop_child_process_group_def stop_scirpt_timeout_def block.simps
  by (intro unbroken_bind unbroken_get unbroken_modify unbroken_ret unbroken_calls unbroken_wait_loop; simp)+

lemma unbroken_pipe_read_v2: "unbroken (pipe_read_v2 E command)"
  unfolding pipe_read_v2_def
  by (cases "pipe_errno E"; cases "fork_res E"; simp only: option.case sum.case; intro unbroken_bind unbroken_calls unbroken_ret)

lemma unbroken_bash_loop: "unbroken (bash_loop pid es)"
proof (induction pid es rule: bash_loop.induct)
  case (5 pid d es)
  then show ?case
    unfolding bash_loop.simps
    by (intro unbroken_if unbroken_get unbroken_bind unbroken_ret unbroken_c_send unbroken_stop) simp_all
qed (unfold bash_loop.simps, (intro unbroken_bind unbroken_get unbroken_if unbroken_ret unbroken_calls; simp)+)

lemma unbroken_bash_rest: "unbroken (bash_rest output pid)"
proof -
  have "unbroken (case x of BX_return \<Rightarrow> ret () | BX_done rt \<Rightarrow> get (\<lambda>s3.
      if rt = -1 \<or> need_stop_script s3 = 1 then stop_scirpt_timeout pid else ret ()))" for x
    by (cases x; simp only: bash_exit.case; intro unbroken_get unbroken_if unbroken_ret unbroken_stop)
  then show ?thesis
    unfolding bash_rest_def
    by (intro unbroken_bind unbroken_get unbroken_if unbroken_fmt unbroken_stop unbroken_calls unbroken_bash_loop)
qed

lemma unbroken_copy_loop: "unbroken (copy_loop es)"
proof (induction es rule: copy_loop.induct)
  case (4 d es)
  then show ?case unfolding copy_loop.simps by (intro unbroken_if unbroken_ret unbroken_bind unbroken_c_send) simp_all
qed (unfold copy_loop.simps, (intro unbroken_bind unbroken_ret unbroken_calls; simp)+)

context status_writer
begin

lemma unbroken_wc: "unbroken (wc code)"
  by (intro unbroken_frames wc_frames) (simp add: io_view_def)

lemma unbroken_response: "unbroken (response wc code reason msg)"
  unfolding response_def by (rule unbroken_block) (auto intro: unbroken_fmt unbroken_wc)

lemma unbroken_req_parser: "unbroken (req_parser wc E)"
  unfolding req_parser_def Let_def
  by (intro unbroken_get)
     (auto intro!: unbroken_bind unbroken_modify unbroken_block intro: unbroken_calls unbroken_response unbroken_fmt
       unbroken_wc unbroken_copy_loop simp del: block.simps split: prod.split option.split sum.split)

lemma unbroken_ls_version_two: "unbroken (ls_version_two wc E path)"
  unfolding ls_version_two_def
  by (auto intro!: unbroken_bind unbroken_block intro: unbroken_calls unbroken_response unbroken_fmt unbroken_wc
      simp del: block.simps split: sum.split)

lemma unbroken_route_file: "unbroken (route_file (ls_version_two wc) (req_parser wc) E)"
  unfolding route_file_def is_dir_def Let_def
  by (intro unbroken_get unbroken_bind)
     (auto intro: unbroken_bind unbroken_calls unbroken_ret unbroken_req_parser unbroken_ls_version_two split: sum.split)

lemma unbroken_handle_bash: "unbroken (handle_bash wc E output command)"
proof -
  have "unbroken (if fd = -1 then response wc 500 ''Ok'' (Some ''command running error'')
       else bindC (send_fmt_ret h) (\<lambda>r1. get (\<lambda>s1. if r1 = -1 \<and> errno s1 = EPIPE
         then handle_bash_stop_child_process_group pid
         else bindC (wc 200) (\<lambda>_. bash_rest output pid))))" for fd pid h
    by (intro unbroken_if unbroken_response unbroken_bind unbroken_get unbroken_fmt unbroken_stop unbroken_wc unbroken_bash_rest)
  then show ?thesis
    unfolding handle_bash_unfold by (intro unbroken_bind unbroken_pipe_read_v2) (simp only: split_beta)
qed

lemma unbroken_serve_request:
  assumes "unbroken route"
  shows "unbroken (serve_request (read_request_line (response wc)) (response wc) route)"
proof -
  have "unbroken (read_request_line (response wc))"
    unfolding read_request_line_def
    by (intro unbroken_get)
       (auto intro!: unbroken_bind unbroken_modify intro: unbroken_ret unbroken_fault unbroken_response
         split: prod.split rl_exit.split)
  then show ?thesis
    unfolding serve_request_def by (intro unbroken_bind unbroken_get unbroken_if unbroken_ret unbroken_response assms)
qed

end

lemma unbroken_handlers: "unbroken (pf_do_call E output connfd)" "unbroken (ms_do_call E output connfd)"
proof -
  have r: "unbroken (pf_route E output)" "unbroken (ms_route E output)"
    unfolding pf_route_def ms_route_def Let_def ms_program
    by (intro unbroken_get unbroken_if unbroken_bind unbroken_read_requests ms.unbroken_response ms.unbroken_handle_bash
        ms.unbroken_route_file)+
  show "unbroken (pf_do_call E output connfd)" "unbroken (ms_do_call E output connfd)"
    unfolding pf_do_call_def ms_do_call_def block.simps ms_program
    by (intro unbroken_bind unbroken_if unbroken_ret unbroken_calls ms.unbroken_serve_request r)+
qed

section \<open>A worker that is killed leaves the script alone\<close>

text \<open>When \<open>c\<close> is killed by SIGPIPE it has sent no signals.\<close>

definition spares :: "('a, sys) cmd \<Rightarrow> bool" where
  "spares c \<longleftrightarrow> (\<forall>s s'. c s = Killed SIGPIPE s' \<longrightarrow> kills s' = kills s)"

lemma spares_frames: "frames kills c \<Longrightarrow> spares c"
  unfolding spares_def frames_def by (metis outcome_all.simps(4))

lemma spares_bind:
  assumes "frames kills m" and "\<And>a. spares (k a)"
  shows "spares (bindC m k)"
  unfolding spares_def
proof (intro allI impI)
  fix s s'
  assume run: "bindC m k s = Killed SIGPIPE s'"
  show "kills s' = kills s"
  proof (cases "m s")
    case (Ret a t)
    then show ?thesis
      using run assms(2) frames_Ret [OF assms(1) Ret] unfolding spares_def by (metis bindC_simps(1))
  next
    case (Killed n t)
    then show ?thesis using run spares_frames [OF assms(1)] unfolding spares_def by auto
  qed (use run in auto)
qed

lemma spares_get: "(\<And>s. spares (k s)) \<Longrightarrow> spares (get k)"
  by (auto simp: spares_def)

lemma spares_if: "(b \<Longrightarrow> spares c) \<Longrightarrow> (\<not> b \<Longrightarrow> spares d) \<Longrightarrow> spares (if b then c else d)"
  by simp

text \<open>A command that never sends cannot be killed by SIGPIPE.\<close>

definition sendless :: "('a, sys) cmd \<Rightarrow> bool" where
  "sendless c \<longleftrightarrow> (\<forall>s s'. c s \<noteq> Killed SIGPIPE s')"

lemma sendless_bind: "sendless m \<Longrightarrow> (\<And>a. sendless (k a)) \<Longrightarrow> sendless (bindC m k)"
  by (auto simp: sendless_def bindC_def split: outcome.splits)

lemma sendless_ops: "(\<And>s. sendless (k s)) \<Longrightarrow> sendless (get k)" "sendless (ret a)" "sendless (modify f)"
  "sendless c \<Longrightarrow> sendless d \<Longrightarrow> sendless (if b then c else d)"
  by (auto simp: sendless_def)

lemma sendless_wait_loop: "sendless (wait_loop pid ws)"
proof (induction ws)
  case (Cons w ws)
  have "sendless deliver_alarm"
    by (auto simp: sendless_def deliver_alarm_def Let_def platform_defs split: sig_handler.split)
  then show ?case
    by (cases w; simp only: wait_loop.simps c_kill_def; intro sendless_bind sendless_ops Cons)
qed (simp add: sendless_def)

lemma sendless_stop: "sendless (handle_bash_stop_child_process_group pid)" "sendless (stop_scirpt_timeout pid)"
  unfolding handle_bash_stop_child_process_group_def stop_scirpt_timeout_def block.simps signal_alrm_def c_kill_def c_alarm_def
  by (intro sendless_bind sendless_ops sendless_wait_loop)+

lemma spares_sendless: "sendless c \<Longrightarrow> spares c"
  by (simp add: sendless_def spares_def)

lemma kills_calls: "frames kills (set_errno e)" "frames kills (c_send d)" "frames kills (send_fmt_ret d)" "frames kills (send_fmt d)"
  "frames kills deliver_alarm" "frames kills (signal_alrm h)" "frames kills c_alarm" "frames kills add_fd" "frames kills (c_close fd)"
  unfolding set_errno_def signal_alrm_def c_alarm_def c_close_def
  by (intro frames_modify frames_c_send frames_send_fmt frames_send_fmt_ret frames_add_fd framesI;
      auto simp: deliver_alarm_def handle_sigalrm_def handle_sigalrm_stop_script_def Let_def split: sig_handler.split)+

lemma spares_bash_loop: "spares (bash_loop pid es)"
proof (induction pid es rule: bash_loop.induct)
  case (5 pid d es)
  have "sendless (bindC (handle_bash_stop_child_process_group pid) (\<lambda>_. ret BX_return))"
    by (intro sendless_bind sendless_ops sendless_stop)
  then have stop: "spares (bindC (handle_bash_stop_child_process_group pid) (\<lambda>_. ret BX_return))" by (rule spares_sendless)
  have loop: "spares (bash_loop pid es)" if "d \<noteq> []" "\<not> need_stop_script u \<noteq> 0" "\<not> (r = -1 \<and> errno t = EPIPE)"
    for r :: int and t u :: sys
    using 5 [OF that] .
  show ?case
    unfolding bash_loop.simps
    by (intro spares_if spares_get spares_bind [OF kills_calls(2)] spares_frames [OF frames_ret] stop) (rule loop)
qed (unfold bash_loop.simps, (intro spares_bind spares_get spares_if spares_frames [OF frames_ret] kills_calls; simp)+)

lemma spares_bash_rest: "spares (bash_rest output pid)"
proof -
  have tail: "sendless (case x of BX_return \<Rightarrow> ret () | BX_done rt \<Rightarrow> get (\<lambda>s3.
      if rt = -1 \<or> need_stop_script s3 = 1 then stop_scirpt_timeout pid else ret ()))" for x
    by (cases x; simp only: bash_exit.case; intro sendless_ops sendless_stop)
  have loop: "spares (bindC (bash_loop pid output) (\<lambda>x. case x of BX_return \<Rightarrow> ret () | BX_done rt \<Rightarrow> get (\<lambda>s3.
      if rt = -1 \<or> need_stop_script s3 = 1 then stop_scirpt_timeout pid else ret ())))"
    using spares_bash_loop tail unfolding spares_def sendless_def by (auto simp: bindC_def split: outcome.splits)
  show ?thesis
    unfolding bash_rest_def
    by (rule spares_bind [OF kills_calls(3)], rule spares_get, rule spares_if, rule spares_sendless [OF sendless_stop(1)],
        rule spares_bind [OF kills_calls(6)], rule spares_bind [OF kills_calls(7)], rule loop)
qed

lemma spares_handle_bash: "spares (ms_handle_bash E output command)"
proof -
  have wc: "frames kills (ms_write_code code)" for code by (rule ms.wc_frames) (simp add: io_view_def)
  have resp: "frames kills (response ms_write_code code reason msg)" for code reason msg
    unfolding response_def by (rule frames_block) (auto intro: kills_calls wc)
  have pipe: "frames kills (pipe_read_v2 E command)"
    unfolding pipe_read_v2_def
    by (cases "pipe_errno E"; cases "fork_res E"; simp only: option.case sum.case; intro frames_bind frames_ret kills_calls)
  have "spares (if fd = -1 then response ms_write_code 500 ''Ok'' (Some ''command running error'')
       else bindC (send_fmt_ret h) (\<lambda>r1. get (\<lambda>s1. if r1 = -1 \<and> errno s1 = EPIPE
         then handle_bash_stop_child_process_group pid
         else bindC (ms_write_code 200) (\<lambda>_. bash_rest output pid))))" for fd pid h
    by (intro spares_if spares_bind spares_get spares_frames [OF resp] kills_calls wc spares_bash_rest
        spares_sendless [OF sendless_stop(1)])
  then show ?thesis
    unfolding ms_handle_bash_def handle_bash_unfold by (intro spares_bind pipe) (simp only: split_beta)
qed

end
