(* ===== verification/Queue.thy ===== *)
theory Queue
  imports Prelude
begin

text \<open>
  The blocking queue between the accepting thread and the pool
  (\<open>multi_server_thread_blocking_queue.c\<close>, copied in the multiple-ports server): the linked list
  on the heap, its two critical sections, and the abstract FIFO they implement.
\<close>

section \<open>The data structure\<close>

text \<open>Addresses are numbers, 0 is the null pointer; the heap maps what is allocated.\<close>

record message =
  sock :: int
  nxt :: nat

record queue =
  heap :: "nat \<rightharpoonup> message"
  first :: nat
  last_msg :: nat
  qlength :: "32 word"

definition queue_init :: "queue \<Rightarrow> queue" where
  "queue_init q = q\<lparr>first := 0, last_msg := 0, qlength := 0\<rparr>"

definition queue_destroy :: "queue \<Rightarrow> queue" where
  "queue_destroy q = q\<lparr>first := 0, last_msg := 0, qlength := 0\<rparr>"

section \<open>queue_put\<close>

text \<open>\<open>calloc\<close> and the two assignments before the lock; \<open>a\<close> is the address \<open>calloc\<close> returns.\<close>

definition queue_put_alloc :: "nat \<Rightarrow> int \<Rightarrow> queue \<Rightarrow> queue" where
  "queue_put_alloc a s q = q\<lparr>heap := (heap q)(a \<mapsto> \<lparr>sock = s, nxt = 0\<rparr>)\<rparr>"

text \<open>The critical section; \<open>None\<close> is a dereference of \<open>q->last\<close> that is not allocated.\<close>

definition queue_put_link :: "nat \<Rightarrow> queue \<Rightarrow> queue option" where
  "queue_put_link a q =
     (if first q = 0 then
        Some (q\<lparr>first := a, last_msg := a, qlength := qlength q + 1\<rparr>)
      else
        (case heap q (last_msg q) of
           None \<Rightarrow> None
         | Some m \<Rightarrow>
             Some (q\<lparr>heap := (heap q)(last_msg q \<mapsto> m\<lparr>nxt := a\<rparr>),
                     last_msg := a, qlength := qlength q + 1\<rparr>)))"

definition queue_put :: "nat \<Rightarrow> int \<Rightarrow> queue \<Rightarrow> queue option" where
  "queue_put a s q = queue_put_link a (queue_put_alloc a s q)"

section \<open>queue_get\<close>

text \<open>The test of the wait loop, and the critical section after it: the message and the queue.\<close>

definition queue_must_wait :: "queue \<Rightarrow> bool" where
  "queue_must_wait q \<longleftrightarrow> qlength q = 0"

definition queue_get_unlink :: "queue \<Rightarrow> (nat \<times> queue) option" where
  "queue_get_unlink q =
     (case heap q (first q) of
        None \<Rightarrow> None
      | Some m \<Rightarrow>
          (let q' = q\<lparr>qlength := qlength q - 1\<rparr>
           in if first q = last_msg q \<and> nxt m = 0 then
                Some (first q, q'\<lparr>first := 0, last_msg := 0\<rparr>)
              else Some (first q, q'\<lparr>first := nxt m\<rparr>)))"

text \<open>\<open>socket = mq->sock; free(mq);\<close> after the unlock.\<close>

definition queue_get_free :: "nat \<Rightarrow> queue \<Rightarrow> (int \<times> queue) option" where
  "queue_get_free a q = (case heap q a of
       None \<Rightarrow> None
     | Some m \<Rightarrow> Some (sock m, q\<lparr>heap := (heap q)(a := None)\<rparr>))"

text \<open>A whole call; \<open>None\<close> when it has to wait (or on a wild pointer).\<close>

definition queue_get :: "queue \<Rightarrow> (int \<times> queue) option" where
  "queue_get q =
     (if queue_must_wait q then None
      else (case queue_get_unlink q of None \<Rightarrow> None | Some (a, q') \<Rightarrow> queue_get_free a q'))"

section \<open>The represented list\<close>

text \<open>\<open>chain h p as\<close>: following \<open>nxt\<close> from \<open>p\<close> visits the messages \<open>as\<close> and ends in null.\<close>

fun chain :: "(nat \<rightharpoonup> message) \<Rightarrow> nat \<Rightarrow> nat list \<Rightarrow> bool" where
  "chain h p [] \<longleftrightarrow> p = 0"
| "chain h p (a # as) \<longleftrightarrow> p = a \<and> a \<noteq> 0 \<and> (\<exists>m. h a = Some m \<and> chain h (nxt m) as)"

definition socks :: "(nat \<rightharpoonup> message) \<Rightarrow> nat list \<Rightarrow> int list" where
  "socks h as = map (\<lambda>a. sock (the (h a))) as"

text \<open>The invariant, with the addresses made explicit.\<close>

definition queue_repr :: "queue \<Rightarrow> nat list \<Rightarrow> bool" where
  "queue_repr q as \<longleftrightarrow>
     chain (heap q) (first q) as \<and> distinct as \<and>
     last_msg q = (if as = [] then 0 else last as) \<and>
     qlength q = word_of_nat (length as) \<and> length as < 2 ^ 32"

definition queue_inv :: "queue \<Rightarrow> bool" where
  "queue_inv q \<longleftrightarrow> (\<exists>as. queue_repr q as)"

text \<open>The sockets in the queue, by walking the list for \<open>qlength\<close> steps.\<close>

fun walk :: "nat \<Rightarrow> (nat \<rightharpoonup> message) \<Rightarrow> nat \<Rightarrow> int list" where
  "walk 0 h p = []"
| "walk (Suc n) h p = (case h p of None \<Rightarrow> [] | Some m \<Rightarrow> sock m # walk n h (nxt m))"

definition contents :: "queue \<Rightarrow> int list" where
  "contents q = walk (unat (qlength q)) (heap q) (first q)"

lemma chain_in_heap: "chain h p as \<Longrightarrow> a \<in> set as \<Longrightarrow> \<exists>m. h a = Some m"
  by (induction as arbitrary: p) auto

lemma chain_nonnull: "chain h p as \<Longrightarrow> 0 \<notin> set as"
  by (induction as arbitrary: p) auto

lemma chain_frame: "(\<And>b. b \<in> set as \<Longrightarrow> h' b = h b) \<Longrightarrow> chain h' p as = chain h p as"
proof (induction as arbitrary: p)
  case Nil
  then show ?case by simp
next
  case (Cons a as)
  have "h' a = h a" using Cons.prems by simp
  moreover have "chain h' q as = chain h q as" for q using Cons by simp
  ultimately show ?case by simp
qed

lemma socks_frame: "(\<And>b. b \<in> set as \<Longrightarrow> h' b = h b) \<Longrightarrow> socks h' as = socks h as"
  by (simp add: socks_def)

lemma walk_chain: "chain h p as \<Longrightarrow> walk (length as) h p = socks h as"
  by (induction as arbitrary: p) (auto simp: socks_def)

lemma contents_repr: "queue_repr q as \<Longrightarrow> contents q = socks (heap q) as"
  by (simp add: contents_def queue_repr_def walk_chain unat_of_nat take_bit_eq_mod)

text \<open>The queue is empty exactly when the wait loop of \<open>queue_get\<close> waits.\<close>

lemma must_wait_iff: "queue_repr q as \<Longrightarrow> queue_must_wait q \<longleftrightarrow> as = []"
  by (auto simp: queue_must_wait_def queue_repr_def of_nat_eq_0_iff word_of_nat_eq_0_iff dest: nat_dvd_not_less)

section \<open>The critical sections on the represented list\<close>

lemma chain_append_node:
  assumes "chain h p as" and "distinct as" and "as \<noteq> []" and "h (last as) = Some m"
    and "a \<notin> set as" and "a \<noteq> 0" and "h a = Some n" and "nxt n = 0"
  shows "chain (h(last as \<mapsto> m\<lparr>nxt := a\<rparr>)) p (as @ [a])"
  using assms
proof (induction as arbitrary: p)
  case Nil
  then show ?case by simp
next
  case (Cons b bs)
  show ?case
  proof (cases "bs = []")
    case True
    with Cons.prems show ?thesis by auto
  next
    case False
    with Cons.prems obtain k where k: "h b = Some k" "chain h (nxt k) bs" by auto
    have "chain (h(last bs \<mapsto> m\<lparr>nxt := a\<rparr>)) (nxt k) (bs @ [a])"
      by (rule Cons.IH) (use Cons.prems False k in auto)
    moreover have "b \<noteq> last bs" using Cons.prems(2) False by auto
    ultimately show ?thesis using Cons.prems False k by (simp del: fun_upd_apply add: fun_upd_other)
  qed
qed

lemma put_link_repr:
  assumes r: "queue_repr q as" and a: "a \<notin> set as" "a \<noteq> 0" "heap q a = Some n" "nxt n = 0"
    and len: "length as < 2 ^ 32 - 1"
  obtains q' where "queue_put_link a q = Some q'" and "queue_repr q' (as @ [a])"
    and "socks (heap q') (as @ [a]) = socks (heap q) as @ [sock n]"
    and "\<And>b. b \<notin> set as \<Longrightarrow> heap q' b = heap q b" and "dom (heap q') = dom (heap q)"
proof (cases "as = []")
  case True
  have "queue_put_link a q = Some (q\<lparr>first := a, last_msg := a, qlength := qlength q + 1\<rparr>)"
    using r True by (simp add: queue_put_link_def queue_repr_def)
  then show ?thesis
    by (rule that) (use r a True in \<open>auto simp: queue_repr_def socks_def\<close>)
next
  case False
  have ch: "chain (heap q) (first q) as" and d: "distinct as" and l: "last_msg q = last as"
    using r False by (auto simp: queue_repr_def)
  obtain m where m: "heap q (last as) = Some m"
    using chain_in_heap [OF ch last_in_set [OF False]] by auto
  have "first q \<noteq> 0" using ch False by (cases as) auto
  let ?q = "q\<lparr>heap := (heap q)(last as \<mapsto> m\<lparr>nxt := a\<rparr>), last_msg := a, qlength := qlength q + 1\<rparr>"
  have "queue_put_link a q = Some ?q"
    using \<open>first q \<noteq> 0\<close> l m by (simp add: queue_put_link_def)
  then show ?thesis
  proof (rule that)
    show "queue_repr ?q (as @ [a])"
      using r d a False len chain_append_node [OF ch d False m a]
      by (simp add: queue_repr_def)
    show "socks (heap ?q) (as @ [a]) = socks (heap q) as @ [sock n]"
      using a m False by (auto simp: socks_def)
    show "heap ?q b = heap q b" if "b \<notin> set as" for b
      using that False by auto
    show "dom (heap ?q) = dom (heap q)" using m by auto
  qed
qed

lemma get_unlink_repr:
  assumes r: "queue_repr q (a # as)"
  obtains q' m where "queue_get_unlink q = Some (a, q')" and "queue_repr q' as"
    and "heap q' = heap q" and "heap q a = Some m"
proof -
  from r obtain m where m: "first q = a" "heap q a = Some m" "chain (heap q) (nxt m) as"
    and d: "a \<notin> set as" "distinct as" and l: "last_msg q = last (a # as)"
    and len: "length as < 2 ^ 32 - 1" "qlength q = word_of_nat (Suc (length as))"
    by (auto simp: queue_repr_def)
  have one: "as = [] \<longleftrightarrow> first q = last_msg q \<and> nxt m = 0"
  proof (cases as)
    case Nil
    then show ?thesis using m l by simp
  next
    case (Cons b bs)
    then have "nxt m \<noteq> 0" using m(3) by simp
    then show ?thesis using Cons by simp
  qed
  show ?thesis
  proof (cases "as = []")
    case True
    let ?q = "q\<lparr>qlength := qlength q - 1, first := 0, last_msg := 0\<rparr>"
    from True one have "first q = last_msg q \<and> nxt m = 0" by blast
    then have "queue_get_unlink q = Some (a, ?q)"
      unfolding queue_get_unlink_def m(1) m(2) by simp
    then show ?thesis
      by (rule that [OF _ _ _ m(2)]) (use len True in \<open>simp_all add: queue_repr_def\<close>)
  next
    case False
    let ?q = "q\<lparr>qlength := qlength q - 1, first := nxt m\<rparr>"
    from False one have "\<not> (first q = last_msg q \<and> nxt m = 0)" by blast
    then have "queue_get_unlink q = Some (a, ?q)"
      unfolding queue_get_unlink_def m(1) m(2) by (auto simp: Let_def)
    then show ?thesis
      by (rule that [OF _ _ _ m(2)]) (use len m(3) d(2) l False in \<open>simp_all add: queue_repr_def\<close>)
  qed
qed

section \<open>The FIFO contract\<close>

text \<open>What \<open>calloc\<close> promises of the address it returns.\<close>

definition fresh_addr :: "queue \<Rightarrow> nat \<Rightarrow> bool" where
  "fresh_addr q a \<longleftrightarrow> a \<noteq> 0 \<and> heap q a = None"

locale blocking_fifo =
  fixes inv :: "'q \<Rightarrow> bool"
    and view :: "'q \<Rightarrow> int list"
    and fresh :: "'q \<Rightarrow> nat \<Rightarrow> bool"
    and put :: "nat \<Rightarrow> int \<Rightarrow> 'q \<Rightarrow> 'q option"
    and get_msg :: "'q \<Rightarrow> (int \<times> 'q) option"
    and capacity :: nat
  assumes put_ok: "inv q \<Longrightarrow> fresh q a \<Longrightarrow> length (view q) < capacity \<Longrightarrow>
      \<exists>q'. put a x q = Some q' \<and> inv q' \<and> view q' = view q @ [x]"
    and get_none: "inv q \<Longrightarrow> view q = [] \<Longrightarrow> get_msg q = None"
    and get_some: "inv q \<Longrightarrow> view q = x # xs \<Longrightarrow>
      \<exists>q'. get_msg q = Some (x, q') \<and> inv q' \<and> view q' = xs"

text \<open>
  Any order of calls: the environment chooses the operations, \<open>calloc\<close> the addresses. The result
  is the list of sockets handed out and the last queue; a call of \<open>get\<close> on an empty queue is
  skipped (the caller waits), a failed \<open>put\<close> ends the run.
\<close>

datatype queue_op = Put nat int | Get

fun run_ops :: "('q \<Rightarrow> nat \<Rightarrow> bool) \<Rightarrow> (nat \<Rightarrow> int \<Rightarrow> 'q \<Rightarrow> 'q option) \<Rightarrow> ('q \<Rightarrow> (int \<times> 'q) option) \<Rightarrow>
    queue_op list \<Rightarrow> 'q \<Rightarrow> (int list \<times> 'q) option" where
  "run_ops fresh put get_msg [] q = Some ([], q)"
| "run_ops fresh put get_msg (Put a x # ops) q =
     (if fresh q a then (case put a x q of None \<Rightarrow> None | Some q' \<Rightarrow> run_ops fresh put get_msg ops q')
      else None)"
| "run_ops fresh put get_msg (Get # ops) q =
     (case get_msg q of
        None \<Rightarrow> run_ops fresh put get_msg ops q
      | Some (x, q') \<Rightarrow>
          (case run_ops fresh put get_msg ops q' of
             None \<Rightarrow> None
           | Some (out, r) \<Rightarrow> Some (x # out, r)))"

text \<open>The sockets put by a list of operations, in order.\<close>

fun puts_of :: "queue_op list \<Rightarrow> int list" where
  "puts_of [] = []"
| "puts_of (Put a x # ops) = x # puts_of ops"
| "puts_of (Get # ops) = puts_of ops"

context blocking_fifo
begin

lemma get_cases:
  assumes "inv q"
  shows "(view q = [] \<and> get_msg q = None) \<or>
    (\<exists>x xs q'. view q = x # xs \<and> get_msg q = Some (x, q') \<and> inv q' \<and> view q' = xs)"
  using get_none [OF assms] get_some [OF assms] by (cases "view q") blast+

text \<open>First in, first out: what was there and what was put is what was got and what is left.\<close>

lemma run_fifo:
  assumes "inv q" and "run_ops fresh put get_msg ops q = Some (out, q')"
    and "length (view q) + length ops \<le> capacity"
  shows "inv q' \<and> out @ view q' = view q @ puts_of ops"
  using assms
proof (induction ops arbitrary: q out)
  case Nil
  then show ?case by simp
next
  case (Cons oper ops)
  show ?case
  proof (cases oper)
    case (Put a x)
    then have f: "fresh q a" using Cons.prems(2) by (simp split: if_splits)
    obtain q1 where q1: "put a x q = Some q1" "inv q1" "view q1 = view q @ [x]"
      using put_ok [OF Cons.prems(1) f, of x] Cons.prems(3) by auto
    have "inv q' \<and> out @ view q' = view q1 @ puts_of ops"
      by (rule Cons.IH) (use Cons.prems Put f q1 in auto)
    then show ?thesis using Put q1 by simp
  next
    case Get
    from get_cases [OF Cons.prems(1)] show ?thesis
    proof
      assume "view q = [] \<and> get_msg q = None"
      then show ?thesis using Cons.IH [OF Cons.prems(1)] Cons.prems Get by simp
    next
      assume "\<exists>x xs q'. view q = x # xs \<and> get_msg q = Some (x, q') \<and> inv q' \<and> view q' = xs"
      then obtain x xs q1 where q1: "view q = x # xs" "get_msg q = Some (x, q1)" "inv q1" "view q1 = xs"
        by blast
      then obtain out1 where out: "run_ops fresh put get_msg ops q1 = Some (out1, q')" "out = x # out1"
        using Cons.prems(2) Get by (auto split: option.splits)
      have "inv q' \<and> out1 @ view q' = view q1 @ puts_of ops"
        by (rule Cons.IH) (use Cons.prems q1 out in auto)
      then show ?thesis using Get q1 out by simp
    qed
  qed
qed

end

lemma queue_put_correct:
  assumes "queue_inv q" and "fresh_addr q a" and "length (contents q) < 2 ^ 32 - 1"
  shows "\<exists>q'. queue_put a x q = Some q' \<and> queue_inv q' \<and> contents q' = contents q @ [x]"
proof -
  obtain as where r: "queue_repr q as" using assms(1) by (auto simp: queue_inv_def)
  have c: "contents q = socks (heap q) as" using r by (rule contents_repr)
  have a: "a \<notin> set as" "a \<noteq> 0"
    using assms(2) r chain_in_heap [of "heap q" "first q" as a]
    by (auto simp: fresh_addr_def queue_repr_def)
  let ?q = "queue_put_alloc a x q"
  have eq: "heap ?q b = heap q b" if "b \<in> set as" for b
    using that a by (auto simp: queue_put_alloc_def)
  have r': "queue_repr ?q as"
    using r chain_frame [of as "heap ?q" "heap q", OF eq] by (simp add: queue_repr_def queue_put_alloc_def)
  have s': "socks (heap ?q) as = socks (heap q) as" using eq by (rule socks_frame)
  obtain q' where q': "queue_put_link a ?q = Some q'" "queue_repr q' (as @ [a])"
      "socks (heap q') (as @ [a]) = socks (heap ?q) as @ [x]"
    by (rule put_link_repr [OF r', of a "\<lparr>sock = x, nxt = 0\<rparr>"])
      (use a assms(3) c in \<open>auto simp: queue_put_alloc_def socks_def\<close>)
  show ?thesis
    using q' c s' contents_repr [OF q'(2)] by (auto simp: queue_put_def queue_inv_def)
qed

lemma queue_get_empty:
  assumes "queue_inv q" and "contents q = []"
  shows "queue_get q = None"
proof -
  obtain as where r: "queue_repr q as" using assms(1) by (auto simp: queue_inv_def)
  then have "as = []" using assms(2) contents_repr [OF r] by (simp add: socks_def)
  then show ?thesis using must_wait_iff [OF r] by (simp add: queue_get_def)
qed

lemma queue_get_correct:
  assumes "queue_inv q" and "contents q = x # xs"
  shows "\<exists>q'. queue_get q = Some (x, q') \<and> queue_inv q' \<and> contents q' = xs"
proof -
  obtain as where r: "queue_repr q as" using assms(1) by (auto simp: queue_inv_def)
  obtain a bs where as: "as = a # bs"
    using assms(2) contents_repr [OF r] by (cases as) (auto simp: socks_def)
  obtain q1 m where u: "queue_get_unlink q = Some (a, q1)" "queue_repr q1 bs" "heap q1 = heap q" "heap q a = Some m"
    using get_unlink_repr r unfolding as by blast
  have d: "a \<notin> set bs" using r as by (simp add: queue_repr_def)
  let ?q = "q1\<lparr>heap := (heap q1)(a := None)\<rparr>"
  have eq: "heap ?q b = heap q1 b" if "b \<in> set bs" for b using that d by auto
  have "queue_repr ?q bs"
    using u(2) chain_frame [of bs "heap ?q" "heap q1", OF eq] by (simp add: queue_repr_def)
  moreover have "socks (heap ?q) bs = xs" and "x = sock m"
    using assms(2) contents_repr [OF r] u socks_frame [of bs "heap ?q" "heap q1", OF eq]
    by (auto simp: as socks_def)
  moreover have "queue_get q = Some (sock m, ?q)"
    using must_wait_iff [OF r] u by (simp add: queue_get_def as queue_get_free_def)
  ultimately show ?thesis
    using contents_repr [of ?q bs] by (auto simp: queue_inv_def)
qed

interpretation cq: blocking_fifo queue_inv contents fresh_addr queue_put queue_get "2 ^ 32 - 1"
  by unfold_locales (use queue_put_correct queue_get_empty queue_get_correct in auto)

lemma queue_init_inv: "queue_inv (queue_init q)"
proof -
  have "queue_repr (queue_init q) []" by (simp add: queue_repr_def queue_init_def)
  then show ?thesis by (auto simp: queue_inv_def)
qed

lemma queue_init_contents: "contents (queue_init q) = []"
  by (simp add: contents_def queue_init_def)

end
