(* ===== verification/Thread_Servers.thy ===== *)
theory Thread_Servers
  imports Servers Queue
begin

text \<open>
  The programs that answer with threads: \<open>multi_server_thread.c\<close>, \<open>multi_server_pre_create_thread.c\<close>,
  \<open>multi_server_thread_blocking_queue.c\<close> and \<open>multi_server_thread_Listening_on_multiple_ports.c\<close>.
  Here is the accepting thread of each; what the other threads do with a connection is in
  Handlers, the queue between them in Queue and its interleavings in Queue_Conc.
\<close>

section \<open>Common parts\<close>

definition N_THREADS :: nat where "N_THREADS = 16"

text \<open>\<open>main\<close> of these programs keeps the segment attached and makes an unnamed semaphore.\<close>

definition init_share_threads :: "env \<Rightarrow> (unit, sys) cmd" where
  "init_share_threads E = block
     [init_share E, modify (\<lambda>s. s\<lparr>share_address := P_segment, sem := 1\<rparr>)]"

text \<open>What \<open>atexit\<close> registered runs when the program calls \<open>exit\<close>.\<close>

definition with_atexit :: "('s \<Rightarrow> 's) \<Rightarrow> ('a, 's) cmd \<Rightarrow> ('a, 's) cmd" where
  "with_atexit h c = (\<lambda>s. case c s of Exited n s' \<Rightarrow> Exited n (h s') | r \<Rightarrow> r)"

definition thr_exit_handler :: "sys \<Rightarrow> sys" where
  "thr_exit_handler s =
     s\<lparr>calls := calls s @ (if shm_id s \<noteq> -1 then [C_shm_rm (shm_id s)] else []) @
        [C_sem_destroy, C_write (''main process end'' @ [LF])]\<rparr>"

text \<open>The handler of SIGINT calls \<open>exit(1)\<close>.\<close>

definition sigint_handler :: "(unit, sys) cmd" where
  "sigint_handler = (\<lambda>s. Exited 1 s)"

section \<open>multi_server_thread.c\<close>

text \<open>
  \<open>pthread_create\<close> gives the descriptor to a new thread, which closes it; the accepting thread
  only records that it was handed over.
\<close>

fun th_accept_loop :: "env \<Rightarrow> accept_ev list \<Rightarrow> (unit, sys) cmd" where
  "th_accept_loop E [] = (\<lambda>s. Blocked s)"
| "th_accept_loop E (Acc_err e # es) =
     bindC (set_errno e) (\<lambda>_. if e = EINTR then th_accept_loop E es else err_sys)"
| "th_accept_loop E (Acc c # es) =
     bindC add_fd (\<lambda>connfd. bindC (log_call (C_pthread_create connfd)) (\<lambda>_. th_accept_loop E es))"

definition th_server :: "env \<Rightarrow> 16 word \<Rightarrow> accept_ev list \<Rightarrow> (unit, sys) cmd" where
  "th_server E port evs =
     bindC (open_listener E SO_REUSEADDR port 0) (\<lambda>_. th_accept_loop E evs)"

definition th_main :: "env \<Rightarrow> accept_ev list \<Rightarrow> (unit, sys) cmd" where
  "th_main E evs = with_atexit thr_exit_handler
     (block [init_share_threads E, th_server E 1992 evs])"

section \<open>multi_server_pre_create_thread.c\<close>

text \<open>
  The pool threads are given the listening socket; \<open>main\<close> joins them, and they never end.
\<close>

definition start_threads :: "nat \<Rightarrow> nat \<Rightarrow> (unit, sys) cmd" where
  "start_threads n arg = block (replicate n (log_call (C_pthread_create arg)))"

definition pc_server :: "env \<Rightarrow> 16 word \<Rightarrow> (unit, sys) cmd" where
  "pc_server E port =
     bindC (open_listener E SO_REUSEADDR port 20) (\<lambda>fd.
     bindC (start_threads N_THREADS (nat fd)) (\<lambda>_. (\<lambda>s. Blocked s)))"

definition pc_main :: "env \<Rightarrow> (unit, sys) cmd" where
  "pc_main E = with_atexit thr_exit_handler (block [init_share_threads E, pc_server E 1991])"

section \<open>multi_server_thread_blocking_queue.c\<close>

text \<open>The state of a program with a queue; \<open>readfds\<close> is the set given to \<open>select\<close>.\<close>

record pool =
  psys :: sys
  pque :: queue
  serv_socks :: "int list"
  readfds :: "int set"

definition on_sys :: "('a, sys) cmd \<Rightarrow> ('a, pool) cmd" where
  "on_sys c = (\<lambda>p. case c (psys p) of
       Ret a s \<Rightarrow> Ret a (p\<lparr>psys := s\<rparr>)
     | Blocked s \<Rightarrow> Blocked (p\<lparr>psys := s\<rparr>)
     | Exited n s \<Rightarrow> Exited n (p\<lparr>psys := s\<rparr>)
     | Killed n s \<Rightarrow> Killed n (p\<lparr>psys := s\<rparr>)
     | Fault f \<Rightarrow> Fault f)"

text \<open>\<open>queue_put(&task_queue, connfd)\<close>, with the address \<open>calloc\<close> returns.\<close>

definition put_conn :: "nat \<Rightarrow> int \<Rightarrow> (unit, pool) cmd" where
  "put_conn a connfd = (\<lambda>p. case queue_put a connfd (pque p) of
       None \<Rightarrow> Fault Wild_Deref
     | Some q \<Rightarrow> Ret () (p\<lparr>pque := q\<rparr>))"

fun bq_accept_loop :: "env \<Rightarrow> (accept_ev \<times> nat) list \<Rightarrow> (unit, pool) cmd" where
  "bq_accept_loop E [] = (\<lambda>p. Blocked p)"
| "bq_accept_loop E ((Acc_err e, _) # es) =
     bindC (on_sys (set_errno e)) (\<lambda>_. if e = EINTR then bq_accept_loop E es else on_sys err_sys)"
| "bq_accept_loop E ((Acc c, a) # es) =
     bindC (on_sys add_fd) (\<lambda>connfd. bindC (put_conn a (int connfd)) (\<lambda>_. bq_accept_loop E es))"

definition bq_server :: "env \<Rightarrow> 16 word \<Rightarrow> (accept_ev \<times> nat) list \<Rightarrow> (unit, pool) cmd" where
  "bq_server E port evs =
     bindC (on_sys (open_listener E SO_REUSEADDR port 20)) (\<lambda>_.
     bindC (on_sys (start_threads N_THREADS 0)) (\<lambda>_. bq_accept_loop E evs))"

definition init_queue :: "(unit, pool) cmd" where
  "init_queue = modify (\<lambda>p. p\<lparr>pque := queue_init (pque p)\<rparr>)"

definition pool_exit_handler :: "pool \<Rightarrow> pool" where
  "pool_exit_handler p = p\<lparr>psys := thr_exit_handler (psys p), pque := queue_destroy (pque p)\<rparr>"

definition bq_main :: "env \<Rightarrow> (accept_ev \<times> nat) list \<Rightarrow> (unit, pool) cmd" where
  "bq_main E evs = with_atexit pool_exit_handler
     (block [on_sys (init_share_threads E), init_queue, bq_server E 1991 evs])"

section \<open>multi_server_thread_Listening_on_multiple_ports.c\<close>

text \<open>A failed \<open>socket\<close> is only logged here; the calls that follow then get the descriptor -1.\<close>

definition createServerSocket :: "env \<Rightarrow> 16 word \<Rightarrow> (int, sys) cmd" where
  "createServerSocket E port =
     bindC (create_socket E) (\<lambda>fd. bindC (bind_listen E fd SO_REUSEADDR port 20) (\<lambda>_. ret fd))"

definition fd_set :: "int \<Rightarrow> (unit, pool) cmd" where
  "fd_set s = modify (\<lambda>p. p\<lparr>readfds := insert s (readfds p)\<rparr>)"

text \<open>
  The inner loop of \<open>start_server\<close>: accept on every socket that \<open>select\<close> left in the set, hand the
  result to the queue (also the -1 of a failed call) and watch the socket again. The list has the
  results of the calls of \<open>accept\<close> in order; one more call than that waits.
\<close>

fun scan_socks :: "env \<Rightarrow> int list \<Rightarrow> (accept_ev \<times> nat) list \<Rightarrow> (unit, pool) cmd" where
  "scan_socks E [] acc = ret ()"
| "scan_socks E (s # ss) acc =
     (if s < 0 then scan_socks E ss acc
      else get (\<lambda>p.
        if s \<notin> readfds p then bindC (fd_set s) (\<lambda>_. scan_socks E ss acc)
        else (case acc of
            [] \<Rightarrow> (\<lambda>p. Blocked p)
          | (Acc c, a) # acc' \<Rightarrow>
              bindC (on_sys add_fd) (\<lambda>connfd. bindC (put_conn a (int connfd)) (\<lambda>_.
              bindC (fd_set s) (\<lambda>_. scan_socks E ss acc')))
          | (Acc_err e, a) # acc' \<Rightarrow>
              bindC (on_sys (set_errno e)) (\<lambda>_.
              if e = EINTR then scan_socks E ss acc'
              else bindC (put_conn a (-1)) (\<lambda>_. bindC (fd_set s) (\<lambda>_. scan_socks E ss acc'))))))"

text \<open>What \<open>select\<close> returns: an error, or the ready sockets, which it leaves in the set.\<close>

datatype select_ev = Sel_err int | Sel "int set" "(accept_ev \<times> nat) list"

fun select_loop :: "env \<Rightarrow> select_ev list \<Rightarrow> (unit, pool) cmd" where
  "select_loop E [] = (\<lambda>p. Blocked p)"
| "select_loop E (Sel_err e # es) = bindC (on_sys (set_errno e)) (\<lambda>_. on_sys err_sys)"
| "select_loop E (Sel ready acc # es) =
     bindC (modify (\<lambda>p. p\<lparr>readfds := readfds p \<inter> ready\<rparr>)) (\<lambda>_.
     bindC (get (\<lambda>p. scan_socks E (serv_socks p) acc)) (\<lambda>_. select_loop E es))"

definition listening :: "int list \<Rightarrow> int set" where
  "listening ss = {s \<in> set ss. 0 \<le> s}"

definition start_server :: "env \<Rightarrow> select_ev list \<Rightarrow> (unit, pool) cmd" where
  "start_server E evs = block
     [modify (\<lambda>p. p\<lparr>readfds := listening (serv_socks p)\<rparr>), select_loop E evs]"

text \<open>
  \<open>for (int i = 1; i < argc - 1; i++)\<close>, with \<open>sock_num\<close> one less than \<open>i\<close>. The argument of
  \<open>createServerSocket\<close> is a \<open>uint16_t\<close>, so the number \<open>atoi\<close> reads is taken modulo 65536.
\<close>

fun open_ports :: "env \<Rightarrow> nat \<Rightarrow> string list \<Rightarrow> (unit, pool) cmd" where
  "open_ports E i [] = ret ()"
| "open_ports E i (a # as) =
     (if 32 \<le> i then on_sys err_sys
      else bindC (on_sys (createServerSocket E (word_of_int (atoi a)))) (\<lambda>fd.
        bindC (modify (\<lambda>p. p\<lparr>serv_socks := (serv_socks p)[i - 1 := fd]\<rparr>)) (\<lambda>_.
        open_ports E (Suc i) as)))"

text \<open>
  \<open>main\<close>, with the command line arguments after the program's name: ports, then the directory to
  serve.
\<close>

definition mp_main :: "env \<Rightarrow> string list \<Rightarrow> select_ev list \<Rightarrow> (unit, pool) cmd" where
  "mp_main E args evs =
     (if length args < 2 then (\<lambda>p. Exited 1 p)
      else with_atexit pool_exit_handler (block
        [on_sys (init_share_threads E),
         init_queue,
         modify (\<lambda>p. p\<lparr>serv_socks := replicate 32 (-1)\<rparr>),
         on_sys (check E (C_chdir (last args))),
         open_ports E 1 (butlast args),
         on_sys (start_threads N_THREADS 0),
         start_server E evs]))"

end
