(* ===== verification/Descriptors.thy ===== *)
theory Descriptors
  imports Scripts Servers
begin

text \<open>
  Which descriptors a process keeps: no handler closes a descriptor it did not open, the parent of
  \<open>multi_server.c\<close> ends every turn with the descriptors it began with, and a pool worker gains at
  least one with every connection it finishes.
\<close>

section \<open>Descriptors that stay open\<close>

definition holds :: "nat set \<Rightarrow> sys \<Rightarrow> bool" where
  "holds A s \<longleftrightarrow> A \<subseteq> set (fds s)"

lemma holds_simps [simp]:
  "holds A (s\<lparr>fds := fd # fds s\<rparr>) \<longleftrightarrow> A \<subseteq> insert fd (set (fds s))"
  by (simp add: holds_def)

lemma holds_frames: "frames fds c \<Longrightarrow> keeps (holds A) c"
  by (erule keeps_frames) (simp add: holds_def)

lemma fds_io_view [simp]: "fds (io_view s) = fds s"
  by (simp add: io_view_def)

lemma fds_script: "frames script_view c \<Longrightarrow> frames fds c"
  by (erule frames_script_view) (simp add: script_view_def)

lemma fds_sends: "frames fds (send_fmt d)" "frames fds (send_fmt_ret d)" "frames fds (c_send d)"
  "frames fds (set_errno e)" "frames fds sem_wait" "frames fds sem_post"
  unfolding set_errno_def
  by (intro frames_send_fmt frames_send_fmt_ret frames_c_send frames_modify frames_sem_wait frames_sem_post; simp)+

lemmas holds_sends = fds_sends [THEN holds_frames]

lemma holds_add_fd: "keeps (holds A) add_fd"
  by (rule keepsI) (auto simp: add_fd_apply holds_def)

text \<open>A descriptor that is opened and closed again.\<close>

lemma holds_temp:
  assumes "\<And>fd c. c \<in> set (xs fd) \<Longrightarrow> frames fds c"
  shows "keeps (holds A) (bindC add_fd (\<lambda>fd. block (xs fd @ [c_close fd])))"
proof (rule keepsI)
  fix s
  assume A: "holds A s"
  let ?fd = "fresh_fd (fds s)"
  let ?s = "s\<lparr>fds := ?fd # fds s\<rparr>"
  have nofd: "?fd \<notin> A" using A fresh_fd_fresh [of "fds s"] by (auto simp: holds_def)
  have xs: "frames fds (block (xs ?fd))" using assms by (intro frames_block) auto
  have "outcome_all (\<lambda>t. fds t = ?fd # fds s) (block (xs ?fd) ?s)"
    using xs [unfolded frames_def, rule_format, of ?s] by simp
  then have "outcome_all (holds A) (bindC (block (xs ?fd)) (\<lambda>_. block [c_close ?fd]) ?s)"
    using A nofd by (cases "block (xs ?fd) ?s") (auto simp: holds_def)
  then show "outcome_all (holds A) (bindC add_fd (\<lambda>fd. block (xs fd @ [c_close fd])) s)"
    by (simp add: add_fd_apply block_append)
qed

lemma fds_copy_loop: "frames fds (copy_loop es)"
proof (induction es rule: copy_loop.induct)
  case (2 es)
  show ?case unfolding copy_loop.simps by (rule frames_bind [OF fds_sends(4) 2])
next
  case (4 d es)
  then show ?case
    unfolding copy_loop.simps by (intro frames_if frames_ret frames_bind fds_sends)
qed (unfold copy_loop.simps, (rule fds_sends frames_ret)+)

lemma holds_pipe_read_v2: "keeps (holds A) (pipe_read_v2 E command)"
proof (cases "pipe_errno E = None \<and> (\<exists>pid. fork_res E = Inr pid)")
  case True
  then obtain pid where pid: "pipe_errno E = None" "fork_res E = Inr pid" by blast
  show ?thesis
    by (rule keepsI) (auto simp: pipe_read_v2_started [OF pid] script_started_def Let_def holds_def)
next
  case False
  then show ?thesis
    unfolding pipe_read_v2_def
    by (cases "pipe_errno E"; cases "fork_res E")
       (auto intro!: keeps_bind keeps_ret holds_add_fd holds_sends)
qed

context status_writer
begin

lemma fds_wc: "frames fds (wc code)"
  by (rule wc_frames) simp

lemma fds_response: "frames fds (response wc code reason msg)"
  unfolding response_def by (intro frames_block) (auto intro: fds_sends fds_wc)

lemma holds_req_parser: "keeps (holds A) (req_parser wc E)"
proof -
  have fail: "keeps (holds A) (block [set_errno e, response wc c r m])" for e c r m
    by (intro holds_frames frames_block) (auto intro: fds_sends fds_response)
  have path: "keeps (holds A) (bindC add_fd (\<lambda>fd. block [send_fmt h, wc 200, send_fmt CRLF, copy_loop es]))" for h es
    by (intro keeps_bind holds_add_fd holds_frames frames_block) (auto intro: fds_sends fds_wc fds_copy_loop)
  have cut: "keeps (holds A) (modify (\<lambda>s. s\<lparr>req_buf := q\<rparr>))" for q
    by (rule keeps_modify) (simp add: holds_def)
  show ?thesis
    unfolding req_parser_def Let_def
    by (intro keeps_get)
       (auto intro!: keeps_bind cut fail path fds_response [THEN holds_frames]
         simp del: block.simps split: prod.split option.split sum.split)
qed

lemma holds_ls_version_two: "keeps (holds A) (ls_version_two wc E path)"
proof (cases "open_dir E path")
  case (Inl e)
  have "keeps (holds A) (block [set_errno e, response wc 500 r m])" for r m
    by (intro holds_frames frames_block) (auto intro: fds_sends fds_response)
  then show ?thesis by (simp add: ls_version_two_def Inl del: block.simps)
next
  case (Inr entries)
  let ?xs = "[set_errno 0, send_fmt (''HTTP/1.1 '' @ dec_int 200 @ '' '' @ ''Ok'' @ CRLF), wc 200,
    send_fmt (''content-type: text/json; charset=UTF-8'' @ CRLF), send_fmt CRLF] @
    map (\<lambda>d. send_fmt (d @ [LF])) entries @ [send_fmt CRLF]"
  have "keeps (holds A) (bindC add_fd (\<lambda>fd. block (?xs @ [c_close fd])))"
    by (rule holds_temp) (auto intro: fds_sends fds_wc)
  then show ?thesis by (simp add: ls_version_two_def Inr del: block.simps)
qed

lemma holds_route_file: "keeps (holds A) (route_file (ls_version_two wc) (req_parser wc) E)"
proof -
  have "keeps (holds A) (is_dir E p)" for p
    unfolding is_dir_def
    by (cases "stat_isdir E p") (auto intro!: keeps_bind keeps_ret holds_sends)
  then show ?thesis
    unfolding route_file_def Let_def
    by (intro keeps_get keeps_bind keeps_if holds_req_parser holds_ls_version_two)
qed

lemma holds_handle_bash: "keeps (holds A) (handle_bash wc E output command)"
proof -
  have "keeps (holds A) (if fd = -1 then response wc 500 ''Ok'' (Some ''command running error'')
       else bindC (send_fmt_ret h) (\<lambda>r1. get (\<lambda>s1. if r1 = -1 \<and> errno s1 = EPIPE
         then handle_bash_stop_child_process_group pid
         else bindC (wc 200) (\<lambda>_. bash_rest output pid))))" for fd pid h
    by (intro keeps_if keeps_bind keeps_get holds_frames fds_response fds_sends fds_wc
         fds_script script_stop script_bash_rest)
  then show ?thesis
    unfolding handle_bash_unfold by (intro keeps_bind holds_pipe_read_v2) (simp only: split_beta)
qed

end

lemma fds_read_requests: "frames fds read_requests" "frames fds read_requests_locked"
proof -
  show r: "frames fds read_requests"
    unfolding read_requests_def
    by (intro frames_get) (auto intro: frames_ret frames_faulting split: shm_ptr.split)
  show "frames fds read_requests_locked"
    unfolding read_requests_locked_def by (intro frames_bind r fds_sends frames_ret)
qed

lemma holds_serve_request:
  assumes "\<And>code reason msg. frames fds (resp code reason msg)" and "keeps (holds A) route"
  shows "keeps (holds A) (serve_request (read_request_line resp) resp route)"
proof -
  have "frames fds (read_request_line resp)"
    unfolding read_request_line_def
    by (intro frames_get)
       (auto intro!: frames_bind frames_modify assms(1) frames_ret frames_faulting
         split: prod.split rl_exit.split)
  then show ?thesis
    unfolding serve_request_def
    by (intro keeps_bind keeps_get keeps_if keeps_ret assms(2) holds_frames assms(1))
qed

section \<open>The pool workers\<close>

lemma holds_pf_route: "keeps (holds A) (pf_route E output)"
  unfolding pf_route_def Let_def ms_program
  by (intro keeps_get keeps_if keeps_bind fds_read_requests [THEN holds_frames]
       ms.fds_response [THEN holds_frames] ms.holds_handle_bash ms.holds_route_file)

lemma holds_pf_do_call: "keeps (holds A) (pf_do_call E output connfd)"
proof -
  have "keeps (holds A) (serve_request ms_read_request_line ms_response (pf_route E output))"
    unfolding ms_read_request_line_def
    by (rule holds_serve_request [OF _ holds_pf_route]) (simp only: ms_response_def ms.fds_response)
  then show ?thesis
    unfolding pf_do_call_def block.simps calloc_buffers_def c_shutdown_def
    by (intro keeps_bind keeps_modify keeps_ret) (simp_all add: holds_def)
qed

lemma replies_pf_do_call: "frames replies (pf_do_call E output connfd)"
  unfolding pf_do_call_def block.simps calloc_buffers_def c_shutdown_def process_copies
  by (intro frames_bind frames_modify frames_ret frames_outside [OF outside_pf_serve(1)];
      simp add: outside_def)

text \<open>Open descriptors against finished connections.\<close>

definition gained :: "nat \<Rightarrow> sys \<Rightarrow> bool" where
  "gained n s \<longleftrightarrow> n + length (replies s) \<le> card (set (fds s))"

lemma gained_le: "gained m s \<Longrightarrow> n \<le> m \<Longrightarrow> gained n s"
  by (simp add: gained_def)

lemma gained_call:
  assumes "\<And>A. keeps (holds A) c" and "frames replies c"
  shows "keeps (gained n) c"
proof (rule keepsI)
  fix s
  assume g: "gained n s"
  have "outcome_all (holds (set (fds s))) (c s)"
    using keepsD [OF assms(1) [of "set (fds s)"], of s] by (simp add: holds_def)
  moreover have "outcome_all (\<lambda>t. replies t = replies s) (c s)"
    using assms(2) by (simp add: frames_def)
  moreover have "gained n t" if "holds (set (fds s)) t" "replies t = replies s" for t
    using g that card_mono [of "set (fds t)" "set (fds s)"] by (simp add: gained_def holds_def)
  ultimately show "outcome_all (gained n) (c s)" by (cases "c s") auto
qed

lemma pool_turn_gains:
  assumes "\<And>A. keeps (holds A) call" and "frames replies call" and "gained (Suc n) s"
  shows "outcome_all (gained n) (block [take_conn c, call, end_conn fd] s)"
proof -
  let ?t = "s\<lparr>rx := conn_bytes c, sendq := conn_sendq c, tx := []\<rparr>"
  have "gained (Suc n) ?t" using assms(3) by (simp add: gained_def)
  then have "outcome_all (gained (Suc n)) (call ?t)"
    by (rule keepsD [OF gained_call [OF assms(1,2)]])
  then have "outcome_all (gained n) (bindC call (\<lambda>_. bindC (end_conn fd) (\<lambda>_. ret ())) ?t)"
    by (cases "call ?t") (auto simp: end_conn_def gained_def)
  then show ?thesis by (simp add: take_conn_def)
qed

lemma pool_loop_gains:
  assumes "\<And>out fd A. keeps (holds A) (call E out fd)" and "\<And>out fd. frames replies (call E out fd)"
    and "gained n s"
  shows "outcome_all (gained n) (pool_loop call E evs s)"
  using assms(3)
proof (induction evs arbitrary: s)
  case Nil
  then show ?case by simp
next
  case (Cons ev evs)
  obtain a out where ev: "ev = (a, out)" by (cases ev)
  show ?case
  proof (cases a)
    case (Acc_err e)
    then show ?thesis
      using Cons.IH [of "s\<lparr>errno := e\<rparr>"] Cons.prems ev by (auto simp: err_sys_def gained_def)
  next
    case (Acc c)
    let ?fd = "fresh_fd (fds s)"
    let ?s = "s\<lparr>fds := ?fd # fds s\<rparr>"
    let ?turn = "block [take_conn c, call E out ?fd, end_conn ?fd]"
    have "gained (Suc n) ?s" using Cons.prems fresh_fd_fresh [of "fds s"] by (simp add: gained_def)
    then have turn: "outcome_all (gained n) (?turn ?s)"
      by (rule pool_turn_gains [OF assms(1,2)])
    then have "outcome_all (gained n) (bindC ?turn (\<lambda>_. pool_loop call E evs) ?s)"
      by (rule outcome_all_bind) (use turn Cons.IH in auto)
    then show ?thesis by (simp add: ev Acc add_fd_apply del: block.simps)
  qed
qed

section \<open>The parent of multi_server.c\<close>

text \<open>Runs of the loop in which every \<open>fork\<close> is seen by the parent.\<close>

definition parent_only :: "(accept_ev \<times> fork_ev \<times> bash_ev list) list \<Rightarrow> bool" where
  "parent_only evs \<longleftrightarrow> list_all (\<lambda>(a, f, out). case f of F_parent pid \<Rightarrow> True | _ \<Rightarrow> False) evs"

lemma ms_parent_fds:
  "parent_only evs \<Longrightarrow> outcome_all (\<lambda>s'. fds s' = fds s) (ms_accept_loop E serverfd evs s)"
proof (induction E serverfd evs arbitrary: s rule: ms_accept_loop.induct)
  case (2 E serverfd e uu uv es)
  then show ?case using 2(1) [of "s\<lparr>errno := e\<rparr>"] by (auto simp: err_sys_def parent_only_def)
next
  case (3 E serverfd c f out es)
  then obtain pid where f: "f = F_parent pid" by (auto simp: parent_only_def split: fork_ev.splits)
  let ?t = "s\<lparr>calls := calls s @ [C_fork]\<rparr>"
  have "outcome_all (\<lambda>s'. fds s' = fds ?t) (ms_accept_loop E serverfd es ?t)"
    by (rule 3(1)) (use 3(2) f in \<open>auto simp: parent_only_def\<close>)
  then show ?case
    using fresh_fd_fresh [of "fds s"] by (simp add: f add_fd_apply log_call_def)
qed auto

end
