(* ===== verification/Server_Facts.thy ===== *)
theory Server_Facts
  imports Thread_Servers Descriptors
begin

text \<open>
  Facts about the programs around the handlers: the order of the socket calls and what follows when
  one fails, the reporter of SIGUSR1, the set-up of the shared memory, the hand-over of accepted
  connections to the queue, and the socket set of the multiple-ports server.
\<close>

section \<open>Opening the listening socket\<close>

lemma check_simps:
  "0 \<le> call_fd c \<Longrightarrow> fails E c = None \<Longrightarrow> check E c s = Ret () (s\<lparr>calls := calls s @ [c]\<rparr>)"
  "0 \<le> call_fd c \<Longrightarrow> fails E c = Some e \<Longrightarrow> check E c s = Exited (-1) (s\<lparr>calls := calls s @ [c], errno := e\<rparr>)"
  "call_fd c < 0 \<Longrightarrow> check E c s = Exited (-1) (s\<lparr>calls := calls s @ [c], errno := EBADF\<rparr>)"
  by (simp_all add: check_def syscall_def err_sys_def Let_def bindC_def)

definition listen_calls :: "int \<Rightarrow> sockopt \<Rightarrow> 16 word \<Rightarrow> int \<Rightarrow> sys_call list" where
  "listen_calls fd opt port backlog = [C_setsockopt fd opt, C_bind fd port, C_listen fd backlog]"

lemma bind_listen_ok:
  assumes "0 \<le> fd" and "\<forall>c \<in> set (listen_calls fd opt port backlog). fails E c = None"
  shows "bind_listen E fd opt port backlog s = Ret () (s\<lparr>calls := calls s @ listen_calls fd opt port backlog\<rparr>)"
  using assms by (simp add: bind_listen_def listen_calls_def check_simps)

lemma bind_listen_fails:
  assumes "fd < 0 \<or> (\<exists>c \<in> set (listen_calls fd opt port backlog). fails E c \<noteq> None)"
  shows "\<exists>s'. bind_listen E fd opt port backlog s = Exited (-1) s'"
proof (cases "fd < 0")
  case True
  then show ?thesis by (simp add: bind_listen_def check_simps)
next
  case False
  let ?o = "C_setsockopt fd opt" and ?b = "C_bind fd port" and ?l = "C_listen fd backlog"
  from assms False consider e where "fails E ?o = Some e"
    | e where "fails E ?o = None" "fails E ?b = Some e"
    | e where "fails E ?o = None" "fails E ?b = None" "fails E ?l = Some e"
    by (fastforce simp: listen_calls_def)
  then show ?thesis
    using False by cases (simp_all add: bind_listen_def check_simps)
qed

definition socket_calls :: "sys \<Rightarrow> sockopt \<Rightarrow> 16 word \<Rightarrow> int \<Rightarrow> sys_call list" where
  "socket_calls s opt port backlog = C_socket # listen_calls (int (fresh_fd (fds s))) opt port backlog"

lemma create_socket_cases:
  "fails E C_socket = None \<Longrightarrow> create_socket E s =
     Ret (int (fresh_fd (fds s))) (s\<lparr>calls := calls s @ [C_socket], fds := fresh_fd (fds s) # fds s\<rparr>)"
  "fails E C_socket = Some e \<Longrightarrow> create_socket E s = Ret (-1) (s\<lparr>calls := calls s @ [C_socket], errno := e\<rparr>)"
  by (simp_all add: create_socket_def syscall_def Let_def add_fd_apply bindC_def ret_def)

lemma open_listener_ok:
  assumes "\<forall>c \<in> set (socket_calls s opt port backlog). fails E c = None"
  shows "open_listener E opt port backlog s = Ret (int (fresh_fd (fds s)))
    (s\<lparr>calls := calls s @ socket_calls s opt port backlog, fds := fresh_fd (fds s) # fds s\<rparr>)"
  using assms by (simp add: open_listener_def create_socket_cases socket_calls_def bind_listen_ok)

text \<open>The first call that fails ends the program; the calls before it have been made, none after it.\<close>

lemma open_listener_stops:
  assumes "socket_calls s opt port backlog = xs @ c # ys" and "\<forall>d \<in> set xs. fails E d = None" and "fails E c = Some e"
  shows "\<exists>s'. open_listener E opt port backlog s = Exited (-1) s' \<and> calls s' = calls s @ xs @ [c] \<and> errno s' = e"
proof -
  let ?fd = "int (fresh_fd (fds s))"
  consider "xs = []" "c = C_socket" | "xs = [C_socket]" "c = C_setsockopt ?fd opt"
    | "xs = [C_socket, C_setsockopt ?fd opt]" "c = C_bind ?fd port"
    | "xs = [C_socket, C_setsockopt ?fd opt, C_bind ?fd port]" "c = C_listen ?fd backlog"
    using assms(1) by (auto simp: socket_calls_def listen_calls_def Cons_eq_append_conv)
  then show ?thesis
    using assms(2,3)
    by cases (auto simp: open_listener_def create_socket_cases bind_listen_def check_def syscall_def Let_def err_sys_def bindC_def)
qed

text \<open>\<open>createServerSocket\<close> does not test the result of \<open>socket\<close>, but what follows fails on -1.\<close>

lemma createServerSocket_cases:
  shows "\<forall>c \<in> set (socket_calls s SO_REUSEADDR port 20). fails E c = None \<Longrightarrow>
      createServerSocket E port s = Ret (int (fresh_fd (fds s)))
        (s\<lparr>calls := calls s @ socket_calls s SO_REUSEADDR port 20, fds := fresh_fd (fds s) # fds s\<rparr>)"
    and "\<exists>c \<in> set (socket_calls s SO_REUSEADDR port 20). fails E c \<noteq> None \<Longrightarrow>
      \<exists>s'. createServerSocket E port s = Exited (-1) s'"
proof -
  assume ok: "\<forall>c \<in> set (socket_calls s SO_REUSEADDR port 20). fails E c = None"
  then show "createServerSocket E port s = Ret (int (fresh_fd (fds s)))
        (s\<lparr>calls := calls s @ socket_calls s SO_REUSEADDR port 20, fds := fresh_fd (fds s) # fds s\<rparr>)"
    by (simp add: createServerSocket_def create_socket_cases socket_calls_def bind_listen_ok)
next
  assume bad: "\<exists>c \<in> set (socket_calls s SO_REUSEADDR port 20). fails E c \<noteq> None"
  show "\<exists>s'. createServerSocket E port s = Exited (-1) s'"
  proof (cases "fails E C_socket")
    case None
    let ?t = "s\<lparr>calls := calls s @ [C_socket], fds := fresh_fd (fds s) # fds s\<rparr>"
    obtain s' where "bind_listen E (int (fresh_fd (fds s))) SO_REUSEADDR port 20 ?t = Exited (-1) s'"
      using bind_listen_fails [of "int (fresh_fd (fds s))" SO_REUSEADDR port 20 E ?t] bad None
      by (auto simp: socket_calls_def)
    then show ?thesis by (simp add: createServerSocket_def create_socket_cases None)
  next
    case (Some e)
    let ?t = "s\<lparr>calls := calls s @ [C_socket], errno := e\<rparr>"
    obtain s' where "bind_listen E (-1) SO_REUSEADDR port 20 ?t = Exited (-1) s'"
      using bind_listen_fails [of "-1" SO_REUSEADDR port 20 E ?t] by auto
    then show ?thesis by (simp add: createServerSocket_def create_socket_cases Some)
  qed
qed

section \<open>The reporter of SIGUSR1\<close>

lemma siguser1_loop_prints:
  assumes "share_address s = P_segment" and "0 < sem s" and "user1_sem s = n"
  shows "siguser1_loop n s = Blocked (s\<lparr>user1_sem := 0, printed := printed s @ replicate n (requests (shm s))\<rparr>)"
  using assms
proof (induction n arbitrary: s)
  case 0
  then show ?case by simp
next
  case (Suc n)
  obtain k where k: "sem s = Suc k" using Suc.prems(2) gr0_conv_Suc by blast
  have "read_requests_locked (s\<lparr>user1_sem := n\<rparr>) = Ret (requests (shm s)) (s\<lparr>user1_sem := n\<rparr>)"
    using Suc.prems(1) k by (simp add: read_requests_locked_def read_requests_def)
  then show ?case
    using Suc.IH [of "s\<lparr>user1_sem := n, printed := printed s @ [requests (shm s)]\<rparr>"] Suc.prems by simp
qed

text \<open>A signal that arrives adds one post, whatever the process is doing.\<close>

lemma siguser1_posts: "user1_sem ((siguser1_signo_handler ^^ k) s) = user1_sem s + k"
  by (induction k) (simp_all add: siguser1_signo_handler_def)

section \<open>Handing connections to the queue\<close>

lemma queue_put_dom: "queue_put a x q = Some q' \<Longrightarrow> dom (heap q') = insert a (dom (heap q))"
  by (auto simp: queue_put_def queue_put_link_def queue_put_alloc_def split: if_splits option.splits)

text \<open>The addresses that \<open>calloc\<close> returns one after the other.\<close>

definition addresses_ok :: "queue \<Rightarrow> nat list \<Rightarrow> bool" where
  "addresses_ok q as \<longleftrightarrow> distinct as \<and> 0 \<notin> set as \<and> set as \<inter> dom (heap q) = {}"

lemma put_conn_ok:
  assumes "queue_inv (pque p)" and "addresses_ok (pque p) (a # as)" and "length (contents (pque p)) < 2 ^ 32 - 1"
  shows "\<exists>q. put_conn a x p = Ret () (p\<lparr>pque := q\<rparr>) \<and> queue_inv q \<and>
    contents q = contents (pque p) @ [x] \<and> addresses_ok q as"
proof -
  have "fresh_addr (pque p) a" using assms(2) by (auto simp: addresses_ok_def fresh_addr_def)
  then obtain q where q: "queue_put a x (pque p) = Some q" "queue_inv q" "contents q = contents (pque p) @ [x]"
    using cq.put_ok [OF assms(1) _ assms(3)] by blast
  moreover have "addresses_ok q as"
    using assms(2) queue_put_dom [OF q(1)] by (auto simp: addresses_ok_def)
  ultimately show ?thesis by (intro exI [of _ q]) (simp add: put_conn_def)
qed

text \<open>
  The accepting thread of the queue server: with no failing call every connection gets a descriptor
  of its own and is queued in the order of arrival.
\<close>

lemma bq_accept_loop_queues:
  assumes "queue_inv (pque p)" and "addresses_ok (pque p) (map snd evs)"
    and "length (contents (pque p)) + length evs < 2 ^ 32"
    and "list_all (\<lambda>(e, a). case e of Acc c \<Rightarrow> True | Acc_err e \<Rightarrow> e = EINTR) evs"
  shows "\<exists>p' conns. bq_accept_loop E evs p = Blocked p' \<and> queue_inv (pque p') \<and>
    contents (pque p') = contents (pque p) @ map int conns \<and>
    fds (psys p') = rev conns @ fds (psys p) \<and> distinct conns \<and> set conns \<inter> set (fds (psys p)) = {} \<and>
    length conns = length (filter (\<lambda>(e, a). case e of Acc c \<Rightarrow> True | Acc_err e \<Rightarrow> False) evs)"
  using assms
proof (induction evs arbitrary: p)
  case Nil
  then show ?case by (intro exI [of _ p] exI [of _ "[]"]) simp
next
  case (Cons ev evs)
  obtain e a where ev: "ev = (e, a)" by (cases ev)
  show ?case
  proof (cases e)
    case (Acc_err n)
    then have n: "n = EINTR" using Cons.prems(4) ev by simp
    let ?p = "p\<lparr>psys := psys p\<lparr>errno := n\<rparr>\<rparr>"
    have "addresses_ok (pque p) (map snd evs)" using Cons.prems(2) ev by (simp add: addresses_ok_def)
    then show ?thesis
      using Cons.IH [of ?p] Cons.prems ev Acc_err n by (simp add: on_sys_def)
  next
    case (Acc c)
    define fd where "fd = fresh_fd (fds (psys p))"
    have nofd: "fd \<notin> set (fds (psys p))" unfolding fd_def by (rule fresh_fd_fresh)
    let ?p = "p\<lparr>psys := psys p\<lparr>fds := fd # fds (psys p)\<rparr>\<rparr>"
    have add: "on_sys add_fd p = Ret fd ?p" by (simp add: on_sys_def add_fd_apply fd_def)
    obtain q where q: "put_conn a (int fd) ?p = Ret () (?p\<lparr>pque := q\<rparr>)" "queue_inv q"
        "contents q = contents (pque p) @ [int fd]" "addresses_ok q (map snd evs)"
      using put_conn_ok [of ?p a "map snd evs" "int fd"] Cons.prems ev by auto
    let ?r = "?p\<lparr>pque := q\<rparr>"
    obtain p' conns where IH: "bq_accept_loop E evs ?r = Blocked p'" "queue_inv (pque p')"
        "contents (pque p') = contents q @ map int conns" "fds (psys p') = rev conns @ fd # fds (psys p)"
        "distinct conns" "set conns \<inter> set (fd # fds (psys p)) = {}"
        "length conns = length (filter (\<lambda>(e, a). case e of Acc c \<Rightarrow> True | Acc_err e \<Rightarrow> False) evs)"
      using Cons.IH [of ?r] q Cons.prems ev by auto
    show ?thesis
      by (intro exI [of _ p'] exI [of _ "fd # conns"])
         (use IH q(3) nofd add q(1) ev Acc in auto)
  qed
qed

section \<open>The socket set of the multiple-ports server\<close>

lemma put_conn_frame: "put_conn a x p = Ret u p' \<Longrightarrow>
  serv_socks p' = serv_socks p \<and> readfds p' = readfds p \<and> psys p' = psys p"
  by (auto simp: put_conn_def split: option.splits)

lemma on_sys_frame: "on_sys c p = Ret a p' \<Longrightarrow>
  serv_socks p' = serv_socks p \<and> readfds p' = readfds p \<and> pque p' = pque p"
  by (auto simp: on_sys_def split: outcome.splits)

lemma fd_set_apply [simp]: "fd_set s p = Ret () (p\<lparr>readfds := insert s (readfds p)\<rparr>)"
  by (simp add: fd_set_def)

lemma scan_socks_readfds:
  "scan_socks E ss acc p = Ret () p' \<Longrightarrow>
     serv_socks p' = serv_socks p \<and> readfds p' = readfds p \<union> listening ss"
proof (induction ss arbitrary: acc p)
  case Nil
  then show ?case by (simp add: listening_def)
next
  case (Cons s ss)
  have step: "serv_socks p' = serv_socks p \<and> readfds p' = readfds p \<union> listening (s # ss)"
    if "scan_socks E ss acc' q = Ret () p'" "serv_socks q = serv_socks p"
      "readfds q = readfds p \<union> {t. t = s \<and> 0 \<le> s}" for acc' q
    using Cons.IH [OF that(1)] that(2,3) by (auto simp: listening_def)
  show ?case
  proof (cases "s < 0")
    case True
    then show ?thesis using Cons.prems step [of acc p] by simp
  next
    case pos: False
    show ?thesis
    proof (cases "s \<in> readfds p")
      case False
      then show ?thesis using Cons.prems pos step [of acc] by simp
    next
      case inset: True
      then obtain e a acc' where acc: "acc = (e, a) # acc'"
        using Cons.prems pos by (cases acc) auto
      show ?thesis
      proof (cases e)
        case (Acc c)
        then obtain fd q r where "on_sys add_fd p = Ret fd q" "put_conn a (int fd) q = Ret () r"
            "scan_socks E ss acc' (r\<lparr>readfds := insert s (readfds r)\<rparr>) = Ret () p'"
          using Cons.prems pos inset acc by (auto simp: bindC_Ret_iff)
        then show ?thesis
          using step pos inset on_sys_frame [of add_fd p fd q] put_conn_frame [of a "int fd" q "()" r] by auto
      next
        case (Acc_err n)
        obtain q where q: "on_sys (set_errno n) p = Ret () q" by (simp add: on_sys_def)
        note fq = on_sys_frame [OF q]
        show ?thesis
        proof (cases "n = EINTR")
          case True
          then have "scan_socks E ss acc' q = Ret () p'"
            using Cons.prems pos inset acc Acc_err q by simp
          then show ?thesis using step fq inset pos by auto
        next
          case False
          then obtain r where "put_conn a (-1) q = Ret () r"
              "scan_socks E ss acc' (r\<lparr>readfds := insert s (readfds r)\<rparr>) = Ret () p'"
            using Cons.prems pos inset acc Acc_err q by (auto simp: bindC_Ret_iff)
          then show ?thesis using step fq inset pos put_conn_frame [of a "-1" q "()" r] by auto
        qed
      qed
    qed
  qed
qed

text \<open>
  One turn of the loop of \<open>start_server\<close>: \<open>select\<close> leaves the ready sockets in the set, and after the
  scan all listening sockets are watched again.
\<close>

lemma select_round:
  assumes "readfds p = listening (serv_socks p)"
    and "scan_socks E (serv_socks p) acc (p\<lparr>readfds := readfds p \<inter> rdy\<rparr>) = Ret () p'"
  shows "select_loop E (Sel rdy acc # es) p = select_loop E es p'"
    and "serv_socks p' = serv_socks p" and "readfds p' = listening (serv_socks p')"
  using scan_socks_readfds [OF assms(2)] assms by auto

section \<open>The ports of the multiple-ports server\<close>

lemma createServerSocket_Ret:
  assumes "createServerSocket E port s = Ret fd s'"
  shows "fd = int (fresh_fd (fds s)) \<and> fds s' = nat fd # fds s \<and>
    calls s' = calls s @ [C_socket, C_setsockopt fd SO_REUSEADDR, C_bind fd port, C_listen fd 20]"
proof (cases "\<forall>c \<in> set (socket_calls s SO_REUSEADDR port 20). fails E c = None")
  case True
  then show ?thesis
    using assms createServerSocket_cases(1) [OF True] by (auto simp: socket_calls_def listen_calls_def)
next
  case False
  then show ?thesis using assms createServerSocket_cases(2) [of s port E] by auto
qed

text \<open>
  A successful run: at most 31 ports, one listening socket for each, in order, bound to the low 16
  bits of the number in the argument.
\<close>

lemma open_ports_Ret:
  assumes "open_ports E i args p = Ret () p'" and "1 \<le> i" and "length (serv_socks p) = 32"
  shows "i + length args \<le> 32 \<or> args = []" (is ?len)
    and "length (serv_socks p') = 32 \<and>
      (\<forall>k < length args. 0 \<le> serv_socks p' ! (i - 1 + k) \<and>
        C_bind (serv_socks p' ! (i - 1 + k)) (word_of_int (atoi (args ! k))) \<in> set (calls (psys p'))) \<and>
      (\<forall>k. k < i - 1 \<or> i - 1 + length args \<le> k \<longrightarrow> serv_socks p' ! k = serv_socks p ! k) \<and>
      set (calls (psys p)) \<subseteq> set (calls (psys p'))" (is ?socks)
proof -
  have "?len \<and> ?socks" using assms
  proof (induction args arbitrary: i p)
    case Nil
    then show ?case by simp
  next
    case (Cons a args)
    then have i: "i < 32" by (auto simp: on_sys_def err_sys_def split: if_splits)
    obtain fd q where q: "on_sys (createServerSocket E (word_of_int (atoi a))) p = Ret fd q"
        "open_ports E (Suc i) args (q\<lparr>serv_socks := (serv_socks q)[i - 1 := fd]\<rparr>) = Ret () p'"
      using Cons.prems(1) i by (auto simp: bindC_Ret_iff)
    have q1: "createServerSocket E (word_of_int (atoi a)) (psys p) = Ret fd (psys q)" "serv_socks q = serv_socks p"
      using q(1) by (auto simp: on_sys_def split: outcome.splits)
    note cs = createServerSocket_Ret [OF q1(1)]
    let ?r = "q\<lparr>serv_socks := (serv_socks q)[i - 1 := fd]\<rparr>"
    have IH: "Suc i + length args \<le> 32 \<or> args = []"
      "length (serv_socks p') = 32 \<and>
      (\<forall>k < length args. 0 \<le> serv_socks p' ! (Suc i - 1 + k) \<and>
        C_bind (serv_socks p' ! (Suc i - 1 + k)) (word_of_int (atoi (args ! k))) \<in> set (calls (psys p'))) \<and>
      (\<forall>k. k < Suc i - 1 \<or> Suc i - 1 + length args \<le> k \<longrightarrow> serv_socks p' ! k = serv_socks ?r ! k) \<and>
      set (calls (psys ?r)) \<subseteq> set (calls (psys p'))"
      using Cons.IH [OF q(2)] Cons.prems(2,3) q1(2) by auto
    have here: "serv_socks p' ! (i - 1) = fd"
      using IH(2) Cons.prems(2,3) i q1(2) by simp
    have bind: "C_bind fd (word_of_int (atoi a)) \<in> set (calls (psys p'))"
      using IH(2) cs by auto
    show ?case
    proof (intro conjI allI impI)
      show "i + length (a # args) \<le> 32 \<or> a # args = []" using IH(1) i by auto
      show "length (serv_socks p') = 32" using IH(2) by simp
      show "set (calls (psys p)) \<subseteq> set (calls (psys p'))" using IH(2) cs by auto
    next
      fix k
      assume k: "k < length (a # args)"
      show "0 \<le> serv_socks p' ! (i - 1 + k)"
        using IH(2) here cs k Cons.prems(2) by (cases k) auto
      show "C_bind (serv_socks p' ! (i - 1 + k)) (word_of_int (atoi ((a # args) ! k))) \<in> set (calls (psys p'))"
        using IH(2) here bind k Cons.prems(2) by (cases k) auto
    next
      fix k
      assume "k < i - 1 \<or> i - 1 + length (a # args) \<le> k"
      then show "serv_socks p' ! k = serv_socks p ! k"
        using IH(2) Cons.prems(2) q1(2) by auto
    qed
  qed
  then show ?len ?socks by blast+
qed

section \<open>Shared memory set-up\<close>

text \<open>What \<open>multi_server.c\<close> has done when it starts to serve.\<close>

definition ms_started :: "env \<Rightarrow> int \<Rightarrow> sys \<Rightarrow> sys" where
  "ms_started E i s = s\<lparr>shm_id := i, shm := init_statistics,
     sem_exists := (is_linux E \<and> sem_exists s), user1_exists := True, user1_sem := 0,
     calls := calls s @ [C_fork]\<rparr>"

lemma ms_main_starts:
  assumes "ftok_ok E" "shmget_res E = Some i" "shmat_ok E" "sem_open_ok E"
  shows "ms_main E (F_parent pid) evs s = bindC (ms_server E 2346 evs) (\<lambda>_ s. Exited 0 s) (ms_started E i s)"
  using assms
  by (simp add: ms_main_def init_share_def unlink_shm_sem_def unlink_user1_sem_def open_user1_sem_def
        log_call_def ms_started_def bindC_assoc) (simp add: bindC_def split: outcome.split)

lemma open_shm_sem_apply: "open_shm_sem s = Ret () (if sem_exists s then s else s\<lparr>sem_exists := True, sem := 1\<rparr>)"
  by (simp add: open_shm_sem_def)

end
