(* ===== verification/Single_Server.thy ===== *)
theory Single_Server
  imports Servers Replies
begin

text \<open>
  \<open>server.c\<close>: the first version of the server, one detached thread per connection, without the
  statistics, the listings and the shell. Its \<open>read_request_line\<close> and \<open>parse_version\<close> are the text
  that Http models; \<open>parse_method\<close>, \<open>response\<close> and \<open>parse_uri\<close> differ from the other programs.
\<close>

section \<open>parse_method\<close>

text \<open>
  The \<open>goto unsupport\<close> form: \<open>None\<close> is the jump (or the \<open>default\<close> of the \<open>switch\<close>), after which
  the method is set to \<open>OTHER\<close>.
\<close>

definition method_switch :: "buffer \<Rightarrow> http_method option" where
  "method_switch buff =
     (let first_char = buff 0
      in if first_char = CHR ''G'' then
           (if strncasecmp ''GET'' (cstr buff 0 BUFFSIZE) 3 = 0 then Some GET else None)
         else if first_char = CHR ''P'' then
           (if strncasecmp ''POST'' (cstr buff 0 BUFFSIZE) 3 = 0 then Some POST else None)
         else None)"

definition srv_parse_method :: "buffer \<Rightarrow> nat \<Rightarrow> http_method" where
  "srv_parse_method buff n = (case method_switch buff of Some m \<Rightarrow> m | None \<Rightarrow> OTHER)"

lemma srv_parse_method_same: "srv_parse_method buff n = parse_method buff n"
  by (simp add: srv_parse_method_def method_switch_def parse_method_def Let_def)

section \<open>response\<close>

text \<open>One \<open>CRLF\<close> more than the other programs send, and nothing is counted.\<close>

definition srv_response :: "int \<Rightarrow> string \<Rightarrow> string option \<Rightarrow> (unit, sys) cmd" where
  "srv_response status_code reason_phrase message = block
     [send_fmt (''HTTP/1.1 '' @ dec_int status_code @ '' '' @ reason_phrase @ CRLF),
      send_fmt (''Content-Type: text/html; charset=utf-8'' @ CRLF),
      send_fmt CRLF,
      send_fmt (fmt_s message @ CRLF),
      send_fmt CRLF]"

definition srv_read_request_line :: "(int, sys) cmd" where
  "srv_read_request_line = read_request_line srv_response"

section \<open>parse_uri\<close>

text \<open>The result says whether the loop was left at end of file; an error returns from \<open>parse_uri\<close>.\<close>

fun srv_copy_loop :: "read_ev list \<Rightarrow> (bool, sys) cmd" where
  "srv_copy_loop [] = ret True"
| "srv_copy_loop (Rd_intr # es) = bindC (set_errno EINTR) (\<lambda>_. srv_copy_loop es)"
| "srv_copy_loop (Rd_err e # es) =
     bindC (set_errno e) (\<lambda>_. if e = EINTR then srv_copy_loop es else ret False)"
| "srv_copy_loop (Rd d # es) =
     (if d = [] then ret True else bindC (c_send d) (\<lambda>_. srv_copy_loop es))"

definition parse_uri :: "env \<Rightarrow> (unit, sys) cmd" where
  "parse_uri E = get (\<lambda>s0.
     case cut_query (req_buf s0) of (i, q) \<Rightarrow>
       bindC (modify (\<lambda>s. s\<lparr>req_buf := q\<rparr>)) (\<lambda>_.
         if i > 0 then
           (case open_rdonly E (uri_at q 1) of
              Inl e \<Rightarrow> block [set_errno e, srv_response 404 ''Not found'' (Some (strerror E e))]
            | Inr contents \<Rightarrow>
                bindC add_fd (\<lambda>fd. block
                  [send_fmt (''HTTP/1.1 '' @ dec_int 200 @ '' '' @ ''Ok'' @ CRLF),
                   send_fmt CRLF,
                   send_fmt CRLF,
                   bindC (srv_copy_loop contents) (\<lambda>eof.
                     if eof then block [send_fmt CRLF, send_fmt CRLF] else ret ())]))
         else srv_response 200 ''Ok'' None))"

section \<open>accept_request, server and main\<close>

definition accept_request :: "env \<Rightarrow> nat \<Rightarrow> (unit, sys) cmd" where
  "accept_request E connfd = block
     [calloc_buffers,
      bindC srv_read_request_line (\<lambda>r.
        if r = IS_ERROR then ret ()
        else get (\<lambda>s.
          if meth (req_buf s) \<noteq> GET then srv_response 405 ''Method Not Allowed'' None
          else if major (version (req_buf s)) = -1 \<or> major (version (req_buf s)) = -1 then
            srv_response 505 ''HTTP Version Not Supported'' None
          else parse_uri E)),
      c_shutdown connfd SHUT_RDWR]"

fun srv_accept_loop :: "env \<Rightarrow> accept_ev list \<Rightarrow> (unit, sys) cmd" where
  "srv_accept_loop E [] = (\<lambda>s. Blocked s)"
| "srv_accept_loop E (Acc_err e # es) =
     bindC (set_errno e) (\<lambda>_. if e = EINTR then srv_accept_loop E es else err_sys)"
| "srv_accept_loop E (Acc c # es) =
     bindC add_fd (\<lambda>connfd. bindC (log_call (C_pthread_create connfd)) (\<lambda>_. srv_accept_loop E es))"

definition srv_server :: "env \<Rightarrow> 16 word \<Rightarrow> accept_ev list \<Rightarrow> (unit, sys) cmd" where
  "srv_server E port evs =
     bindC (open_listener E SO_REUSEADDR port 0) (\<lambda>_. srv_accept_loop E evs)"

definition SERVER_PORT :: "16 word" where "SERVER_PORT = 7087"

definition srv_main :: "env \<Rightarrow> accept_ev list \<Rightarrow> (unit, sys) cmd" where
  "srv_main E evs = bindC (srv_server E SERVER_PORT evs) (\<lambda>_ s. Exited 0 s)"

section \<open>What a client receives\<close>

definition srv_reply_bytes :: "int \<Rightarrow> string \<Rightarrow> string option \<Rightarrow> string" where
  "srv_reply_bytes code reason msg = reply_bytes code reason msg @ CRLF"

lemma srv_sends:
  assumes "sendq t = []"
  shows "send_fmt CRLF t = Ret () (t\<lparr>tx := tx t @ CRLF\<rparr>)"
    and "send_fmt html_header t = Ret () (t\<lparr>tx := tx t @ html_header\<rparr>)"
    and "length (status_line code reason) < BUFFSIZE \<Longrightarrow>
      send_fmt (status_line code reason) t = Ret () (t\<lparr>tx := tx t @ status_line code reason\<rparr>)"
  using assms by (simp add: BUFFSIZE_def, simp, simp)

lemma srv_response_plain:
  assumes "sendq s = []" and "reply_fits code reason msg"
  shows "srv_response code reason msg s = Ret () (s\<lparr>tx := tx s @ srv_reply_bytes code reason msg\<rparr>)"
proof -
  have d: "send_fmt (fmt_s msg @ CRLF) t = Ret () (t\<lparr>tx := tx t @ fmt_s msg @ CRLF\<rparr>)"
    if "sendq t = []" for t
    using that assms(2) by (simp add: reply_fits_def)
  show ?thesis
    unfolding srv_response_def status_line_def [symmetric] html_header_def [symmetric]
    using assms by (simp add: srv_sends d reply_fits_def srv_reply_bytes_def reply_bytes_def)
qed

fun reads_to_end :: "read_ev list \<Rightarrow> bool" where
  "reads_to_end [] = True"
| "reads_to_end (Rd_intr # es) = reads_to_end es"
| "reads_to_end (Rd_err e # es) = (e = EINTR \<and> reads_to_end es)"
| "reads_to_end (Rd d # es) = (d = [] \<or> reads_to_end es)"

fun read_data :: "read_ev list \<Rightarrow> string" where
  "read_data [] = []"
| "read_data (Rd_intr # es) = read_data es"
| "read_data (Rd_err e # es) = (if e = EINTR then read_data es else [])"
| "read_data (Rd d # es) = (if d = [] then [] else d @ read_data es)"

lemma srv_copy_loop_plain:
  "sendq s = [] \<Longrightarrow> \<exists>e. srv_copy_loop es s =
     Ret (reads_to_end es) (s\<lparr>tx := tx s @ read_data es, errno := e\<rparr>)"
proof (induction es arbitrary: s rule: srv_copy_loop.induct)
  case 1
  then show ?case by (intro exI [of _ "errno s"]) simp
next
  case (2 es)
  then show ?case using 2(1) [of "s\<lparr>errno := EINTR\<rparr>"] by simp
next
  case (3 e es)
  then show ?case using 3(1) [of "s\<lparr>errno := e\<rparr>"] by auto
next
  case (4 d es)
  show ?case
  proof (cases "d = []")
    case True
    then show ?thesis by (intro exI [of _ "errno s"]) simp
  next
    case False
    then show ?thesis using 4(1) [of "s\<lparr>tx := tx s @ d\<rparr>"] 4(2) by simp
  qed
qed

text \<open>A file: a blank line too many before it, and two line ends after it if it was read to its end.\<close>

lemma parse_uri_file:
  assumes s: "sendq s = []" and u: "uri_at (req_buf s) 0 = u" "length u < URI_LIMIT"
    and p: "takeWhile (\<lambda>c. c \<noteq> CHR ''?'') u = c # path" and f: "open_rdonly E path = Inr es"
  shows "\<exists>e. parse_uri E s = Ret () (s\<lparr>req_buf := snd (cut_query (req_buf s)),
    fds := fresh_fd (fds s) # fds s, errno := e,
    tx := tx s @ status_line 200 ''Ok'' @ CRLF @ CRLF @ read_data es @
      (if reads_to_end es then CRLF @ CRLF else [])\<rparr>)"
proof -
  obtain i q where cut: "cut_query (req_buf s) = (i, q)" by (metis surj_pair)
  have i: "0 < i" and q0: "uri_at q 0 = c # path" using cut_query_spec [OF u] p cut by auto
  have q1: "uri_at q (Suc 0) = path"
    using q0 cstr_drop [of 1 "req_uri q" 0 URI_LIMIT] by (simp add: uri_at_def)
  have line: "length (status_line 200 ''Ok'') < BUFFSIZE"
    using length_status_line [of 200 "''Ok''"] by (simp add: BUFFSIZE_def)
  let ?t = "s\<lparr>req_buf := q, fds := fresh_fd (fds s) # fds s,
    tx := tx s @ status_line 200 ''Ok'' @ CRLF @ CRLF\<rparr>"
  obtain e where "srv_copy_loop es ?t = Ret (reads_to_end es) (?t\<lparr>tx := tx ?t @ read_data es, errno := e\<rparr>)"
    using srv_copy_loop_plain [of ?t es] s by auto
  then show ?thesis
    unfolding parse_uri_def status_line_def [symmetric]
    using s i f line by (intro exI [of _ e]) (simp add: cut q1 Let_def add_fd_apply srv_sends)
qed

end
