(* ===== verification/Task_List.thy ===== *)
theory Task_List
  imports Clib
begin

text \<open>
  The kernel modules \<open>linux_task_list\<close> and \<open>hello.c\<close>. In the first \<open>print_task\<close> walks the tree of tasks and prints one line per
  task, indented by its depth.
\<close>

text \<open>A task with the list that \<open>list_for_each\<close> visits: its children, through their \<open>sibling\<close> links.\<close>

datatype task_struct = Task (tk_pid: int) (tk_comm: string) (children: "task_struct list")

text \<open>A \<open>printk\<close> line of \<open>print_task\<close> before formatting: the field width, the pid and the name.\<close>

record task_line =
  offset :: nat
  line_pid :: int
  line_comm :: string

text \<open>\<open>%*s\<close> of one blank: padded on the left to the field width, never less than the blank.\<close>

definition pad :: "nat \<Rightarrow> string" where
  "pad w = replicate (max 1 w) (CHR '' '')"

definition printk_line :: "task_line \<Rightarrow> string" where
  "printk_line l = pad (offset l) @ [CHR 0x5C] @ ''_ ['' @ dec_int (line_pid l) @ ''] '' @ line_comm l @ [CHR 0x0A]"

text \<open>\<open>print_task(task, offset)\<close> is \<open>print_children\<close> on the children of \<open>task\<close>.\<close>

fun print_children :: "task_struct list \<Rightarrow> nat \<Rightarrow> task_line list" where
  "print_children [] off = []"
| "print_children (Task p c cs # ts) off =
     \<lparr>offset = off, line_pid = p, line_comm = c\<rparr> # print_children cs (off + 4) @ print_children ts off"

definition print_task :: "task_struct \<Rightarrow> nat \<Rightarrow> task_line list" where
  "print_task t off = print_children (children t) off"

text \<open>\<open>m_init\<close>: a line for the module, the first task without a line feed, then its tree.\<close>

definition m_init :: "task_struct \<Rightarrow> string" where
  "m_init init_task =
     ''Loading Module'' @ [CHR 0x0A] @
     ''-- ['' @ dec_int (tk_pid init_task) @ ''] '' @ tk_comm init_task @
     concat (map printk_line (print_task init_task 4))"

text \<open>Unloading prints nothing. The module \<open>linux_kernel_modules/hello.c\<close> prints a line at either end.\<close>

definition m_exit :: "string \<Rightarrow> string" where
  "m_exit klog = klog"

definition hello :: "string \<Rightarrow> int \<times> string" where
  "hello klog = (0, klog @ ''Loading module... Hello World!'' @ [CHR 0x0A])"

definition goodbye :: "string \<Rightarrow> string" where
  "goodbye klog = klog @ ''Removing module... Goodbye World!'' @ [CHR 0x0A]"

section \<open>The printed lines determine the tree\<close>

text \<open>
  Reading the lines back: at depth \<open>off\<close>, a line with that offset starts a child, deeper lines
  belong to it, and a shallower line ends the list.
\<close>

function read_children :: "nat \<Rightarrow> task_line list \<Rightarrow> task_struct list \<times> task_line list" where
  "read_children off [] = ([], [])"
| "read_children off (l # ls) =
     (if offset l \<noteq> off then ([], l # ls)
      else (case read_children (off + 4) ls of
          (cs, ls') \<Rightarrow>
            (if length ls' \<le> length ls then
               (case read_children off ls' of (ts, ls'') \<Rightarrow> (Task (line_pid l) (line_comm l) cs # ts, ls''))
             else ([], []))))"
  by pat_completeness auto
termination
  by (relation "measure (\<lambda>(off, ls). length ls)") auto

lemma print_children_offset: "l \<in> set (print_children ts off) \<Longrightarrow> off \<le> offset l"
  by (induction ts off rule: print_children.induct) force+

definition ends_at :: "nat \<Rightarrow> task_line list \<Rightarrow> bool" where
  "ends_at off ls \<longleftrightarrow> (case ls of [] \<Rightarrow> True | l # _ \<Rightarrow> offset l < off)"

lemma read_children_stop: "ends_at off ls \<Longrightarrow> read_children off ls = ([], ls)"
  by (cases ls) (auto simp: ends_at_def)

lemma read_print: "ends_at off ls \<Longrightarrow> read_children off (print_children ts off @ ls) = (ts, ls)"
proof (induction ts off arbitrary: ls rule: print_children.induct)
  case (1 off)
  then show ?case by (simp add: read_children_stop)
next
  case (2 p c cs ts off)
  have "ends_at (off + 4) (print_children ts off @ ls)"
  proof (cases ts)
    case Nil
    then show ?thesis using 2(3) by (auto simp: ends_at_def split: list.splits)
  next
    case (Cons t us)
    then show ?thesis by (cases t) (simp add: ends_at_def)
  qed
  then have "read_children (off + 4) (print_children cs (off + 4) @ print_children ts off @ ls) =
      (cs, print_children ts off @ ls)" by (rule 2(1))
  then show ?case using 2(2) [OF 2(3)] by simp
qed

text \<open>How many tasks are below a task.\<close>

fun count_tasks :: "task_struct list \<Rightarrow> nat" where
  "count_tasks [] = 0"
| "count_tasks (Task p c cs # ts) = 1 + count_tasks cs + count_tasks ts"

lemma length_print_children: "length (print_children ts off) = count_tasks ts"
  by (induction ts off rule: print_children.induct) auto

end
