(* ===== verification/Fd_Passing.thy ===== *)
theory Fd_Passing
  imports Clib
begin

text \<open>
  \<open>sendConnection\<close> and \<open>recvConnection\<close> of \<open>server.h\<close>: passing a descriptor over a UNIX socket.
  The ancillary data is given at the level of \<open>struct cmsghdr\<close>, with the sizes of Linux on a 64-bit
  machine.
\<close>

section \<open>Messages\<close>

definition SOL_SOCKET :: int where "SOL_SOCKET = 1"
definition SCM_RIGHTS :: int where "SCM_RIGHTS = 1"
definition CMSG_HDR :: nat where "CMSG_HDR = 16"

definition CMSG_LEN :: "nat \<Rightarrow> nat" where "CMSG_LEN n = CMSG_HDR + n"

definition CMSG_SPACE :: "nat \<Rightarrow> nat" where "CMSG_SPACE n = CMSG_HDR + 8 * ((n + 7) div 8)"

lemmas cmsg_defs = SOL_SOCKET_def SCM_RIGHTS_def CMSG_HDR_def CMSG_LEN_def CMSG_SPACE_def

record cmsg =
  cmsg_len :: nat
  cmsg_level :: int
  cmsg_type :: int
  cmsg_fd :: int

record msg =
  msg_data :: string
  msg_cmsg :: "cmsg option"

section \<open>sendConnection\<close>

text \<open>The message given to \<open>sendmsg\<close>; any result but 2 ends the program (\<open>err_sys\<close>).\<close>

definition connection_msg :: "int \<Rightarrow> msg" where
  "connection_msg clntSock = \<lparr>msg_data = ''FD'',
     msg_cmsg = Some \<lparr>cmsg_len = CMSG_LEN 4, cmsg_level = SOL_SOCKET, cmsg_type = SCM_RIGHTS,
       cmsg_fd = clntSock\<rparr>\<rparr>"

definition sendConnection :: "int \<Rightarrow> int \<Rightarrow> msg option" where
  "sendConnection sendmsg_ret clntSock =
     (if sendmsg_ret \<noteq> 2 then None else Some (connection_msg clntSock))"

section \<open>recvConnection\<close>

text \<open>What \<open>recvmsg\<close> meets: a message or an error; the end of the list is end of file.\<close>

datatype recv_ev = Msg msg | Recv_err int

text \<open>
  The kernel's side of \<open>recvmsg\<close>: at most 64 bytes of data, and the ancillary data if it fits the
  \<open>msg_controllen\<close> bytes offered. It sets \<open>msg_controllen\<close> to what it stored, 0 if nothing.
\<close>

definition recvmsg :: "nat \<Rightarrow> msg \<Rightarrow> string \<times> cmsg option \<times> nat" where
  "recvmsg controllen m =
     (take 64 (msg_data m),
      (case msg_cmsg m of
         None \<Rightarrow> (None, 0)
       | Some c \<Rightarrow> (if CMSG_SPACE (cmsg_len c - CMSG_HDR) \<le> controllen
                   then (Some c, CMSG_SPACE (cmsg_len c - CMSG_HDR)) else (None, 0))))"

datatype recv_result = Received int | Died int | Spins

text \<open>
  The loop. \<open>msg_controllen\<close> is set once before it. At end of file \<open>recvmsg\<close> returns 0 for ever,
  and 0 is skipped like a message that is not two bytes long: the loop never ends.
\<close>

fun recv_loop :: "nat \<Rightarrow> recv_ev list \<Rightarrow> recv_result" where
  "recv_loop controllen [] = Spins"
| "recv_loop controllen (Recv_err e # es) =
     (if e = 4 then recv_loop controllen es else Died e)"
| "recv_loop controllen (Msg m # es) =
     (case recvmsg controllen m of
        (buf, cm, controllen') \<Rightarrow>
          if length buf \<noteq> 2 \<or> buf ! 0 \<noteq> CHR ''F'' \<or> buf ! 1 \<noteq> CHR ''D'' then recv_loop controllen' es
          else (case cm of
              None \<Rightarrow> recv_loop controllen' es
            | Some c \<Rightarrow>
                (if CMSG_HDR \<le> controllen' \<and> cmsg_len c = CMSG_LEN 4 \<and>
                    cmsg_level c = SOL_SOCKET \<and> cmsg_type c = SCM_RIGHTS
                 then Received (cmsg_fd c) else recv_loop controllen' es)))"

definition recvConnection :: "recv_ev list \<Rightarrow> recv_result" where
  "recvConnection = recv_loop (CMSG_SPACE 4)"

text \<open>Once \<open>msg_controllen\<close> is 0 no descriptor gets through any more.\<close>

lemma recvmsg_no_room: "0 < CMSG_HDR \<Longrightarrow> recvmsg 0 m = (take 64 (msg_data m), None, 0)"
  by (auto simp: recvmsg_def cmsg_defs split: option.split)

lemma recv_loop_no_room: "recv_loop 0 es \<noteq> Received fd"
proof (induction es)
  case Nil
  show ?case by simp
next
  case (Cons e es)
  then show ?case by (cases e) (auto simp: recvmsg_no_room CMSG_HDR_def)
qed

lemma recv_loop_connection: "recv_loop (CMSG_SPACE 4) (Msg (connection_msg fd) # es) = Received fd"
  by (simp add: recvmsg_def connection_msg_def cmsg_defs)

end
