(* ===== verification/Queue_Conc.thy ===== *)
theory Queue_Conc
  imports Queue "HOL-Library.Multiset"
begin

text \<open>
  The blocking queue under interleaving: any number of threads inside \<open>queue_put\<close> and
  \<open>queue_get\<close>, with the mutex and the condition variable as the code uses them. A step is one
  library call or one critical section of one thread. Proved: mutual exclusion, FIFO hand-over
  with no socket lost or served twice, and no lost wake-up.
\<close>

section \<open>Threads and steps\<close>

text \<open>
  Where a thread is: before the lock of \<open>queue_put\<close> with its new message, in the critical
  section before and after the link, before \<open>pthread_cond_signal\<close>; at the test of the wait loop,
  asleep in \<open>pthread_cond_wait\<close>, woken and not yet owner of the mutex again, in the critical
  section after the unlink, before \<open>free\<close>. The socket next to an address is a ghost.
\<close>

datatype pc =
    Idle
  | P_alloc nat int | P_locked nat int | P_linked | P_signal
  | G_test | G_wait | G_woken | G_took nat int | G_free nat int

record qsys =
  que :: queue
  mtx :: "nat option"
  pcs :: "nat \<Rightarrow> pc"
  put_log :: "int list"
  got_log :: "int list"
  served :: "(nat \<times> int) list"

definition qsys_init :: "queue \<Rightarrow> qsys" where
  "qsys_init q = \<lparr>que = queue_init q, mtx = None, pcs = (\<lambda>_. Idle), put_log = [], got_log = [],
     served = []\<rparr>"

text \<open>
  \<open>pthread_cond_wait\<close> releases the mutex and sleeps in one step and may wake without a signal;
  \<open>pthread_cond_signal\<close> wakes one sleeping thread if there is one.
\<close>

inductive qstep :: "nat \<Rightarrow> qsys \<Rightarrow> qsys \<Rightarrow> bool" for n where
  put_alloc: "t < n \<Longrightarrow> pcs s t = Idle \<Longrightarrow> fresh_addr (que s) a \<Longrightarrow>
    qstep n s (s\<lparr>que := queue_put_alloc a x (que s), pcs := (pcs s)(t := P_alloc a x)\<rparr>)"
| put_lock: "t < n \<Longrightarrow> pcs s t = P_alloc a x \<Longrightarrow> mtx s = None \<Longrightarrow>
    qstep n s (s\<lparr>mtx := Some t, pcs := (pcs s)(t := P_locked a x)\<rparr>)"
| put_link: "t < n \<Longrightarrow> pcs s t = P_locked a x \<Longrightarrow> queue_put_link a (que s) = Some q \<Longrightarrow>
    qstep n s (s\<lparr>que := q, pcs := (pcs s)(t := P_linked), put_log := put_log s @ [x]\<rparr>)"
| put_unlock: "t < n \<Longrightarrow> pcs s t = P_linked \<Longrightarrow>
    qstep n s (s\<lparr>mtx := None, pcs := (pcs s)(t := P_signal)\<rparr>)"
| signal_none: "t < n \<Longrightarrow> pcs s t = P_signal \<Longrightarrow> (\<forall>u < n. pcs s u \<noteq> G_wait) \<Longrightarrow>
    qstep n s (s\<lparr>pcs := (pcs s)(t := Idle)\<rparr>)"
| signal_one: "t < n \<Longrightarrow> pcs s t = P_signal \<Longrightarrow> u < n \<Longrightarrow> pcs s u = G_wait \<Longrightarrow>
    qstep n s (s\<lparr>pcs := (pcs s)(t := Idle, u := G_woken)\<rparr>)"
| get_lock: "t < n \<Longrightarrow> pcs s t = Idle \<or> pcs s t = G_woken \<Longrightarrow> mtx s = None \<Longrightarrow>
    qstep n s (s\<lparr>mtx := Some t, pcs := (pcs s)(t := G_test)\<rparr>)"
| get_sleep: "t < n \<Longrightarrow> pcs s t = G_test \<Longrightarrow> queue_must_wait (que s) \<Longrightarrow>
    qstep n s (s\<lparr>mtx := None, pcs := (pcs s)(t := G_wait)\<rparr>)"
| spurious: "t < n \<Longrightarrow> pcs s t = G_wait \<Longrightarrow>
    qstep n s (s\<lparr>pcs := (pcs s)(t := G_woken)\<rparr>)"
| get_unlink: "t < n \<Longrightarrow> pcs s t = G_test \<Longrightarrow> \<not> queue_must_wait (que s) \<Longrightarrow>
    queue_get_unlink (que s) = Some (a, q) \<Longrightarrow> heap q a = Some m \<Longrightarrow>
    qstep n s (s\<lparr>que := q, pcs := (pcs s)(t := G_took a (sock m)), got_log := got_log s @ [sock m]\<rparr>)"
| get_unlock: "t < n \<Longrightarrow> pcs s t = G_took a x \<Longrightarrow>
    qstep n s (s\<lparr>mtx := None, pcs := (pcs s)(t := G_free a x)\<rparr>)"
| get_free: "t < n \<Longrightarrow> pcs s t = G_free a x \<Longrightarrow> queue_get_free a (que s) = Some (y, q) \<Longrightarrow>
    qstep n s (s\<lparr>que := q, pcs := (pcs s)(t := Idle), served := served s @ [(t, y)]\<rparr>)"

inductive qreach :: "nat \<Rightarrow> qsys \<Rightarrow> bool" for n where
  q_start: "qreach n (qsys_init q)"
| q_step: "qreach n s \<Longrightarrow> qstep n s t \<Longrightarrow> qreach n t"

section \<open>Mutual exclusion\<close>

fun in_crit :: "pc \<Rightarrow> bool" where
  "in_crit (P_locked _ _) = True"
| "in_crit P_linked = True"
| "in_crit G_test = True"
| "in_crit (G_took _ _) = True"
| "in_crit _ = False"

definition mutex_ok :: "(nat \<Rightarrow> pc) \<Rightarrow> nat option \<Rightarrow> bool" where
  "mutex_ok f m \<longleftrightarrow> (\<forall>t. in_crit (f t) \<longleftrightarrow> m = Some t)"

lemma mutex_keep: "mutex_ok f m \<Longrightarrow> in_crit p = in_crit (f t) \<Longrightarrow> mutex_ok (f(t := p)) m"
  by (simp add: mutex_ok_def)

lemma mutex_acquire: "mutex_ok f None \<Longrightarrow> in_crit p \<Longrightarrow> mutex_ok (f(t := p)) (Some t)"
  by (auto simp: mutex_ok_def)

lemma mutex_release: "mutex_ok f m \<Longrightarrow> in_crit (f t) \<Longrightarrow> \<not> in_crit p \<Longrightarrow> mutex_ok (f(t := p)) None"
  by (auto simp: mutex_ok_def)

lemma qstep_mutex:
  assumes "qstep n s t" and "mutex_ok (pcs s) (mtx s)"
  shows "mutex_ok (pcs t) (mtx t)"
  using assms
proof (induction rule: qstep.induct)
  case (signal_one t s u)
  have "mutex_ok ((pcs s)(t := Idle)) (mtx s)"
    by (rule mutex_keep) (use signal_one in auto)
  then have "mutex_ok ((pcs s)(t := Idle, u := G_woken)) (mtx s)"
    by (rule mutex_keep) (use signal_one in auto)
  then show ?case by (simp del: fun_upd_apply)
qed (simp_all add: mutex_keep mutex_acquire mutex_release)

lemma qreach_mutex: "qreach n s \<Longrightarrow> mutex_ok (pcs s) (mtx s)"
proof (induction rule: qreach.induct)
  case (q_start q)
  show ?case by (simp add: mutex_ok_def qsys_init_def)
next
  case (q_step s t)
  then show ?case by (blast intro: qstep_mutex)
qed

section \<open>The list on the heap and the messages in flight\<close>

text \<open>The message a thread holds outside the list.\<close>

fun own :: "pc \<Rightarrow> (nat \<times> int) option" where
  "own (P_alloc a x) = Some (a, x)"
| "own (P_locked a x) = Some (a, x)"
| "own (G_took a x) = Some (a, x)"
| "own (G_free a x) = Some (a, x)"
| "own _ = None"

fun putting :: "pc \<Rightarrow> bool" where
  "putting (P_alloc _ _) = True"
| "putting (P_locked _ _) = True"
| "putting _ = False"

definition own_valid :: "(nat \<rightharpoonup> message) \<Rightarrow> nat list \<Rightarrow> pc \<Rightarrow> bool" where
  "own_valid h as p \<longleftrightarrow> (case own p of None \<Rightarrow> True | Some (a, x) \<Rightarrow>
     a \<noteq> 0 \<and> a \<notin> set as \<and> (\<exists>m. h a = Some m \<and> sock m = x \<and> (putting p \<longrightarrow> nxt m = 0)))"

definition own_addr :: "pc \<Rightarrow> nat option" where
  "own_addr p = map_option fst (own p)"

definition own_inj :: "(nat \<Rightarrow> pc) \<Rightarrow> bool" where
  "own_inj f \<longleftrightarrow> (\<forall>t u a. own_addr (f t) = Some a \<longrightarrow> own_addr (f u) = Some a \<longrightarrow> t = u)"

definition owns_ok :: "(nat \<Rightarrow> pc) \<Rightarrow> (nat \<rightharpoonup> message) \<Rightarrow> nat list \<Rightarrow> bool" where
  "owns_ok f h as \<longleftrightarrow> (\<forall>t. own_valid h as (f t)) \<and> own_inj f"

definition list_inv :: "qsys \<Rightarrow> bool" where
  "list_inv s \<longleftrightarrow> (\<exists>as. queue_repr (que s) as \<and> owns_ok (pcs s) (heap (que s)) as \<and>
     got_log s @ socks (heap (que s)) as = put_log s)"

lemma own_inj_upd:
  assumes "own_inj f" and "\<And>a u. own_addr p = Some a \<Longrightarrow> u \<noteq> t \<Longrightarrow> own_addr (f u) \<noteq> Some a"
  shows "own_inj (f(t := p))"
  using assms unfolding own_inj_def by (metis fun_upd_apply)

lemma owns_ok_upd:
  assumes "owns_ok f h as" and "own_valid h as p"
    and "\<And>a u. own_addr p = Some a \<Longrightarrow> u \<noteq> t \<Longrightarrow> own_addr (f u) \<noteq> Some a"
  shows "owns_ok (f(t := p)) h as"
  using assms own_inj_upd unfolding owns_ok_def by simp

lemma owns_ok_upd_none: "owns_ok f h as \<Longrightarrow> own p = None \<Longrightarrow> owns_ok (f(t := p)) h as"
  by (rule owns_ok_upd) (auto simp: own_valid_def own_addr_def)

lemma owns_ok_upd_same:
  assumes "owns_ok f h as" and "own p = own (f t)" and "putting p \<longrightarrow> putting (f t)"
  shows "owns_ok (f(t := p)) h as"
proof (rule owns_ok_upd [OF assms(1)])
  have "own_valid h as (f t)" using assms(1) by (simp add: owns_ok_def)
  then show "own_valid h as p" using assms(2,3) by (auto simp: own_valid_def split: option.splits)
  fix a u
  assume "own_addr p = Some a" "u \<noteq> t"
  then show "own_addr (f u) \<noteq> Some a"
    using assms(1,2) unfolding owns_ok_def own_inj_def own_addr_def by metis
qed

lemma owns_ok_heap:
  assumes "owns_ok f h as" and "\<And>t a. own_addr (f t) = Some a \<Longrightarrow> h' a = h a \<and> (a \<notin> set as \<longrightarrow> a \<notin> set as')"
  shows "owns_ok f h' as'"
proof -
  have "own_valid h' as' (f t)" for t
  proof (cases "own (f t)")
    case None
    then show ?thesis by (simp add: own_valid_def)
  next
    case (Some ax)
    obtain a x where ax: "ax = (a, x)" by (cases ax)
    have "own_valid h as (f t)" using assms(1) by (simp add: owns_ok_def)
    moreover have "h' a = h a \<and> (a \<notin> set as \<longrightarrow> a \<notin> set as')"
      using assms(2) [of t a] Some ax by (simp add: own_addr_def)
    ultimately show ?thesis using Some ax by (simp add: own_valid_def)
  qed
  then show ?thesis using assms(1) by (simp add: owns_ok_def)
qed

lemma owns_okD:
  assumes "owns_ok f h as" and "own (f t) = Some (a, x)"
  obtains m where "a \<noteq> 0" "a \<notin> set as" "h a = Some m" "sock m = x" "putting (f t) \<Longrightarrow> nxt m = 0"
    and "\<And>u. u \<noteq> t \<Longrightarrow> own_addr (f u) \<noteq> Some a"
proof -
  have "own_valid h as (f t)" and i: "own_inj f" using assms(1) by (simp_all add: owns_ok_def)
  then obtain m where m: "a \<noteq> 0" "a \<notin> set as" "h a = Some m" "sock m = x" "putting (f t) \<longrightarrow> nxt m = 0"
    using assms(2) by (auto simp: own_valid_def)
  have "own_addr (f u) \<noteq> Some a" if "u \<noteq> t" for u
    using i assms(2) that unfolding own_inj_def own_addr_def by (metis fst_conv option.simps(9))
  then show ?thesis using that m by blast
qed

lemma owned_allocated:
  assumes "owns_ok f h as" and "own_addr (f u) = Some a"
  shows "h a \<noteq> None \<and> a \<notin> set as"
proof -
  obtain x where "own (f u) = Some (a, x)" using assms(2) by (auto simp: own_addr_def)
  from owns_okD [OF assms(1) this] show ?thesis by (metis option.simps(3))
qed

lemma list_inv_local:
  assumes "list_inv s" and "own p = None \<or> (own p = own (pcs s t) \<and> (putting p \<longrightarrow> putting (pcs s t)))"
  shows "list_inv (s\<lparr>pcs := (pcs s)(t := p)\<rparr>)" and "list_inv (s\<lparr>mtx := m, pcs := (pcs s)(t := p)\<rparr>)"
  using assms owns_ok_upd_none [of "pcs s" _ _ p t] owns_ok_upd_same [of "pcs s" _ _ p t]
  unfolding list_inv_def by auto

lemma list_inv_alloc:
  assumes inv: "list_inv s" and f: "fresh_addr (que s) a"
  shows "list_inv (s\<lparr>que := queue_put_alloc a x (que s), pcs := (pcs s)(t := P_alloc a x)\<rparr>)"
proof -
  obtain as where r: "queue_repr (que s) as" and o: "owns_ok (pcs s) (heap (que s)) as"
    and l: "got_log s @ socks (heap (que s)) as = put_log s"
    using inv by (auto simp: list_inv_def)
  let ?h = "(heap (que s))(a \<mapsto> \<lparr>sock = x, nxt = 0\<rparr>)"
  have a: "a \<noteq> 0" "heap (que s) a = None" using f by (auto simp: fresh_addr_def)
  have na: "a \<notin> set as" using r a chain_in_heap by (force simp: queue_repr_def)
  then have eq: "?h b = heap (que s) b" if "b \<in> set as" for b using that by auto
  have free: "own_addr (pcs s u) \<noteq> Some a" for u using owned_allocated [OF o] a by metis
  have "owns_ok (pcs s) ?h as"
    using o by (rule owns_ok_heap) (use free in \<open>auto simp: fun_upd_apply\<close>)
  then have "owns_ok ((pcs s)(t := P_alloc a x)) ?h as"
    by (rule owns_ok_upd) (use a na free in \<open>auto simp: own_valid_def own_addr_def\<close>)
  moreover have "queue_repr (queue_put_alloc a x (que s)) as"
    using r chain_frame [of as ?h "heap (que s)", OF eq] by (simp add: queue_repr_def queue_put_alloc_def)
  ultimately show ?thesis
    using l socks_frame [of as ?h "heap (que s)", OF eq]
    unfolding list_inv_def by (auto simp: queue_put_alloc_def)
qed

lemma list_inv_link:
  assumes inv: "list_inv s" and pc: "pcs s t = P_locked a x"
    and q: "queue_put_link a (que s) = Some q" and len: "length (put_log s) < 2 ^ 32 - 1"
  shows "list_inv (s\<lparr>que := q, pcs := (pcs s)(t := P_linked), put_log := put_log s @ [x]\<rparr>)"
proof -
  obtain as where r: "queue_repr (que s) as" and o: "owns_ok (pcs s) (heap (que s)) as"
    and l: "got_log s @ socks (heap (que s)) as = put_log s"
    using inv by (auto simp: list_inv_def)
  have ot: "own (pcs s t) = Some (a, x)" and pt: "putting (pcs s t)" using pc by simp_all
  obtain m where m: "a \<noteq> 0" "a \<notin> set as" "heap (que s) a = Some m" "sock m = x" "nxt m = 0"
    and others: "\<And>u. u \<noteq> t \<Longrightarrow> own_addr (pcs s u) \<noteq> Some a"
    using owns_okD [OF o ot] pt by metis
  have "length as \<le> length (put_log s)" using arg_cong [OF l, of length] by (simp add: socks_def)
  then have len': "length as < 2 ^ 32 - 1" using len by simp
  obtain q' where q': "queue_put_link a (que s) = Some q'" "queue_repr q' (as @ [a])"
      "socks (heap q') (as @ [a]) = socks (heap (que s)) as @ [sock m]"
      "\<And>b. b \<notin> set as \<Longrightarrow> heap q' b = heap (que s) b"
    by (rule put_link_repr [OF r m(2) m(1) m(3) m(5) len']) (rule that; assumption)
  have qq: "q' = q" using q q'(1) by simp
  have o1: "owns_ok ((pcs s)(t := P_linked)) (heap (que s)) as" using o by (rule owns_ok_upd_none) simp
  have "owns_ok ((pcs s)(t := P_linked)) (heap q) (as @ [a])"
  proof (rule owns_ok_heap [OF o1])
    fix u b
    assume b: "own_addr (((pcs s)(t := P_linked)) u) = Some b"
    then have "b \<noteq> a" using others [of u] by (auto simp: own_addr_def split: if_splits)
    moreover have "b \<notin> set as" using owned_allocated [OF o1 b] by simp
    ultimately show "heap q b = heap (que s) b \<and> (b \<notin> set as \<longrightarrow> b \<notin> set (as @ [a]))"
      using q'(4) qq by simp
  qed
  moreover have "got_log s @ socks (heap q) (as @ [a]) = put_log s @ [x]"
    using q'(3) l m(4) qq by simp
  ultimately show ?thesis
    using q'(2) qq unfolding list_inv_def by (intro exI [of _ "as @ [a]"]) simp
qed

lemma list_inv_unlink:
  assumes inv: "list_inv s" and q: "queue_get_unlink (que s) = Some (a, q)" and m: "heap q a = Some m"
    and nw: "\<not> queue_must_wait (que s)"
  shows "list_inv (s\<lparr>que := q, pcs := (pcs s)(t := G_took a (sock m)), got_log := got_log s @ [sock m]\<rparr>)"
proof -
  obtain as where r: "queue_repr (que s) as" and o: "owns_ok (pcs s) (heap (que s)) as"
    and l: "got_log s @ socks (heap (que s)) as = put_log s"
    using inv by (auto simp: list_inv_def)
  obtain b bs where as: "as = b # bs" using nw must_wait_iff [OF r] by (cases as) auto
  obtain q' where q': "queue_get_unlink (que s) = Some (b, q')" "queue_repr q' bs" "heap q' = heap (que s)"
    using get_unlink_repr r unfolding as by blast
  have ba: "b = a" and qq: "q' = q" using q q' by auto
  have a: "a \<noteq> 0" "a \<notin> set bs" using r as ba by (auto simp: queue_repr_def)
  have free: "own_addr (pcs s u) \<noteq> Some a" for u using owned_allocated [OF o, of u a] as ba by auto
  have h: "heap q = heap (que s)" using q'(3) qq by simp
  have "owns_ok (pcs s) (heap q) bs"
    using o by (rule owns_ok_heap) (use as h in auto)
  then have "owns_ok ((pcs s)(t := G_took a (sock m))) (heap q) bs"
    by (rule owns_ok_upd) (use a m free in \<open>auto simp: own_valid_def own_addr_def\<close>)
  moreover have "got_log s @ sock m # socks (heap q) bs = put_log s"
    using l as m h ba by (simp add: socks_def)
  ultimately show ?thesis
    using q'(2) qq unfolding list_inv_def by auto
qed

lemma list_inv_free:
  assumes inv: "list_inv s" and q: "queue_get_free a (que s) = Some (y, q)" and pc: "pcs s t = G_free a x"
  shows "list_inv (s\<lparr>que := q, pcs := (pcs s)(t := Idle), served := served s @ [(t, y)]\<rparr>)" and "y = x"
proof -
  obtain as where r: "queue_repr (que s) as" and o: "owns_ok (pcs s) (heap (que s)) as"
    and l: "got_log s @ socks (heap (que s)) as = put_log s"
    using inv by (auto simp: list_inv_def)
  have ot: "own (pcs s t) = Some (a, x)" using pc by simp
  obtain m where m: "a \<notin> set as" "heap (que s) a = Some m" "sock m = x"
    and others: "\<And>u. u \<noteq> t \<Longrightarrow> own_addr (pcs s u) \<noteq> Some a"
    using owns_okD [OF o ot] by metis
  have q': "y = sock m" "q = (que s)\<lparr>heap := (heap (que s))(a := None)\<rparr>"
    using q m by (auto simp: queue_get_free_def)
  show "y = x" using q' m by simp
  have eq: "heap q b = heap (que s) b" if "b \<in> set as" for b using that m q' by auto
  have o1: "owns_ok ((pcs s)(t := Idle)) (heap (que s)) as" using o by (rule owns_ok_upd_none) simp
  have "owns_ok ((pcs s)(t := Idle)) (heap q) as"
  proof (rule owns_ok_heap [OF o1])
    fix u b
    assume b: "own_addr (((pcs s)(t := Idle)) u) = Some b"
    then have "b \<noteq> a" using others [of u] by (auto simp: own_addr_def split: if_splits)
    then show "heap q b = heap (que s) b \<and> (b \<notin> set as \<longrightarrow> b \<notin> set as)" using q' by simp
  qed
  moreover have "queue_repr q as"
    using r q'(2) chain_frame [of as "heap q" "heap (que s)", OF eq] by (simp add: queue_repr_def)
  ultimately show "list_inv (s\<lparr>que := q, pcs := (pcs s)(t := Idle), served := served s @ [(t, y)]\<rparr>)"
    using l socks_frame [of as "heap q" "heap (que s)", OF eq] unfolding list_inv_def by auto
qed

lemma qstep_list_inv:
  assumes "qstep n s t" and "list_inv s" and "length (put_log t) < 2 ^ 32"
  shows "list_inv t"
  using assms
proof (induction rule: qstep.induct)
  case (put_alloc t s a x)
  then show ?case by (blast intro: list_inv_alloc)
next
  case (put_link t s a x q)
  then show ?case by (intro list_inv_link) auto
next
  case (signal_one t s u)
  have "list_inv (s\<lparr>pcs := (pcs s)(t := Idle)\<rparr>)" by (rule list_inv_local(1)) (use signal_one in auto)
  from list_inv_local(1) [OF this, of G_woken u] show ?case by simp
next
  case (get_unlink t s a q m)
  then show ?case by (blast intro: list_inv_unlink)
next
  case (get_free t s a x y q)
  then show ?case by (blast intro: list_inv_free)
qed (auto intro: list_inv_local)

lemma qstep_put_log: "qstep n s t \<Longrightarrow> length (put_log s) \<le> length (put_log t)"
  by (induction rule: qstep.induct) auto

lemma qreach_list_inv:
  assumes "qreach n s" and "length (put_log s) < 2 ^ 32"
  shows "list_inv s"
  using assms
proof (induction rule: qreach.induct)
  case (q_start q)
  have "queue_repr (queue_init q) []" by (simp add: queue_repr_def queue_init_def)
  then show ?case
    by (auto simp: list_inv_def qsys_init_def owns_ok_def own_valid_def own_inj_def own_addr_def socks_def
        intro!: exI [of _ "[]"])
next
  case (q_step s t)
  have "length (put_log s) < 2 ^ 32"
    using qstep_put_log [OF q_step.hyps(2)] q_step.prems by (rule le_less_trans)
  then have "list_inv s" by (rule q_step.IH)
  with q_step.hyps(2) show ?case using q_step.prems by (rule qstep_list_inv)
qed

section \<open>No lost wake-up\<close>

text \<open>
  A token is a thread that will still look at the queue or signal: a \<open>put\<close> between its link and
  its signal, a \<open>get\<close> between its wake-up (or its lock) and its test. While some thread sleeps
  there are at least as many tokens as messages.
\<close>

fun token :: "pc \<Rightarrow> nat" where
  "token P_linked = 1"
| "token P_signal = 1"
| "token G_woken = 1"
| "token G_test = 1"
| "token _ = 0"

definition wake_inv :: "nat \<Rightarrow> qsys \<Rightarrow> bool" where
  "wake_inv n s \<longleftrightarrow> (\<exists>t < n. pcs s t = G_wait) \<longrightarrow> unat (qlength (que s)) \<le> sum_over token n (pcs s)"

lemma wake_invI:
  "(\<And>t. t < n \<Longrightarrow> pcs s t = G_wait \<Longrightarrow> unat (qlength (que s)) \<le> sum_over token n (pcs s)) \<Longrightarrow> wake_inv n s"
  by (auto simp: wake_inv_def)

text \<open>A step of one thread that does not fall asleep: the balance of messages and tokens decides.\<close>

lemma wake_inv_move:
  assumes "wake_inv n s" and "t < n" and "p \<noteq> G_wait"
    and "unat (qlength q) + token (pcs s t) \<le> unat (qlength (que s)) + token p"
  shows "wake_inv n (s\<lparr>que := q, pcs := (pcs s)(t := p)\<rparr>)"
proof (rule wake_invI)
  fix u
  assume "u < n" "pcs (s\<lparr>que := q, pcs := (pcs s)(t := p)\<rparr>) u = G_wait"
  then have "pcs s u = G_wait" using assms(3) by (auto split: if_splits)
  then have "unat (qlength (que s)) \<le> sum_over token n (pcs s)"
    using assms(1) \<open>u < n\<close> by (auto simp: wake_inv_def)
  then show "unat (qlength (que (s\<lparr>que := q, pcs := (pcs s)(t := p)\<rparr>)))
      \<le> sum_over token n (pcs (s\<lparr>que := q, pcs := (pcs s)(t := p)\<rparr>))"
    using sum_over_upd [OF assms(2), of token "pcs s" p] assms(4) by simp
qed

lemma unat_succ_le: "unat (x + 1 :: 32 word) \<le> unat x + 1"
proof -
  have "unat (x + 1) = (unat x + 1) mod 2 ^ 32" by (simp add: unat_word_ariths)
  then show ?thesis by (metis mod_less_eq_dividend)
qed

lemma put_link_qlength: "queue_put_link a q = Some q' \<Longrightarrow> unat (qlength q') \<le> unat (qlength q) + 1"
  using unat_succ_le by (auto simp: queue_put_link_def split: if_splits option.splits)

lemma get_unlink_qlength:
  "queue_get_unlink q = Some (a, q') \<Longrightarrow> qlength q \<noteq> 0 \<Longrightarrow> unat (qlength q') + 1 = unat (qlength q)"
  by (auto simp: queue_get_unlink_def Let_def unat_minus_one unat_gt_0 split: option.splits if_splits)

lemma get_free_qlength: "queue_get_free a q = Some (y, q') \<Longrightarrow> qlength q' = qlength q"
  by (auto simp: queue_get_free_def split: option.splits)

lemma qstep_wake:
  assumes "qstep n s t" and "wake_inv n s"
  shows "wake_inv n t"
  using assms
proof (induction rule: qstep.induct)
  case (put_alloc t s a x)
  then show ?case by (intro wake_inv_move) (auto simp: queue_put_alloc_def)
next
  case (put_lock t s a x)
  from wake_inv_move [OF put_lock.prems put_lock.hyps(1), of "P_locked a x" "que s"] put_lock.hyps
  show ?case by (simp add: wake_inv_def)
next
  case (put_link t s a x q)
  from wake_inv_move [OF put_link.prems put_link.hyps(1), of P_linked q] put_link.hyps put_link_qlength
  show ?case by (simp add: wake_inv_def)
next
  case (put_unlock t s)
  from wake_inv_move [OF put_unlock.prems put_unlock.hyps(1), of P_signal "que s"] put_unlock.hyps
  show ?case by (simp add: wake_inv_def)
next
  case (signal_none t s)
  then show ?case by (intro wake_invI) (auto split: if_splits)
next
  case (signal_one t s u)
  have ne: "t \<noteq> u" using signal_one.hyps by auto
  have "unat (qlength (que s)) \<le> sum_over token n (pcs s)"
    using signal_one by (auto simp: wake_inv_def)
  moreover have "sum_over token n ((pcs s)(t := Idle)) + 1 = sum_over token n (pcs s)"
    using sum_over_upd [OF signal_one.hyps(1), of token "pcs s" Idle] signal_one.hyps by simp
  moreover have "sum_over token n ((pcs s)(t := Idle, u := G_woken)) = sum_over token n ((pcs s)(t := Idle)) + 1"
    using sum_over_upd [OF signal_one.hyps(3), of token "(pcs s)(t := Idle)" G_woken] signal_one.hyps ne
    by simp
  ultimately show ?case by (intro wake_invI) (simp del: fun_upd_apply)
next
  case (get_lock t s)
  have "token (pcs s t) \<le> token G_test" using get_lock.hyps(2) by auto
  from wake_inv_move [OF get_lock.prems get_lock.hyps(1), of G_test "que s"] this
  show ?case by (simp add: wake_inv_def)
next
  case (get_sleep t s)
  then show ?case by (simp add: wake_inv_def queue_must_wait_def)
next
  case (spurious t s)
  from wake_inv_move [OF spurious.prems spurious.hyps(1), of G_woken "que s"] spurious.hyps
  show ?case by (simp add: wake_inv_def)
next
  case (get_unlink t s a q m)
  from wake_inv_move [OF get_unlink.prems get_unlink.hyps(1), of "G_took a (sock m)" q] get_unlink.hyps
  show ?case using get_unlink_qlength [OF get_unlink.hyps(4)] by (simp add: wake_inv_def queue_must_wait_def)
next
  case (get_unlock t s a x)
  from wake_inv_move [OF get_unlock.prems get_unlock.hyps(1), of "G_free a x" "que s"] get_unlock.hyps
  show ?case by (simp add: wake_inv_def)
next
  case (get_free t s a x y q)
  from wake_inv_move [OF get_free.prems get_free.hyps(1), of Idle q] get_free.hyps get_free_qlength
  show ?case by (simp add: wake_inv_def)
qed

lemma qreach_wake: "qreach n s \<Longrightarrow> wake_inv n s"
proof (induction rule: qreach.induct)
  case (q_start q)
  show ?case by (simp add: wake_inv_def qsys_init_def)
next
  case (q_step s t)
  then show ?case by (blast intro: qstep_wake)
qed

section \<open>Every socket is served once\<close>

fun in_hand :: "pc \<Rightarrow> int multiset" where
  "in_hand (G_took a x) = {#x#}"
| "in_hand (G_free a x) = {#x#}"
| "in_hand _ = {#}"

definition served_inv :: "nat \<Rightarrow> qsys \<Rightarrow> bool" where
  "served_inv n s \<longleftrightarrow>
     mset (got_log s) = mset (map snd (served s)) + sum_over in_hand n (pcs s)"

lemma sum_in_hand_same:
  "t < n \<Longrightarrow> in_hand p = in_hand (f t) \<Longrightarrow> sum_over in_hand n (f(t := p)) = sum_over in_hand n f"
  using sum_over_upd [of t n in_hand f p] by simp

lemma qstep_served:
  assumes "qstep n s t" and "served_inv n s" and "list_inv s"
  shows "served_inv n t"
  using assms
proof (induction rule: qstep.induct)
  case (signal_one t s u)
  then have "sum_over in_hand n ((pcs s)(t := Idle, u := G_woken)) = sum_over in_hand n ((pcs s)(t := Idle))"
    by (intro sum_in_hand_same) auto
  also have "\<dots> = sum_over in_hand n (pcs s)" using signal_one by (intro sum_in_hand_same) auto
  finally show ?case using signal_one by (simp add: served_inv_def del: fun_upd_apply)
next
  case (get_lock t s)
  then have "in_hand (pcs s t) = {#}" by auto
  with get_lock show ?case by (simp add: served_inv_def sum_in_hand_same)
next
  case (get_unlink t s a q m)
  then show ?case
    using sum_over_upd [OF get_unlink.hyps(1), of in_hand "pcs s" "G_took a (sock m)"]
    by (simp add: served_inv_def)
next
  case (get_free t s a x y q)
  have "y = x" using get_free by (blast intro: list_inv_free)
  then show ?case
    using get_free sum_over_upd [OF get_free.hyps(1), of in_hand "pcs s" Idle]
    by (simp add: served_inv_def)
qed (simp_all add: served_inv_def sum_in_hand_same)

lemma qreach_served:
  assumes "qreach n s" and "length (put_log s) < 2 ^ 32"
  shows "served_inv n s"
  using assms
proof (induction rule: qreach.induct)
  case (q_start q)
  show ?case by (simp add: served_inv_def qsys_init_def sum_over_def)
next
  case (q_step s t)
  have "length (put_log s) < 2 ^ 32"
    using qstep_put_log [OF q_step.hyps(2)] q_step.prems by (rule le_less_trans)
  then show ?case
    using q_step qreach_list_inv by (blast intro: qstep_served)
qed

section \<open>Progress\<close>

lemma qstep_outside: "qstep n s t \<Longrightarrow> (\<And>u. n \<le> u \<Longrightarrow> pcs s u = Idle) \<Longrightarrow> n \<le> u \<Longrightarrow> pcs t u = Idle"
  by (induction rule: qstep.induct) auto

lemma qreach_outside: "qreach n s \<Longrightarrow> n \<le> u \<Longrightarrow> pcs s u = Idle"
proof (induction arbitrary: u rule: qreach.induct)
  case (q_start q)
  show ?case by (simp add: qsys_init_def)
next
  case (q_step s t)
  then show ?case using qstep_outside by blast
qed

text \<open>A thread in its critical section can always take its next step: no wild pointer there.\<close>

lemma crit_step:
  assumes inv: "list_inv s" and t: "t < n" and c: "in_crit (pcs s t)" and len: "length (put_log s) < 2 ^ 32 - 1"
  shows "\<exists>s'. qstep n s s' \<and> pcs s' t \<noteq> pcs s t"
proof -
  obtain as where r: "queue_repr (que s) as" and o: "owns_ok (pcs s) (heap (que s)) as"
    and l: "got_log s @ socks (heap (que s)) as = put_log s"
    using inv by (auto simp: list_inv_def)
  show ?thesis
  proof (cases "pcs s t")
    case (P_locked a x)
    then obtain m where m: "a \<noteq> 0" "a \<notin> set as" "heap (que s) a = Some m" "nxt m = 0"
      using owns_okD [OF o, of t a x] by auto
    have "length as \<le> length (put_log s)" using arg_cong [OF l, of length] by (simp add: socks_def)
    then have len': "length as < 2 ^ 32 - 1" using len by simp
    obtain q where "queue_put_link a (que s) = Some q"
      by (rule put_link_repr [OF r m(2) m(1) m(3) m(4) len'])
    from qstep.put_link [OF t P_locked this] P_locked show ?thesis by fastforce
  next
    case P_linked
    from qstep.put_unlock [OF t P_linked] P_linked show ?thesis by fastforce
  next
    case G_test
    show ?thesis
    proof (cases "queue_must_wait (que s)")
      case True
      from qstep.get_sleep [OF t G_test True] G_test show ?thesis by fastforce
    next
      case False
      then obtain b bs where as: "as = b # bs" using must_wait_iff [OF r] by (cases as) auto
      obtain q m where q: "queue_get_unlink (que s) = Some (b, q)" "heap q = heap (que s)" "heap (que s) b = Some m"
        using get_unlink_repr r unfolding as by blast
      from qstep.get_unlink [OF t G_test False q(1), of m] q G_test show ?thesis by fastforce
    qed
  next
    case (G_took a x)
    from qstep.get_unlock [OF t G_took] G_took show ?thesis by fastforce
  qed (use c in auto)
qed

text \<open>With a message in the queue some thread that is neither idle nor asleep can move.\<close>

lemma awake_thread_moves:
  assumes r: "qreach n s" and len: "length (put_log s) < 2 ^ 32 - 1"
    and w: "u < n" "pcs s u = G_wait" and q: "\<not> queue_must_wait (que s)"
  shows "\<exists>t < n. pcs s t \<noteq> Idle \<and> pcs s t \<noteq> G_wait \<and> (\<exists>s'. qstep n s s' \<and> pcs s' t \<noteq> pcs s t)"
proof -
  have inv: "list_inv s" using r len by (intro qreach_list_inv) auto
  have mx: "mutex_ok (pcs s) (mtx s)" using r by (rule qreach_mutex)
  have "0 < unat (qlength (que s))" using q by (simp add: queue_must_wait_def unat_gt_0)
  then have "0 < sum_over token n (pcs s)"
    using qreach_wake [OF r] w by (force simp: wake_inv_def)
  then obtain t where t: "t < n" "0 < token (pcs s t)"
    unfolding sum_over_def by (metis lessThan_iff neq0_conv sum.neutral)
  show ?thesis
  proof (cases "in_crit (pcs s t)")
    case True
    then show ?thesis using crit_step [OF inv t(1) True len] t
      by (intro exI [of _ t]) auto
  next
    case False
    then consider "pcs s t = P_signal" | "pcs s t = G_woken"
      using t(2) by (cases "pcs s t") auto
    then show ?thesis
    proof cases
      case 1
      from qstep.signal_one [OF t(1) 1 w] 1 w t show ?thesis by (fastforce split: if_splits)
    next
      case 2
      show ?thesis
      proof (cases "mtx s")
        case None
        from qstep.get_lock [OF t(1) _ None] 2 t show ?thesis by fastforce
      next
        case (Some v)
        then have v: "in_crit (pcs s v)" using mx by (simp add: mutex_ok_def)
        then have "v < n" using qreach_outside [OF r, of v] by (metis in_crit.simps(5) linorder_not_less)
        then show ?thesis using crit_step [OF inv _ v len] v by (intro exI [of _ v]) auto
      qed
    qed
  qed
qed

text \<open>Where the sockets are that have been put.\<close>

lemma put_log_parts:
  assumes "qreach n s" and "length (put_log s) < 2 ^ 32"
  shows "mset (put_log s) =
    mset (contents (que s)) + sum_over in_hand n (pcs s) + mset (map snd (served s))"
proof -
  have "got_log s @ contents (que s) = put_log s"
    using qreach_list_inv [OF assms] by (auto simp: list_inv_def contents_repr)
  then have "mset (put_log s) = mset (got_log s) + mset (contents (que s))"
    by (metis mset_append)
  then show ?thesis
    using qreach_served [OF assms] by (simp add: served_inv_def)
qed

end
