(* ===== verification/Stats_Conc.thy ===== *)
theory Stats_Conc
  imports Stats
begin

text \<open>
  \<open>write_code\<close> and the locked read of \<open>requests\<close> under interleaving: any number of processes (or
  threads) share the counters and the semaphore. Each load and each store of a counter is a step
  of its own. The flag \<open>posts\<close> tells the two versions of \<open>write_code\<close> apart: \<open>True\<close> for the
  process servers, which call \<open>sem_post\<close>, \<open>False\<close> for the thread servers, which do not.
\<close>

datatype wpc =
    W_idle
  | W_wait int | W_load int | W_store int int | W_cload int | W_cstore int int | W_post int
  | R_wait | R_read | R_post

record wsys =
  wshm :: share_statistics
  wsem :: nat
  wpcs :: "nat \<Rightarrow> wpc"
  done_log :: "int list"
  read_log :: "int list"

definition wsys_init :: wsys where
  "wsys_init = \<lparr>wshm = init_statistics, wsem = 1, wpcs = (\<lambda>_. W_idle), done_log = [], read_log = []\<rparr>"

text \<open>The counter that \<open>switch (code / 100)\<close> selects, if any.\<close>

definition class_get :: "int \<Rightarrow> share_statistics \<Rightarrow> int option" where
  "class_get code st =
     (let k = code div 100
      in if k = 2 then Some (code_2xx st) else if k = 3 then Some (code_3xx st)
         else if k = 4 then Some (code_4xx st) else if k = 5 then Some (code_5xx st) else None)"

definition class_set :: "int \<Rightarrow> int \<Rightarrow> share_statistics \<Rightarrow> share_statistics" where
  "class_set code v st =
     (let k = code div 100
      in if k = 2 then st\<lparr>code_2xx := v\<rparr> else if k = 3 then st\<lparr>code_3xx := v\<rparr>
         else if k = 4 then st\<lparr>code_4xx := v\<rparr> else if k = 5 then st\<lparr>code_5xx := v\<rparr> else st)"

inductive wstep :: "bool \<Rightarrow> nat \<Rightarrow> wsys \<Rightarrow> wsys \<Rightarrow> bool" for posts n where
  w_begin: "t < n \<Longrightarrow> wpcs s t = W_idle \<Longrightarrow>
    wstep posts n s (s\<lparr>wpcs := (wpcs s)(t := W_wait c)\<rparr>)"
| w_wait: "t < n \<Longrightarrow> wpcs s t = W_wait c \<Longrightarrow> wsem s = Suc k \<Longrightarrow>
    wstep posts n s (s\<lparr>wsem := k, wpcs := (wpcs s)(t := W_load c)\<rparr>)"
| w_load: "t < n \<Longrightarrow> wpcs s t = W_load c \<Longrightarrow>
    wstep posts n s (s\<lparr>wpcs := (wpcs s)(t := W_store c (requests (wshm s)))\<rparr>)"
| w_store: "t < n \<Longrightarrow> wpcs s t = W_store c r \<Longrightarrow> incr r = Some r' \<Longrightarrow>
    wstep posts n s (s\<lparr>wshm := (wshm s)\<lparr>requests := r'\<rparr>, wpcs := (wpcs s)(t := W_cload c)\<rparr>)"
| w_cload: "t < n \<Longrightarrow> wpcs s t = W_cload c \<Longrightarrow> class_get c (wshm s) = Some v \<Longrightarrow>
    wstep posts n s (s\<lparr>wpcs := (wpcs s)(t := W_cstore c v)\<rparr>)"
| w_default: "t < n \<Longrightarrow> wpcs s t = W_cload c \<Longrightarrow> class_get c (wshm s) = None \<Longrightarrow>
    wstep posts n s (s\<lparr>wpcs := (wpcs s)(t := W_post c)\<rparr>)"
| w_cstore: "t < n \<Longrightarrow> wpcs s t = W_cstore c v \<Longrightarrow> incr v = Some v' \<Longrightarrow>
    wstep posts n s (s\<lparr>wshm := class_set c v' (wshm s), wpcs := (wpcs s)(t := W_post c)\<rparr>)"
| w_post: "t < n \<Longrightarrow> wpcs s t = W_post c \<Longrightarrow>
    wstep posts n s (s\<lparr>wsem := (if posts then Suc (wsem s) else wsem s),
      wpcs := (wpcs s)(t := W_idle), done_log := done_log s @ [c]\<rparr>)"
| r_begin: "t < n \<Longrightarrow> wpcs s t = W_idle \<Longrightarrow>
    wstep posts n s (s\<lparr>wpcs := (wpcs s)(t := R_wait)\<rparr>)"
| r_wait: "t < n \<Longrightarrow> wpcs s t = R_wait \<Longrightarrow> wsem s = Suc k \<Longrightarrow>
    wstep posts n s (s\<lparr>wsem := k, wpcs := (wpcs s)(t := R_read)\<rparr>)"
| r_read: "t < n \<Longrightarrow> wpcs s t = R_read \<Longrightarrow>
    wstep posts n s (s\<lparr>wpcs := (wpcs s)(t := R_post), read_log := read_log s @ [requests (wshm s)]\<rparr>)"
| r_post: "t < n \<Longrightarrow> wpcs s t = R_post \<Longrightarrow>
    wstep posts n s (s\<lparr>wsem := Suc (wsem s), wpcs := (wpcs s)(t := W_idle)\<rparr>)"

inductive wreach :: "bool \<Rightarrow> nat \<Rightarrow> wsys \<Rightarrow> bool" for posts n where
  wr_start: "wreach posts n wsys_init"
| wr_step: "wreach posts n s \<Longrightarrow> wstep posts n s t \<Longrightarrow> wreach posts n t"

section \<open>The semaphore\<close>

text \<open>Threads that have passed \<open>sem_wait\<close> and not yet left the protected part.\<close>

fun in_section :: "wpc \<Rightarrow> nat" where
  "in_section (W_load _) = 1"
| "in_section (W_store _ _) = 1"
| "in_section (W_cload _) = 1"
| "in_section (W_cstore _ _) = 1"
| "in_section (W_post _) = 1"
| "in_section R_read = 1"
| "in_section R_post = 1"
| "in_section _ = 0"

definition sem_balance :: "bool \<Rightarrow> nat \<Rightarrow> wsys \<Rightarrow> nat" where
  "sem_balance posts n s =
     wsem s + sum_over in_section n (wpcs s) + (if posts then 0 else length (done_log s))"

lemma wstep_balance: "wstep posts n s t \<Longrightarrow> sem_balance posts n t = sem_balance posts n s"
proof (induction rule: wstep.induct)
  case (w_begin t s c)
  then show ?case using sum_over_upd [of t n in_section "wpcs s" "W_wait c"] by (simp add: sem_balance_def)
next
  case (w_wait t s c k)
  then show ?case using sum_over_upd [of t n in_section "wpcs s" "W_load c"] by (simp add: sem_balance_def)
next
  case (w_load t s c)
  then show ?case using sum_over_upd [of t n in_section "wpcs s" "W_store c (requests (wshm s))"]
    by (simp add: sem_balance_def)
next
  case (w_store t s c r r')
  then show ?case using sum_over_upd [of t n in_section "wpcs s" "W_cload c"] by (simp add: sem_balance_def)
next
  case (w_cload t s c v)
  then show ?case using sum_over_upd [of t n in_section "wpcs s" "W_cstore c v"] by (simp add: sem_balance_def)
next
  case (w_default t s c)
  then show ?case using sum_over_upd [of t n in_section "wpcs s" "W_post c"] by (simp add: sem_balance_def)
next
  case (w_cstore t s c v v')
  then show ?case using sum_over_upd [of t n in_section "wpcs s" "W_post c"] by (simp add: sem_balance_def)
next
  case (w_post t s c)
  then show ?case using sum_over_upd [of t n in_section "wpcs s" W_idle] by (simp add: sem_balance_def)
next
  case (r_begin t s)
  then show ?case using sum_over_upd [of t n in_section "wpcs s" R_wait] by (simp add: sem_balance_def)
next
  case (r_wait t s k)
  then show ?case using sum_over_upd [of t n in_section "wpcs s" R_read] by (simp add: sem_balance_def)
next
  case (r_read t s)
  then show ?case using sum_over_upd [of t n in_section "wpcs s" R_post] by (simp add: sem_balance_def)
next
  case (r_post t s)
  then show ?case using sum_over_upd [of t n in_section "wpcs s" W_idle] by (simp add: sem_balance_def)
qed

lemma wreach_balance: "wreach posts n s \<Longrightarrow> sem_balance posts n s = 1"
proof (induction rule: wreach.induct)
  case wr_start
  show ?case by (simp add: sem_balance_def wsys_init_def sum_over_def)
next
  case (wr_step s t)
  then show ?case by (simp add: wstep_balance)
qed

lemma one_in_section:
  assumes "wreach posts n s" and "t < n" and "u < n" and "in_section (wpcs s t) = 1" and "in_section (wpcs s u) = 1"
  shows "t = u"
proof (rule ccontr)
  assume "t \<noteq> u"
  then have "2 \<le> sum_over in_section n (wpcs s)"
    using sum_over_two [of t n u in_section "wpcs s"] assms by simp
  then show False using wreach_balance [OF assms(1)] by (simp add: sem_balance_def)
qed

section \<open>No update is lost\<close>

text \<open>How far the thread in the section is with its own code.\<close>

fun in_flight :: "wpc \<Rightarrow> share_statistics \<Rightarrow> share_statistics \<Rightarrow> bool" where
  "in_flight (W_load c) st cur \<longleftrightarrow> cur = st"
| "in_flight (W_store c r) st cur \<longleftrightarrow> cur = st \<and> r = requests st"
| "in_flight (W_cload c) st cur \<longleftrightarrow> requests st < INT_MAX \<and> cur = st\<lparr>requests := requests st + 1\<rparr>"
| "in_flight (W_cstore c v) st cur \<longleftrightarrow> requests st < INT_MAX \<and>
     cur = st\<lparr>requests := requests st + 1\<rparr> \<and> class_get c cur = Some v"
| "in_flight (W_post c) st cur \<longleftrightarrow> count_code c st = Some cur"
| "in_flight _ st cur \<longleftrightarrow> cur = st"

definition count_inv :: "nat \<Rightarrow> wsys \<Rightarrow> bool" where
  "count_inv n s \<longleftrightarrow> (\<exists>st. count_all (done_log s) init_statistics = Some st \<and>
     (\<forall>t < n. in_section (wpcs s t) = 1 \<longrightarrow> in_flight (wpcs s t) st (wshm s)) \<and>
     (sum_over in_section n (wpcs s) = 0 \<longrightarrow> wshm s = st))"


text \<open>A step of the thread in the section, or of one that enters or leaves it.\<close>

lemma section_upd:
  assumes "t < n" and "\<And>u. u < n \<Longrightarrow> u \<noteq> t \<Longrightarrow> in_section (pcs u) = 0"
  shows "sum_over in_section n (pcs(t := p)) = in_section p"
proof -
  have "sum_over in_section n (pcs(t := W_idle)) = 0"
    using assms(2) by (auto simp: sum_over_zero)
  then show ?thesis
    using sum_over_upd [of t n in_section "pcs(t := W_idle)" p] assms(1) by simp
qed

lemma in_section_le: "in_section p \<le> 1"
  by (cases p) auto

lemma others_out:
  assumes "wreach posts n s" and "t < n" and "in_section (wpcs s t) = 1 \<or> sum_over in_section n (wpcs s) = 0"
    and "u < n" and "u \<noteq> t"
  shows "in_section (wpcs s u) = 0"
proof (rule ccontr)
  assume "in_section (wpcs s u) \<noteq> 0"
  then have u: "in_section (wpcs s u) = 1" using in_section_le [of "wpcs s u"] by simp
  then have "sum_over in_section n (wpcs s) \<noteq> 0"
    using assms(4) by (auto simp: sum_over_zero)
  then show False using one_in_section [OF assms(1,2,4)] u assms(3,5) by auto
qed

lemma count_inv_move:
  assumes "wreach posts n s" and "t < n"
    and "in_section (wpcs s t) = 1 \<or> sum_over in_section n (wpcs s) = 0"
    and "wpcs s' = (wpcs s)(t := p)"
    and "count_all (done_log s') init_statistics = Some st"
    and "in_section p = 1 \<Longrightarrow> in_flight p st (wshm s')"
    and "in_section p = 0 \<Longrightarrow> wshm s' = st"
  shows "count_inv n s'"
  unfolding count_inv_def
proof (intro exI conjI allI impI)
  show "count_all (done_log s') init_statistics = Some st" by (fact assms(5))
next
  fix u
  assume "u < n" and "in_section (wpcs s' u) = 1"
  then show "in_flight (wpcs s' u) st (wshm s')"
    using others_out [OF assms(1-3), of u] assms(4,6) by (cases "u = t") auto
next
  assume "sum_over in_section n (wpcs s') = 0"
  then show "wshm s' = st"
    using section_upd [OF assms(2), of "wpcs s" p] others_out [OF assms(1-3)] assms(4,7) by simp
qed

lemma count_code_flight:
  assumes "in_flight (W_cload c) st cur"
  shows "class_get c cur = None \<Longrightarrow> count_code c st = Some cur"
    and "class_get c cur = Some v \<Longrightarrow> incr v = Some v' \<Longrightarrow> count_code c st = Some (class_set c v' cur)"
  using assms by (auto simp: class_get_def class_set_def count_code_def Let_def incr_def split: if_splits)

lemma count_inv_idle:
  assumes "count_inv n s" and "t < n" and "in_section (wpcs s t) = 0" and "in_section p = 0"
  shows "count_inv n (s\<lparr>wpcs := (wpcs s)(t := p)\<rparr>)"
proof -
  have "sum_over in_section n ((wpcs s)(t := p)) = sum_over in_section n (wpcs s)"
    using sum_over_upd [OF assms(2), of in_section "wpcs s" p] assms(3,4) by simp
  then show ?thesis using assms unfolding count_inv_def by (auto split: if_splits)
qed

lemma count_inv_flight:
  assumes "count_inv n s" and "t < n" and "in_section (wpcs s t) = 1"
  obtains st where "count_all (done_log s) init_statistics = Some st" and "in_flight (wpcs s t) st (wshm s)"
  using assms unfolding count_inv_def by blast

lemma count_inv_rest:
  assumes "count_inv n s" and "sum_over in_section n (wpcs s) = 0"
  shows "count_all (done_log s) init_statistics = Some (wshm s)"
  using assms unfolding count_inv_def by auto

text \<open>A free semaphore means that nobody is in the section.\<close>

lemma sem_free_section: "wreach posts n s \<Longrightarrow> wsem s = Suc k \<Longrightarrow> sum_over in_section n (wpcs s) = 0"
  using wreach_balance [of posts n s] by (simp add: sem_balance_def)

lemma wstep_count_inv:
  assumes "wstep posts n s s'" and "wreach posts n s" and "count_inv n s"
  shows "count_inv n s'"
  using assms
proof (induction rule: wstep.induct)
  case (w_begin t s c)
  then show ?case by (intro count_inv_idle) auto
next
  case (w_wait t s c k)
  show ?case
    by (rule count_inv_move [of posts n s t _ "W_load c" "wshm s"])
       (use w_wait sem_free_section [of posts n s k] count_inv_rest [of n s] in auto)
next
  case (w_load t s c)
  obtain st where "count_all (done_log s) init_statistics = Some st" "in_flight (wpcs s t) st (wshm s)"
    using count_inv_flight [of n s t] w_load by auto
  with w_load show ?case
    by (intro count_inv_move [of posts n s t _ "W_store c (requests (wshm s))" st]) auto
next
  case (w_store t s c r r')
  obtain st where "count_all (done_log s) init_statistics = Some st" "in_flight (wpcs s t) st (wshm s)"
    using count_inv_flight [of n s t] w_store by auto
  with w_store show ?case
    by (intro count_inv_move [of posts n s t _ "W_cload c" st]) (auto simp: incr_def split: if_splits)
next
  case (w_cload t s c v)
  obtain st where "count_all (done_log s) init_statistics = Some st" "in_flight (wpcs s t) st (wshm s)"
    using count_inv_flight [of n s t] w_cload by auto
  with w_cload show ?case
    by (intro count_inv_move [of posts n s t _ "W_cstore c v" st]) auto
next
  case (w_default t s c)
  obtain st where "count_all (done_log s) init_statistics = Some st" "in_flight (wpcs s t) st (wshm s)"
    using count_inv_flight [of n s t] w_default by auto
  with w_default show ?case
    using count_code_flight(1) [of c st "wshm s"]
    by (intro count_inv_move [of posts n s t _ "W_post c" st]) auto
next
  case (w_cstore t s c v v')
  obtain st where "count_all (done_log s) init_statistics = Some st" "in_flight (wpcs s t) st (wshm s)"
    using count_inv_flight [of n s t] w_cstore by auto
  with w_cstore show ?case
    using count_code_flight(2) [of c st "wshm s" v v']
    by (intro count_inv_move [of posts n s t _ "W_post c" st]) auto
next
  case (w_post t s c)
  obtain st where "count_all (done_log s) init_statistics = Some st" "in_flight (wpcs s t) st (wshm s)"
    using count_inv_flight [of n s t] w_post by auto
  with w_post show ?case
    by (intro count_inv_move [of posts n s t _ W_idle "wshm s"]) (auto simp: count_all_append)
next
  case (r_begin t s)
  then show ?case by (intro count_inv_idle) auto
next
  case (r_wait t s k)
  show ?case
    by (rule count_inv_move [of posts n s t _ R_read "wshm s"])
       (use r_wait sem_free_section [of posts n s k] count_inv_rest [of n s] in auto)
next
  case (r_read t s)
  obtain st where "count_all (done_log s) init_statistics = Some st" "in_flight (wpcs s t) st (wshm s)"
    using count_inv_flight [of n s t] r_read by auto
  with r_read show ?case
    by (intro count_inv_move [of posts n s t _ R_post st]) auto
next
  case (r_post t s)
  obtain st where "count_all (done_log s) init_statistics = Some st" "in_flight (wpcs s t) st (wshm s)"
    using count_inv_flight [of n s t] r_post by auto
  with r_post show ?case
    by (intro count_inv_move [of posts n s t _ W_idle st]) auto
qed

lemma wreach_count_inv: "wreach posts n s \<Longrightarrow> count_inv n s"
proof (induction rule: wreach.induct)
  case wr_start
  show ?case by (simp add: count_inv_def wsys_init_def sum_over_def)
next
  case (wr_step s t)
  show ?case using wr_step.hyps(2) wr_step.hyps(1) wr_step.IH by (rule wstep_count_inv)
qed

text \<open>What the locked reads have seen: counts of finished requests, in order.\<close>

definition read_inv :: "wsys \<Rightarrow> bool" where
  "read_inv s \<longleftrightarrow> sorted (read_log s) \<and> (\<forall>r \<in> set (read_log s). r \<le> int (length (done_log s)))"

lemma wstep_read_inv:
  assumes "wstep posts n s s'" and "wreach posts n s" and "read_inv s"
  shows "read_inv s'"
  using assms
proof (cases rule: wstep.cases)
  case (r_read t)
  obtain st where "count_all (done_log s) init_statistics = Some st" "in_flight (wpcs s t) st (wshm s)"
    using count_inv_flight [of n s t] wreach_count_inv [OF assms(2)] r_read by auto
  then have "requests (wshm s) = int (length (done_log s))"
    using count_all_requests [of "done_log s" init_statistics st] r_read
    by (simp add: init_statistics_def)
  then show ?thesis using assms(3) r_read by (auto simp: read_inv_def sorted_append)
qed (auto simp: read_inv_def)

lemma wreach_read_inv: "wreach posts n s \<Longrightarrow> read_inv s"
proof (induction rule: wreach.induct)
  case wr_start
  show ?case by (simp add: read_inv_def wsys_init_def)
next
  case (wr_step s t)
  show ?case using wr_step.hyps(2) wr_step.hyps(1) wr_step.IH by (rule wstep_read_inv)
qed

section \<open>The version without sem_post\<close>

text \<open>
  One \<open>write_code\<close> takes the semaphore for good: from then on no thread gets past \<open>sem_wait\<close>.
\<close>

lemma done_once: "wreach False n s \<Longrightarrow> length (done_log s) \<le> 1"
  using wreach_balance [of False n s] by (simp add: sem_balance_def)

lemma done_stuck:
  assumes "wreach False n s" and "done_log s \<noteq> []"
  shows "wsem s = 0" and "sum_over in_section n (wpcs s) = 0"
  using wreach_balance [OF assms(1)] assms(2) by (cases "done_log s"; simp add: sem_balance_def)+

end
