(* ===== verification/Examples.thy ===== *)
theory Examples
  imports Server_Facts Process_Handling Single_Server Task_List Fd_Passing Queue_Conc Stats_Conc
begin

text \<open>
  A small machine on which the properties are run: a directory \<open>docs\<close>, a file \<open>a.txt\<close>, system
  calls that succeed, a fresh process with the shared counters attached.
\<close>

definition ex_env :: env where
  "ex_env = \<lparr>stat_isdir = (\<lambda>p. if p = ''docs'' then Inr True else if p = ''a.txt'' then Inr False else Inl 2),
     faccess_errno = (\<lambda>p. if p = ''a.txt'' then None else Some 2),
     open_rdonly = (\<lambda>p. if p = ''a.txt'' then Inr [Rd ''hello'', Rd_intr, Rd '' world''] else Inl 2),
     open_dir = (\<lambda>p. if p = ''docs'' then Inr [''x'', ''y''] else Inl 20),
     strerror = (\<lambda>e. ''error''), pipe_errno = None, fork_res = Inr 77, is_linux = False,
     sem_open_ok = True, ftok_ok = True, shmget_res = Some 3, shmat_ok = True, fails = (\<lambda>c. None)\<rparr>"

definition ex_sys :: "string \<Rightarrow> sys" where
  "ex_sys bytes = \<lparr>rx = bytes, sendq = [], tx = [], errno = 0, sigpipe_ign = False,
     share_address = P_segment, shm = init_statistics, shm_id = -1, sem = 1, sem_exists = True,
     user1_sem = 0, user1_exists = False, calls = [], printed = [],
     req_buf = calloc_req_line, recv_buffer = calloc_buffer, alarm_count = 0, need_stop_script = 0,
     alarm_handler = H_default, alarm_armed = False, kills = [], waits = [], fds = [0, 1, 2],
     shut = [], replies = []\<rparr>"

lemma ex_sys_simps [simp]:
  "rx (ex_sys b) = b" "sendq (ex_sys b) = []" "tx (ex_sys b) = []" "sem (ex_sys b) = 1"
  "shm (ex_sys b) = init_statistics" "share_address (ex_sys b) = P_segment" "fds (ex_sys b) = [0, 1, 2]"
  "shut (ex_sys b) = []" "replies (ex_sys b) = []" "kills (ex_sys b) = []" "waits (ex_sys b) = []"
  "need_stop_script (ex_sys b) = 0" "sigpipe_ign (ex_sys b) = False" "sem_exists (ex_sys b) = True"
  "user1_sem (ex_sys b) = 0" "printed (ex_sys b) = []" "calls (ex_sys b) = []" "errno (ex_sys b) = 0"
  "alarm_handler (ex_sys b) = H_default" "alarm_armed (ex_sys b) = False" "alarm_count (ex_sys b) = 0"
  by (simp_all add: ex_sys_def)

lemma ex_ready: "ready (ex_sys b)"
  using stats_inv_init by (simp add: ready_def init_statistics_def INT_MAX_def)

lemma ex_env_short: "env_short ex_env"
  by (auto simp: env_short_def ex_env_def split: if_splits)

lemma ex_env_simps [simp]:
  "sem_open_ok ex_env" "ftok_ok ex_env" "shmat_ok ex_env" "shmget_res ex_env = Some 3"
  "fails ex_env c = None" "pipe_errno ex_env = None" "fork_res ex_env = Inr 77" "\<not> is_linux ex_env"
  by (simp_all add: ex_env_def)

lemma ex_request_ok: "request_ok ''GET'' ''/a.txt'' ''HTTP/1.1''"
  by (simp add: request_ok_def is_valid_def BUFFSIZE_def URI_LIMIT_def version_fits_short)

lemma ex_good_request:
  "good_request ''GET'' ''/a.txt'' ''HTTP/1.1'' [] (ex_sys (render_request ''GET'' ''/a.txt'' ''HTTP/1.1''))"
  using ex_request_ok by (simp add: good_request_def BUFFSIZE_def)

lemma ex_version: "version_spec ''HTTP/1.1'' = \<lparr>major = 1, minor = 1\<rparr>"
  by code_simp

lemma ex_method: "method_spec ''GET'' = GET" "method_spec ''POST'' = POST" "method_spec ''PUT'' = OTHER"
  by (simp_all add: method_spec_def tolower_def numeral_3_eq_3)

lemma ex_target: "target_of ''/a.txt'' = T_path ''a.txt''"
  by (simp add: target_of_def tolower_def)

lemma ex_not_script: "\<forall>c. target_of ''/a.txt'' \<noteq> T_script c"
  by (simp add: ex_target)

lemma ex_path_answer: "path_answer ex_env ''/a.txt'' = (200, status_line 200 ''Ok'' @ CRLF @ ''hello world'')"
  by (simp add: path_answer_def ex_env_def)

lemma ex_answer: "request_answer ex_env n ''GET'' ''/a.txt'' ''HTTP/1.1'' =
    (200, status_line 200 ''Ok'' @ CRLF @ ''hello world'')"
  by (simp add: request_answer_def ex_method ex_version ex_target ex_path_answer)

text \<open>The request for the file on the small machine, and that it is served to the end.\<close>

definition ex_get :: string where
  "ex_get = render_request ''GET'' ''/a.txt'' ''HTTP/1.1''"

lemma ex_pf_returns: "\<exists>s'. pf_do_call ex_env [] 4 (ex_sys ex_get) = Ret () s'"
proof -
  have "answered 0 (request_answer ex_env (requests (shm (new_buffers (ex_sys ex_get)))) ''GET'' ''/a.txt'' ''HTTP/1.1'')
      (new_buffers (ex_sys ex_get)) (serve_request ms_read_request_line ms_response (pf_route ex_env []) (new_buffers (ex_sys ex_get)))"
    by (rule serve_process_answered(1))
       (use ex_good_request ex_ready ex_env_short ex_not_script in
         \<open>auto simp: good_request_new_buffers ex_get_def\<close>)
  then show ?thesis by (auto simp: answered_def pf_do_call_def)
qed

lemma ex_th_returns: "\<exists>s'. th_do_call ex_env 4 (ex_sys ex_get) = Ret () s'"
proof -
  have "answered 1 (request_answer ex_env (requests (shm (new_buffers (ex_sys ex_get)))) ''GET'' ''/a.txt'' ''HTTP/1.1'')
      (new_buffers (ex_sys ex_get)) (serve_request thr_read_request_line thr_response (thr_route ex_env) (new_buffers (ex_sys ex_get)))"
    by (rule serve_thread_answered)
       (use ex_good_request ex_ready ex_env_short in \<open>auto simp: good_request_new_buffers ex_get_def\<close>)
  then show ?thesis by (auto simp: answered_def th_do_call_def)
qed

section \<open>Two threads on the queue\<close>

text \<open>Thread 0 falls asleep in \<open>queue_get\<close>, thread 1 puts a socket and has not signalled yet.\<close>

definition ex_queue :: queue where
  "ex_queue = \<lparr>heap = (\<lambda>_. None), first = 0, last_msg = 0, qlength = 0\<rparr>"

definition ex_q1 :: qsys where
  "ex_q1 = (qsys_init ex_queue)\<lparr>pcs := (\<lambda>_. Idle)(0 := G_wait)\<rparr>"

definition ex_q2 :: qsys where
  "ex_q2 = ex_q1\<lparr>que := \<lparr>heap = [5 \<mapsto> \<lparr>sock = 9, nxt = 0\<rparr>], first = 5, last_msg = 5, qlength = 1\<rparr>,
     mtx := Some 1, pcs := (\<lambda>_. Idle)(0 := G_wait, 1 := P_linked), put_log := [9]\<rparr>"

lemma ex_reach1: "qreach 2 ex_q1"
proof -
  let ?s = "qsys_init ex_queue"
  let ?a = "?s\<lparr>mtx := Some 0, pcs := (pcs ?s)(0 := G_test)\<rparr>"
  have "qstep 2 ?s ?a" by (rule qstep.get_lock) (simp_all add: qsys_init_def)
  then have a: "qreach 2 ?a" by (rule qreach.q_step [OF qreach.q_start])
  have "qstep 2 ?a (?a\<lparr>mtx := None, pcs := (pcs ?a)(0 := G_wait)\<rparr>)"
    by (rule qstep.get_sleep) (simp_all add: qsys_init_def queue_must_wait_def queue_init_def)
  then have "qreach 2 (?a\<lparr>mtx := None, pcs := (pcs ?a)(0 := G_wait)\<rparr>)" by (rule qreach.q_step [OF a])
  then show ?thesis by (simp add: ex_q1_def qsys_init_def)
qed

lemma ex_reach2: "qreach 2 ex_q2"
proof -
  let ?s = ex_q1
  let ?a = "?s\<lparr>que := queue_put_alloc 5 9 (que ?s), pcs := (pcs ?s)(1 := P_alloc 5 9)\<rparr>"
  have "qstep 2 ?s ?a"
    by (rule qstep.put_alloc) (simp_all add: ex_q1_def qsys_init_def ex_queue_def queue_init_def fresh_addr_def)
  then have a: "qreach 2 ?a" by (rule qreach.q_step [OF ex_reach1])
  let ?b = "?a\<lparr>mtx := Some 1, pcs := (pcs ?a)(1 := P_locked 5 9)\<rparr>"
  have "qstep 2 ?a ?b" by (rule qstep.put_lock) (simp_all add: ex_q1_def qsys_init_def)
  then have b: "qreach 2 ?b" by (rule qreach.q_step [OF a])
  let ?q = "\<lparr>heap = [5 \<mapsto> \<lparr>sock = 9, nxt = 0\<rparr>], first = 5, last_msg = 5, qlength = 1\<rparr>"
  let ?c = "?b\<lparr>que := ?q, pcs := (pcs ?b)(1 := P_linked), put_log := put_log ?b @ [9]\<rparr>"
  have "qstep 2 ?b ?c"
    by (rule qstep.put_link)
       (simp_all add: ex_q1_def qsys_init_def ex_queue_def queue_init_def queue_put_alloc_def queue_put_link_def)
  then have "qreach 2 ?c" by (rule qreach.q_step [OF b])
  then show ?thesis by (simp add: ex_q2_def ex_q1_def qsys_init_def)
qed

lemma ex_q2_simps [simp]:
  "put_log ex_q2 = [9]" "got_log ex_q2 = []" "served ex_q2 = []" "pcs ex_q2 0 = G_wait" "pcs ex_q2 (Suc 0) = P_linked"
  "contents (que ex_q2) = [9]" "\<not> queue_must_wait (que ex_q2)"
  by (simp_all add: ex_q2_def ex_q1_def qsys_init_def contents_def queue_must_wait_def)

section \<open>Two processes on the counters\<close>

text \<open>Process 0 has counted a 200, process 1 a 404; with \<open>posts\<close> false only the first can.\<close>

definition ex_w1 :: "bool \<Rightarrow> wsys" where
  "ex_w1 posts = wsys_init\<lparr>wshm := counted 200 init_statistics, wsem := (if posts then 1 else 0), done_log := [200]\<rparr>"

lemma ex_wreach1: "wreach posts 2 (ex_w1 posts)"
proof -
  let ?s0 = wsys_init
  let ?s1 = "?s0\<lparr>wpcs := (wpcs ?s0)(0 := W_wait 200)\<rparr>"
  have "wstep posts 2 ?s0 ?s1" by (rule wstep.w_begin) (simp_all add: wsys_init_def)
  then have r1: "wreach posts 2 ?s1" by (rule wreach.wr_step [OF wreach.wr_start])
  let ?s2 = "?s1\<lparr>wsem := 0, wpcs := (wpcs ?s1)(0 := W_load 200)\<rparr>"
  have "wstep posts 2 ?s1 ?s2" by (rule wstep.w_wait) (simp_all add: wsys_init_def)
  then have r2: "wreach posts 2 ?s2" by (rule wreach.wr_step [OF r1])
  let ?s3 = "?s2\<lparr>wpcs := (wpcs ?s2)(0 := W_store 200 (requests (wshm ?s2)))\<rparr>"
  have "wstep posts 2 ?s2 ?s3" by (rule wstep.w_load) (simp_all add: wsys_init_def)
  then have r3: "wreach posts 2 ?s3" by (rule wreach.wr_step [OF r2])
  let ?s4 = "?s3\<lparr>wshm := (wshm ?s3)\<lparr>requests := 1\<rparr>, wpcs := (wpcs ?s3)(0 := W_cload 200)\<rparr>"
  have "wstep posts 2 ?s3 ?s4"
    by (rule wstep.w_store [where r = 0 and c = 200]) (simp_all add: wsys_init_def init_statistics_def incr_def INT_MAX_def)
  then have r4: "wreach posts 2 ?s4" by (rule wreach.wr_step [OF r3])
  let ?s5 = "?s4\<lparr>wpcs := (wpcs ?s4)(0 := W_cstore 200 0)\<rparr>"
  have "wstep posts 2 ?s4 ?s5"
    by (rule wstep.w_cload) (simp_all add: wsys_init_def init_statistics_def class_get_def)
  then have r5: "wreach posts 2 ?s5" by (rule wreach.wr_step [OF r4])
  let ?s6 = "?s5\<lparr>wshm := class_set 200 1 (wshm ?s5), wpcs := (wpcs ?s5)(0 := W_post 200)\<rparr>"
  have "wstep posts 2 ?s5 ?s6"
    by (rule wstep.w_cstore [where v = 0]) (simp_all add: incr_def INT_MAX_def)
  then have r6: "wreach posts 2 ?s6" by (rule wreach.wr_step [OF r5])
  let ?s7 = "?s6\<lparr>wsem := (if posts then Suc (wsem ?s6) else wsem ?s6), wpcs := (wpcs ?s6)(0 := W_idle),
    done_log := done_log ?s6 @ [200]\<rparr>"
  have "wstep posts 2 ?s6 ?s7" by (rule wstep.w_post) simp_all
  then have r7: "wreach posts 2 ?s7" by (rule wreach.wr_step [OF r6])
  have shm: "class_set 200 1 (init_statistics\<lparr>requests := 1\<rparr>) = counted 200 init_statistics"
    by (simp add: class_set_def counted_def count_code_def incr_def INT_MAX_def init_statistics_def)
  have "?s7 = ex_w1 posts"
    by (cases posts) (simp_all add: ex_w1_def wsys_init_def shm [symmetric] fun_upd_idem)
  with r7 show ?thesis by (simp only:)
qed

lemma ex_w1_simps [simp]: "done_log (ex_w1 posts) = [200]" "wpcs (ex_w1 posts) = (\<lambda>_. W_idle)"
  by (simp_all add: ex_w1_def wsys_init_def)

end
