(* ===== verification/Queue_Server.thy ===== *)
theory Queue_Server
  imports Queue_Conc Stats_Conc
begin

text \<open>
  The program of \<open>multi_server_thread_blocking_queue.c\<close> with all its threads: the accepting thread
  puts connections into the queue, each pool thread takes one, handles it and starts again. The
  steps are those of \<open>Queue_Conc\<close> and of \<open>Stats_Conc\<close>, with the order in which one thread makes them:
  a pool thread enters \<open>queue_get\<close> only between two connections, and reads the statistics or calls
  \<open>write_code\<close> only while it handles one. (What it sends does not matter here: \<open>write_code\<close> is called once
  for each connection, see \<open>thr_serve_answers\<close>, and the connection is \<^emph>\<open>finished\<close> when it has returned. A reply
  of \<open>response\<close> has been sent before that, the data of a file or a listing is sent after it. The clients
  complete their requests; one that did not would keep its thread for ever.)
\<close>

section \<open>The threads\<close>

datatype role = Accepting | In_queue | Handling

record server_sys =
  sq :: qsys
  sw :: wsys
  roles :: "nat \<Rightarrow> role"

text \<open>The pool threads are 0 to \<open>pool - 1\<close> (\<open>pool\<close> is 16 in the code), the accepting one is \<open>pool\<close>.\<close>

definition server_init :: "nat \<Rightarrow> queue \<Rightarrow> server_sys" where
  "server_init pool q =
     \<lparr>sq = qsys_init q, sw = wsys_init, roles = (\<lambda>t. if t = pool then Accepting else In_queue)\<rparr>"

text \<open>Which function of the queue a thread may call.\<close>

fun may_enter :: "role \<Rightarrow> pc \<Rightarrow> bool" where
  "may_enter Accepting (P_alloc _ _) = True"
| "may_enter In_queue G_test = True"
| "may_enter _ _ = False"

text \<open>The return of \<open>queue_get\<close> begins the handling of a connection, that of \<open>write_code\<close> ends it.\<close>

definition after_queue :: "(nat \<Rightarrow> pc) \<Rightarrow> (nat \<Rightarrow> pc) \<Rightarrow> (nat \<Rightarrow> role) \<Rightarrow> nat \<Rightarrow> role" where
  "after_queue f g r t = (case f t of G_free _ _ \<Rightarrow> if g t = Idle then Handling else r t | _ \<Rightarrow> r t)"

definition after_count :: "(nat \<Rightarrow> wpc) \<Rightarrow> (nat \<Rightarrow> wpc) \<Rightarrow> (nat \<Rightarrow> role) \<Rightarrow> nat \<Rightarrow> role" where
  "after_count f g r t = (case f t of W_post _ \<Rightarrow> if g t = W_idle then In_queue else r t | _ \<Rightarrow> r t)"

inductive server_step :: "nat \<Rightarrow> server_sys \<Rightarrow> server_sys \<Rightarrow> bool" for pool where
  sv_queue: "qstep (Suc pool) (sq s) q \<Longrightarrow>
    \<forall>t. pcs (sq s) t = Idle \<and> pcs q t \<noteq> Idle \<longrightarrow> may_enter (roles s t) (pcs q t) \<Longrightarrow>
    server_step pool s (s\<lparr>sq := q, roles := after_queue (pcs (sq s)) (pcs q) (roles s)\<rparr>)"
| sv_count: "wstep False (Suc pool) (sw s) w \<Longrightarrow>
    \<forall>t. wpcs (sw s) t = W_idle \<and> wpcs w t \<noteq> W_idle \<longrightarrow> roles s t = Handling \<Longrightarrow>
    server_step pool s (s\<lparr>sw := w, roles := after_count (wpcs (sw s)) (wpcs w) (roles s)\<rparr>)"

abbreviation server_reach :: "nat \<Rightarrow> queue \<Rightarrow> server_sys \<Rightarrow> bool" where
  "server_reach pool q s \<equiv> (server_step pool)\<^sup>*\<^sup>* (server_init pool q) s"

section \<open>The two parts of the program\<close>

lemma server_parts:
  assumes "server_reach pool q s"
  shows "qreach (Suc pool) (sq s)" and "wreach False (Suc pool) (sw s)"
proof -
  have "qreach (Suc pool) (sq s) \<and> wreach False (Suc pool) (sw s)"
    using assms
  proof (induction rule: rtranclp_induct)
    case base
    show ?case by (simp add: server_init_def qreach.q_start wreach.wr_start)
  next
    case (step s t)
    from step.hyps(2) step.IH show ?case
      by cases (auto intro: qreach.q_step wreach.wr_step)
  qed
  then show "qreach (Suc pool) (sq s)" and "wreach False (Suc pool) (sw s)" by simp_all
qed

section \<open>What each thread is doing\<close>

fun queue_role :: "role \<Rightarrow> pc \<Rightarrow> bool" where
  "queue_role Accepting p \<longleftrightarrow> p = Idle \<or> p = P_linked \<or> p = P_signal \<or> (\<exists>a x. p = P_alloc a x \<or> p = P_locked a x)"
| "queue_role In_queue p \<longleftrightarrow>
     p = Idle \<or> p = G_test \<or> p = G_wait \<or> p = G_woken \<or> (\<exists>a x. p = G_took a x \<or> p = G_free a x)"
| "queue_role Handling p \<longleftrightarrow> p = Idle"

definition roles_ok :: "nat \<Rightarrow> server_sys \<Rightarrow> bool" where
  "roles_ok pool s \<longleftrightarrow> (\<forall>t. (roles s t = Accepting \<longleftrightarrow> t = pool) \<and> queue_role (roles s t) (pcs (sq s) t) \<and>
     (roles s t \<noteq> Handling \<longrightarrow> wpcs (sw s) t = W_idle))"

definition handling :: "role \<Rightarrow> nat" where
  "handling r = (if r = Handling then 1 else 0)"

text \<open>Every connection that \<open>queue_get\<close> has returned is finished or being handled.\<close>

definition server_inv :: "nat \<Rightarrow> server_sys \<Rightarrow> bool" where
  "server_inv pool s \<longleftrightarrow> roles_ok pool s \<and>
     length (served (sq s)) = length (done_log (sw s)) + sum_over handling (Suc pool) (roles s)"

lemma server_inv_init: "server_inv pool (server_init pool q)"
  by (simp add: server_inv_def roles_ok_def server_init_def qsys_init_def wsys_init_def handling_def sum_over_def)

lemma after_queue_same:
  "(\<And>t a x. f t = G_free a x \<Longrightarrow> g t \<noteq> Idle) \<Longrightarrow> after_queue f g r = r"
  by (rule ext) (auto simp: after_queue_def split: pc.split)

lemma after_count_same:
  "(\<And>t c. f t = W_post c \<Longrightarrow> g t \<noteq> W_idle) \<Longrightarrow> after_count f g r = r"
  by (rule ext) (auto simp: after_count_def split: wpc.split)

lemma after_idle [simp]: "after_queue (\<lambda>_. Idle) g r = r" "after_count (\<lambda>_. W_idle) v r = r"
  by (simp_all add: after_queue_def after_count_def fun_eq_iff)

lemma sum_role_upd:
  assumes "t < n"
  shows "sum_over handling n (r(t := x)) + handling (r t) = sum_over handling n r + handling x"
  by (rule sum_over_upd [OF assms])

text \<open>One thread changes its role, and nothing else changes for the others.\<close>

lemma role_move:
  assumes "server_inv pool s" and "roles s' = (roles s)(t := r)" and "t \<noteq> pool" and "r \<noteq> Accepting"
    and "\<And>u. u \<noteq> t \<Longrightarrow> pcs (sq s') u = pcs (sq s) u \<and> wpcs (sw s') u = wpcs (sw s) u"
    and "pcs (sq s') t = Idle" and "wpcs (sw s') t = W_idle"
    and "length (served (sq s')) = length (done_log (sw s')) + sum_over handling (Suc pool) ((roles s)(t := r))"
  shows "server_inv pool s'"
proof -
  have "(roles s' u = Accepting \<longleftrightarrow> u = pool) \<and> queue_role (roles s' u) (pcs (sq s') u) \<and>
      (roles s' u \<noteq> Handling \<longrightarrow> wpcs (sw s') u = W_idle)" for u
  proof (cases "u = t")
    case True
    then show ?thesis using assms(2-4,6,7) by (cases r) simp_all
  next
    case False
    then show ?thesis using assms(1,2,5) by (simp add: server_inv_def roles_ok_def)
  qed
  then show ?thesis using assms(2,8) by (simp add: server_inv_def roles_ok_def)
qed

lemma queue_step_inv:
  assumes step: "qstep (Suc pool) (sq s) q" and inv: "server_inv pool s"
    and enter: "\<forall>t. pcs (sq s) t = Idle \<and> pcs q t \<noteq> Idle \<longrightarrow> may_enter (roles s t) (pcs q t)"
  shows "server_inv pool (s\<lparr>sq := q, roles := after_queue (pcs (sq s)) (pcs q) (roles s)\<rparr>)"
proof -
  have ok: "(roles s t = Accepting \<longleftrightarrow> t = pool) \<and> queue_role (roles s t) (pcs (sq s) t) \<and>
      (roles s t \<noteq> Handling \<longrightarrow> wpcs (sw s) t = W_idle)" for t
    using inv by (simp add: server_inv_def roles_ok_def)
  have role: "queue_role (roles s t) (pcs (sq s) t)" for t using ok by blast
  have same: "server_inv pool (s\<lparr>sq := q, roles := after_queue (pcs (sq s)) (pcs q) (roles s)\<rparr>)"
    if "\<And>t a x. pcs (sq s) t = G_free a x \<Longrightarrow> pcs q t \<noteq> Idle" "served q = served (sq s)"
      "\<And>t. queue_role (roles s t) (pcs q t)"
    using inv that after_queue_same [of "pcs (sq s)" "pcs q" "roles s"]
    by (simp add: server_inv_def roles_ok_def)
  have move: "queue_role r p \<Longrightarrow> queue_role r p'" if "queue_role r p \<longrightarrow> queue_role r p'" for r p p'
    using that by blast
  from step show ?thesis
  proof cases
    case (put_alloc t a x)
    have "roles s t = Accepting"
      using enter [rule_format, of t] put_alloc by (cases "roles s t") auto
    then show ?thesis using role put_alloc by (intro same) auto
  next
    case (put_lock t a x)
    then show ?thesis using role role [of t] by (intro same) (cases "roles s t"; auto)+
  next
    case (put_link t a x q')
    then show ?thesis using role role [of t] by (intro same) (cases "roles s t"; auto)+
  next
    case (put_unlock t)
    then show ?thesis using role role [of t] by (intro same) (cases "roles s t"; auto)+
  next
    case (signal_none t)
    then show ?thesis using role role [of t] by (intro same) (cases "roles s t"; auto)+
  next
    case (signal_one t u)
    then show ?thesis using role role [of t] role [of u]
      by (intro same) (cases "roles s t"; cases "roles s u"; auto)+
  next
    case (get_lock t)
    have "roles s t = In_queue"
    proof (cases "pcs (sq s) t = Idle")
      case True
      then show ?thesis using enter [rule_format, of t] get_lock by (cases "roles s t") auto
    next
      case False
      then show ?thesis using role [of t] get_lock by (cases "roles s t") auto
    qed
    then show ?thesis using role get_lock by (intro same) auto
  next
    case (get_sleep t)
    then show ?thesis using role role [of t] by (intro same) (cases "roles s t"; auto)+
  next
    case (spurious t)
    then show ?thesis using role role [of t] by (intro same) (cases "roles s t"; auto)+
  next
    case (get_unlink t a q' m)
    then show ?thesis using role role [of t] by (intro same) (cases "roles s t"; auto)+
  next
    case (get_unlock t a x)
    then show ?thesis using role role [of t] by (intro same) (cases "roles s t"; auto)+
  next
    case (get_free t a x y q')
    have r: "roles s t = In_queue" using role [of t] get_free by (cases "roles s t") auto
    have upd: "after_queue (pcs (sq s)) (pcs q) (roles s) = (roles s)(t := Handling)"
      by (rule ext) (use get_free in \<open>auto simp: after_queue_def split: pc.split\<close>)
    have "sum_over handling (Suc pool) ((roles s)(t := Handling)) = Suc (sum_over handling (Suc pool) (roles s))"
      using sum_role_upd [OF get_free(2), of "roles s" Handling] r by (simp add: handling_def)
    moreover have "t \<noteq> pool" using ok [of t] r by auto
    moreover have "wpcs (sw s) t = W_idle" using ok [of t] r by simp
    ultimately show ?thesis
      using inv get_free(1) unfolding upd
      by (intro role_move [OF inv, where t = t and r = Handling]) (simp_all add: server_inv_def)
  qed
qed

lemma count_step_inv:
  assumes step: "wstep False (Suc pool) (sw s) w" and inv: "server_inv pool s"
    and enter: "\<forall>t. wpcs (sw s) t = W_idle \<and> wpcs w t \<noteq> W_idle \<longrightarrow> roles s t = Handling"
  shows "server_inv pool (s\<lparr>sw := w, roles := after_count (wpcs (sw s)) (wpcs w) (roles s)\<rparr>)"
proof -
  have ok: "(roles s t = Accepting \<longleftrightarrow> t = pool) \<and> queue_role (roles s t) (pcs (sq s) t) \<and>
      (roles s t \<noteq> Handling \<longrightarrow> wpcs (sw s) t = W_idle)" for t
    using inv by (simp add: server_inv_def roles_ok_def)
  have busy: "wpcs (sw s) t \<noteq> W_idle \<Longrightarrow> roles s t = Handling" for t using ok by blast
  then have mover: "wpcs w t = wpcs (sw s) t \<or> roles s t = Handling" for t
    using enter by metis
  have same: "server_inv pool (s\<lparr>sw := w, roles := after_count (wpcs (sw s)) (wpcs w) (roles s)\<rparr>)"
    if "\<And>t c. wpcs (sw s) t = W_post c \<Longrightarrow> wpcs w t \<noteq> W_idle" "done_log w = done_log (sw s)"
  proof -
    have "roles_ok pool (s\<lparr>sw := w\<rparr>)"
      using ok mover unfolding roles_ok_def by simp metis
    then show ?thesis
      using inv that after_count_same [of "wpcs (sw s)" "wpcs w" "roles s"]
      by (simp add: server_inv_def roles_ok_def)
  qed
  from step show ?thesis
  proof cases
    case (w_post t c)
    have r: "roles s t = Handling" using busy [of t] w_post by simp
    then have p: "t \<noteq> pool" "pcs (sq s) t = Idle" using ok [of t] by auto
    have upd: "after_count (wpcs (sw s)) (wpcs w) (roles s) = (roles s)(t := In_queue)"
      by (rule ext) (use w_post in \<open>auto simp: after_count_def split: wpc.split\<close>)
    have "Suc (sum_over handling (Suc pool) ((roles s)(t := In_queue))) = sum_over handling (Suc pool) (roles s)"
      using sum_role_upd [OF w_post(2), of "roles s" In_queue] r by (simp add: handling_def)
    then show ?thesis
      using inv p w_post(1) unfolding upd
      by (intro role_move [OF inv, where t = t and r = In_queue]) (simp_all add: server_inv_def)
  qed (rule same; force split: if_splits)+
qed

lemma server_reach_inv: "server_reach pool q s \<Longrightarrow> server_inv pool s"
proof (induction rule: rtranclp_induct)
  case base
  show ?case by (rule server_inv_init)
next
  case (step s t)
  from step.hyps(2) step.IH show ?case
    by cases (auto intro: queue_step_inv count_step_inv)
qed

text \<open>The accepting thread handles nothing, so at most \<open>pool\<close> connections are being handled.\<close>

lemma handling_bound:
  assumes "roles_ok pool s"
  shows "sum_over handling (Suc pool) (roles s) \<le> pool"
proof -
  have "roles s pool = Accepting" using assms by (simp add: roles_ok_def)
  then have "sum_over handling (Suc pool) (roles s) = sum_over handling pool (roles s)"
    by (simp add: sum_over_def handling_def)
  also have "\<dots> \<le> (\<Sum>t < pool. 1)" unfolding sum_over_def by (rule sum_mono) (simp add: handling_def)
  finally show ?thesis by simp
qed

lemma served_bound:
  assumes "server_reach pool q s"
  shows "length (served (sq s)) \<le> pool + 1"
  using server_reach_inv [OF assms] handling_bound [of pool s] done_once [OF server_parts(2) [OF assms]]
  by (simp add: server_inv_def)

end
