(* ===== verification/Queue_Run.thy ===== *)
theory Queue_Run
  imports Examples Queue_Server
begin

text \<open>
  A run of the queue server with one pool thread: one connection is accepted, queued, taken and
  counted. Afterwards the semaphore of the counters is down and stays so.
\<close>

section \<open>One connection through the queue server\<close>

text \<open>The accepting thread (1) puts socket 9, the one pool thread (0) takes it and counts a 200.\<close>

lemma reach_queue:
  assumes "server_reach p q0 \<lparr>sq = a, sw = w, roles = r\<rparr>" and "qstep (Suc p) a b"
    and "\<forall>t. pcs a t = Idle \<and> pcs b t \<noteq> Idle \<longrightarrow> may_enter (r t) (pcs b t)"
    and "after_queue (pcs a) (pcs b) r = r'"
  shows "server_reach p q0 \<lparr>sq = b, sw = w, roles = r'\<rparr>"
  using assms(1) server_step.sv_queue [of p "\<lparr>sq = a, sw = w, roles = r\<rparr>" b] assms(2-4)
  by (auto intro: rtranclp.rtrancl_into_rtrancl)

lemma reach_count:
  assumes "server_reach p q0 \<lparr>sq = a, sw = w, roles = r\<rparr>" and "wstep False (Suc p) w v"
    and "\<forall>t. wpcs w t = W_idle \<and> wpcs v t \<noteq> W_idle \<longrightarrow> r t = Handling"
    and "after_count (wpcs w) (wpcs v) r = r'"
  shows "server_reach p q0 \<lparr>sq = a, sw = v, roles = r'\<rparr>"
  using assms(1) server_step.sv_count [of p "\<lparr>sq = a, sw = w, roles = r\<rparr>" v] assms(2-4)
  by (auto intro: rtranclp.rtrancl_into_rtrancl)

definition ex_roles :: "nat \<Rightarrow> role" where
  "ex_roles t = (if t = 1 then Accepting else In_queue)"

definition ex_full :: queue where
  "ex_full = \<lparr>heap = [5 \<mapsto> \<lparr>sock = 9, nxt = 0\<rparr>], first = 5, last_msg = 5, qlength = 1\<rparr>"

definition ex_taken :: queue where
  "ex_taken = \<lparr>heap = [5 \<mapsto> \<lparr>sock = 9, nxt = 0\<rparr>], first = 0, last_msg = 0, qlength = 0\<rparr>"

definition ex_put :: qsys where
  "ex_put = \<lparr>que = ex_full, mtx = None, pcs = (\<lambda>_. Idle), put_log = [9], got_log = [], served = []\<rparr>"

definition ex_got :: qsys where
  "ex_got = \<lparr>que = ex_taken\<lparr>heap := Map.empty\<rparr>, mtx = None, pcs = (\<lambda>_. Idle), put_log = [9], got_log = [9],
     served = [(0, 9)]\<rparr>"

lemma ex_put_reached: "server_reach 1 ex_queue \<lparr>sq = ex_put, sw = wsys_init, roles = ex_roles\<rparr>"
proof -
  let ?i = "qsys_init ex_queue"
  have r0: "server_reach 1 ex_queue \<lparr>sq = ?i, sw = wsys_init, roles = ex_roles\<rparr>"
    by (simp add: server_init_def ex_roles_def [abs_def])
  let ?a = "?i\<lparr>que := queue_put_alloc 5 9 (que ?i), pcs := (pcs ?i)(1 := P_alloc 5 9)\<rparr>"
  have r1: "server_reach 1 ex_queue \<lparr>sq = ?a, sw = wsys_init, roles = ex_roles\<rparr>"
    by (rule reach_queue [OF r0 qstep.put_alloc])
       (auto simp: qsys_init_def ex_queue_def queue_init_def fresh_addr_def ex_roles_def after_queue_def fun_eq_iff)
  let ?b = "?a\<lparr>mtx := Some 1, pcs := (pcs ?a)(1 := P_locked 5 9)\<rparr>"
  have r2: "server_reach 1 ex_queue \<lparr>sq = ?b, sw = wsys_init, roles = ex_roles\<rparr>"
    by (rule reach_queue [OF r1 qstep.put_lock]) (auto simp: qsys_init_def after_queue_def fun_eq_iff)
  let ?c = "?b\<lparr>que := ex_full, pcs := (pcs ?b)(1 := P_linked), put_log := put_log ?b @ [9]\<rparr>"
  have r3: "server_reach 1 ex_queue \<lparr>sq = ?c, sw = wsys_init, roles = ex_roles\<rparr>"
    by (rule reach_queue [OF r2 qstep.put_link])
       (auto simp: qsys_init_def ex_queue_def queue_init_def queue_put_alloc_def queue_put_link_def ex_full_def
         after_queue_def fun_eq_iff)
  let ?d = "?c\<lparr>mtx := None, pcs := (pcs ?c)(1 := P_signal)\<rparr>"
  have r4: "server_reach 1 ex_queue \<lparr>sq = ?d, sw = wsys_init, roles = ex_roles\<rparr>"
    by (rule reach_queue [OF r3 qstep.put_unlock]) (auto simp: qsys_init_def after_queue_def fun_eq_iff)
  let ?e = "?d\<lparr>pcs := (pcs ?d)(1 := Idle)\<rparr>"
  have r5: "server_reach 1 ex_queue \<lparr>sq = ?e, sw = wsys_init, roles = ex_roles\<rparr>"
    by (rule reach_queue [OF r4 qstep.signal_none]) (auto simp: qsys_init_def after_queue_def fun_eq_iff)
  have "?e = ex_put" by (simp add: ex_put_def qsys_init_def fun_upd_idem)
  with r5 show ?thesis by (simp only:)
qed

lemma ex_got_reached: "server_reach 1 ex_queue \<lparr>sq = ex_got, sw = wsys_init, roles = ex_roles(0 := Handling)\<rparr>"
proof -
  note r0 = ex_put_reached
  let ?a = "ex_put\<lparr>mtx := Some 0, pcs := (pcs ex_put)(0 := G_test)\<rparr>"
  have r1: "server_reach 1 ex_queue \<lparr>sq = ?a, sw = wsys_init, roles = ex_roles\<rparr>"
    by (rule reach_queue [OF r0 qstep.get_lock]) (auto simp: ex_put_def ex_roles_def after_queue_def fun_eq_iff)
  let ?b = "?a\<lparr>que := ex_taken, pcs := (pcs ?a)(0 := G_took 5 9), got_log := got_log ?a @ [9]\<rparr>"
  have "qstep (Suc 1) ?a (?a\<lparr>que := ex_taken, pcs := (pcs ?a)(0 := G_took 5 (sock \<lparr>sock = 9, nxt = 0\<rparr>)),
      got_log := got_log ?a @ [sock \<lparr>sock = 9, nxt = 0\<rparr>]\<rparr>)"
    by (rule qstep.get_unlink)
       (simp_all add: ex_put_def ex_full_def ex_taken_def queue_must_wait_def queue_get_unlink_def)
  then have r2: "server_reach 1 ex_queue \<lparr>sq = ?b, sw = wsys_init, roles = ex_roles\<rparr>"
    by (intro reach_queue [OF r1]) (auto simp: ex_put_def after_queue_def fun_eq_iff)
  let ?c = "?b\<lparr>mtx := None, pcs := (pcs ?b)(0 := G_free 5 9)\<rparr>"
  have r3: "server_reach 1 ex_queue \<lparr>sq = ?c, sw = wsys_init, roles = ex_roles\<rparr>"
    by (rule reach_queue [OF r2 qstep.get_unlock]) (auto simp: ex_put_def after_queue_def fun_eq_iff)
  let ?d = "?c\<lparr>que := ex_taken\<lparr>heap := Map.empty\<rparr>, pcs := (pcs ?c)(0 := Idle), served := served ?c @ [(0, 9)]\<rparr>"
  have r4: "server_reach 1 ex_queue \<lparr>sq = ?d, sw = wsys_init, roles = ex_roles(0 := Handling)\<rparr>"
    by (rule reach_queue [OF r3 qstep.get_free])
       (auto simp: ex_put_def ex_taken_def queue_get_free_def after_queue_def fun_eq_iff)
  have "?d = ex_got" by (simp add: ex_put_def ex_got_def fun_upd_idem)
  with r4 show ?thesis by (simp only:)
qed

lemma ex_done_reached: "server_reach 1 ex_queue \<lparr>sq = ex_got, sw = ex_w1 False, roles = ex_roles\<rparr>"
proof -
  let ?r = "ex_roles(0 := Handling)"
  note r0 = ex_got_reached
  let ?s0 = wsys_init
  let ?s1 = "?s0\<lparr>wpcs := (wpcs ?s0)(0 := W_wait 200)\<rparr>"
  have r1: "server_reach 1 ex_queue \<lparr>sq = ex_got, sw = ?s1, roles = ?r\<rparr>"
    by (rule reach_count [OF r0 wstep.w_begin]) (auto simp: wsys_init_def after_count_def fun_eq_iff)
  let ?s2 = "?s1\<lparr>wsem := 0, wpcs := (wpcs ?s1)(0 := W_load 200)\<rparr>"
  have r2: "server_reach 1 ex_queue \<lparr>sq = ex_got, sw = ?s2, roles = ?r\<rparr>"
    by (rule reach_count [OF r1 wstep.w_wait]) (auto simp: wsys_init_def after_count_def fun_eq_iff)
  let ?s3 = "?s2\<lparr>wpcs := (wpcs ?s2)(0 := W_store 200 (requests (wshm ?s2)))\<rparr>"
  have r3: "server_reach 1 ex_queue \<lparr>sq = ex_got, sw = ?s3, roles = ?r\<rparr>"
    by (rule reach_count [OF r2 wstep.w_load]) (auto simp: wsys_init_def after_count_def fun_eq_iff)
  let ?s4 = "?s3\<lparr>wshm := (wshm ?s3)\<lparr>requests := 1\<rparr>, wpcs := (wpcs ?s3)(0 := W_cload 200)\<rparr>"
  have r4: "server_reach 1 ex_queue \<lparr>sq = ex_got, sw = ?s4, roles = ?r\<rparr>"
    by (rule reach_count [OF r3 wstep.w_store [where r = 0 and c = 200]])
       (auto simp: wsys_init_def init_statistics_def incr_def INT_MAX_def after_count_def fun_eq_iff)
  let ?s5 = "?s4\<lparr>wpcs := (wpcs ?s4)(0 := W_cstore 200 0)\<rparr>"
  have r5: "server_reach 1 ex_queue \<lparr>sq = ex_got, sw = ?s5, roles = ?r\<rparr>"
    by (rule reach_count [OF r4 wstep.w_cload])
       (auto simp: wsys_init_def init_statistics_def class_get_def after_count_def fun_eq_iff)
  let ?s6 = "?s5\<lparr>wshm := class_set 200 1 (wshm ?s5), wpcs := (wpcs ?s5)(0 := W_post 200)\<rparr>"
  have r6: "server_reach 1 ex_queue \<lparr>sq = ex_got, sw = ?s6, roles = ?r\<rparr>"
    by (rule reach_count [OF r5 wstep.w_cstore [where v = 0]])
       (auto simp: wsys_init_def incr_def INT_MAX_def after_count_def fun_eq_iff)
  let ?s7 = "?s6\<lparr>wsem := wsem ?s6, wpcs := (wpcs ?s6)(0 := W_idle), done_log := done_log ?s6 @ [200]\<rparr>"
  have "wstep False (Suc 1) ?s6 (?s6\<lparr>wsem := (if False then Suc (wsem ?s6) else wsem ?s6),
      wpcs := (wpcs ?s6)(0 := W_idle), done_log := done_log ?s6 @ [200]\<rparr>)"
    by (rule wstep.w_post) simp_all
  then have "wstep False (Suc 1) ?s6 ?s7" by (simp only: if_False)
  then have r7: "server_reach 1 ex_queue \<lparr>sq = ex_got, sw = ?s7, roles = ex_roles\<rparr>"
    by (rule reach_count [OF r6]) (auto simp: wsys_init_def after_count_def ex_roles_def fun_eq_iff split: wpc.split)
  have shm: "class_set 200 1 (init_statistics\<lparr>requests := 1\<rparr>) = counted 200 init_statistics"
    by (simp add: class_set_def counted_def count_code_def incr_def INT_MAX_def init_statistics_def)
  have "?s7 = ex_w1 False"
    by (simp add: ex_w1_def wsys_init_def shm [symmetric] fun_upd_idem)
  with r7 show ?thesis by (simp only:)
qed

end
