(* ===== verification/Queue_Progress.thy ===== *)
theory Queue_Progress
  imports Queue_Server
begin

text \<open>
  The queue server can always finish its first connection: from every state its threads can reach in
  which nothing has been finished and something has been put into the queue, some sequence of steps
  finishes a connection. No thread wakes up without a signal in it, and no further connection is needed.
\<close>

section \<open>The counters\<close>

text \<open>How far a thread is from the end of \<open>write_code\<close>.\<close>

fun wrank :: "wpc \<Rightarrow> nat" where
  "wrank R_wait = 13" | "wrank R_read = 12" | "wrank R_post = 11" | "wrank W_idle = 10"
| "wrank (W_wait _) = 9" | "wrank (W_load _) = 8" | "wrank (W_store _ _) = 7" | "wrank (W_cload _) = 6"
| "wrank (W_cstore _ _) = 5" | "wrank (W_post _) = 4"

lemma wrank_bound: "sum_over wrank n f \<le> 13 * n"
proof -
  have "wrank p \<le> 13" for p by (cases p) simp_all
  then have "sum_over wrank n f \<le> (\<Sum>t < n. 13)" unfolding sum_over_def by (intro sum_mono) simp
  then show ?thesis by simp
qed

text \<open>A step towards the first finished connection: nobody but \<open>t\<close> starts anything.\<close>

definition counting_on :: "nat \<Rightarrow> nat \<Rightarrow> wsys \<Rightarrow> wsys \<Rightarrow> bool" where
  "counting_on n t s s' \<longleftrightarrow> wstep False n s s' \<and>
     (\<forall>u. wpcs s u = W_idle \<and> wpcs s' u \<noteq> W_idle \<longrightarrow> u = t) \<and>
     (done_log s' = done_log s \<longrightarrow> sum_over wrank n (wpcs s') < sum_over wrank n (wpcs s) \<and>
       (\<forall>u c. wpcs s u = W_post c \<longrightarrow> wpcs s' u \<noteq> W_idle))"

lemma counting_onI:
  assumes "wstep False n s s'" "u < n" "wpcs s' = (wpcs s)(u := p)" "wpcs s u = W_idle \<longrightarrow> u = t"
    and "done_log s' = done_log s \<Longrightarrow> wrank p < wrank (wpcs s u) \<and> (\<forall>c. wpcs s u \<noteq> W_post c)"
  shows "counting_on n t s s'"
  using assms sum_over_upd [of u n wrank "wpcs s" p] by (auto simp: counting_on_def)

text \<open>The thread inside the protected part can go on: the counters are far from overflow.\<close>

lemma section_moves:
  assumes r: "wreach False n s" and d: "done_log s = []" and u: "u < n" "in_section (wpcs s u) = 1"
  shows "\<exists>s'. counting_on n t s s'"
proof -
  obtain st where st: "count_all (done_log s) init_statistics = Some st" "in_flight (wpcs s u) st (wshm s)"
    using count_inv_flight [OF wreach_count_inv [OF r] u] by blast
  then have zero: "st = init_statistics" using d by simp
  note i = counting_onI [where u = u and t = t, OF _ u(1)]
  have lim: "INT_MAX > 1" by (simp add: INT_MAX_def)
  show ?thesis
  proof (cases "wpcs s u")
    case (W_load c)
    show ?thesis by (rule exI, rule i [OF wstep.w_load [OF u(1) W_load]]) (use W_load in auto)
  next
    case (W_store c x)
    then have "incr x = Some 1" using st(2) lim by (simp add: zero incr_def init_statistics_def)
    then show ?thesis
      by (intro exI, rule i [OF wstep.w_store [OF u(1) W_store]]) (use W_store in auto)
  next
    case (W_cload c)
    show ?thesis
    proof (cases "class_get c (wshm s)")
      case None
      show ?thesis by (rule exI, rule i [OF wstep.w_default [OF u(1) W_cload None]]) (use W_cload in auto)
    next
      case (Some v)
      show ?thesis by (rule exI, rule i [OF wstep.w_cload [OF u(1) W_cload Some]]) (use W_cload in auto)
    qed
  next
    case (W_cstore c v)
    then have "v = 0" using st(2)
      by (auto simp: zero init_statistics_def class_get_def Let_def split: if_splits)
    then have "incr v = Some 1" using lim by (simp add: incr_def)
    then show ?thesis
      by (intro exI, rule i [OF wstep.w_cstore [OF u(1) W_cstore]]) (use W_cstore in auto)
  next
    case (W_post c)
    show ?thesis by (rule exI, rule i [OF wstep.w_post [OF u(1) W_post]]) (use W_post in auto)
  next
    case R_read
    show ?thesis by (rule exI, rule i [OF wstep.r_read [OF u(1) R_read]]) (use R_read in auto)
  next
    case R_post
    show ?thesis by (rule exI, rule i [OF wstep.r_post [OF u(1) R_post]]) (use R_post in auto)
  qed (use u(2) in auto)
qed

lemma counting_moves:
  assumes r: "wreach False n s" and d: "done_log s = []" and t: "t < n"
  shows "\<exists>s'. counting_on n t s s'"
proof (cases "sum_over in_section n (wpcs s) = 0")
  case False
  then obtain u where u: "u < n" "in_section (wpcs s u) \<noteq> 0" by (auto simp: sum_over_zero)
  then have "in_section (wpcs s u) = 1" using in_section_le [of "wpcs s u"] by simp
  then show ?thesis by (rule section_moves [OF r d u(1)])
next
  case True
  then have w: "wsem s = Suc 0" using wreach_balance [OF r] d by (simp add: sem_balance_def)
  have out: "in_section (wpcs s t) = 0" using True t by (simp add: sum_over_zero)
  note i = counting_onI [where u = t and t = t, OF _ t]
  show ?thesis
  proof (cases "wpcs s t")
    case W_idle
    show ?thesis by (rule exI, rule i [OF wstep.w_begin [OF t W_idle, where c = 200]]) (use W_idle in auto)
  next
    case (W_wait c)
    show ?thesis by (rule exI, rule i [OF wstep.w_wait [OF t W_wait w]]) (use W_wait in auto)
  next
    case R_wait
    show ?thesis by (rule exI, rule i [OF wstep.r_wait [OF t R_wait w]]) (use R_wait in auto)
  qed (use out in auto)
qed

section \<open>The queue\<close>

fun qrank :: "pc \<Rightarrow> nat" where
  "qrank (P_alloc _ _) = 10" | "qrank (P_locked _ _) = 9" | "qrank P_linked = 8" | "qrank P_signal = 7"
| "qrank G_wait = 7" | "qrank G_woken = 6" | "qrank Idle = 6" | "qrank G_test = 5" | "qrank (G_took _ _) = 4"
| "qrank (G_free _ _) = 3"

text \<open>The sockets put and those about to be put.\<close>

definition qroom :: "nat \<Rightarrow> qsys \<Rightarrow> nat" where
  "qroom n s = length (put_log s) + sum_over (\<lambda>p. if putting p then 1 else 0) n (pcs s)"

text \<open>A step that brings a connection nearer to a pool thread; only threads of \<open>A\<close> start anything.\<close>

definition ahead :: "nat \<Rightarrow> nat set \<Rightarrow> qsys \<Rightarrow> qsys \<Rightarrow> bool" where
  "ahead n A s s' \<longleftrightarrow> qstep n s s' \<and> sum_over qrank n (pcs s') < sum_over qrank n (pcs s) \<and>
     qroom n s' \<le> qroom n s \<and> (\<forall>u a x. pcs s u = G_free a x \<longrightarrow> pcs s' u \<noteq> Idle) \<and>
     (\<forall>u. pcs s u = Idle \<and> pcs s' u \<noteq> Idle \<longrightarrow> u \<in> A \<and> pcs s' u = G_test)"

lemma aheadI:
  assumes "qstep n s s'" "t < n" "pcs s' = (pcs s)(t := p)" "qrank p < qrank (pcs s t)"
    and "length (put_log s') + (if putting p then 1 else 0) \<le> length (put_log s) + (if putting (pcs s t) then 1 else 0)"
    and "\<forall>a x. pcs s t \<noteq> G_free a x" "pcs s t = Idle \<longrightarrow> t \<in> A \<and> p = G_test"
  shows "ahead n A s s'"
  using assms sum_over_upd [of t n qrank "pcs s" p]
    sum_over_upd [of t n "\<lambda>p. if putting p then 1 else (0 :: nat)" "pcs s" p]
  by (auto simp: ahead_def qroom_def)

text \<open>A thread with the mutex goes on, if it does not have to wait.\<close>

lemma holder_ahead:
  assumes inv: "list_inv s" and t: "t < n" and c: "in_crit (pcs s t)" and len: "length (put_log s) < 2 ^ 32 - 1"
    and w: "pcs s t = G_test \<Longrightarrow> \<not> queue_must_wait (que s)"
  shows "\<exists>s'. ahead n A s s'"
proof -
  obtain s' where s': "qstep n s s'" "pcs s' t \<noteq> pcs s t" using crit_step [OF inv t c len] by blast
  note i = aheadI [OF s'(1) t, where A = A]
  from s'(1) have "ahead n A s s'"
  proof cases
    case (put_alloc u a x)
    then show ?thesis using s'(2) c by (cases "u = t") auto
  next
    case (put_lock u a x)
    then show ?thesis using s'(2) c by (cases "u = t") auto
  next
    case (put_link u a x q)
    then have "u = t" using s'(2) by (auto split: if_splits)
    then show ?thesis using put_link by (intro i [of P_linked]) auto
  next
    case (put_unlock u)
    then have "u = t" using s'(2) by (auto split: if_splits)
    then show ?thesis using put_unlock by (intro i [of P_signal]) auto
  next
    case (signal_none u)
    then show ?thesis using s'(2) c by (cases "u = t") auto
  next
    case (signal_one u v)
    then show ?thesis using s'(2) c by (cases "u = t"; cases "v = t") auto
  next
    case (get_lock u)
    then show ?thesis using s'(2) c by (cases "u = t") auto
  next
    case (get_sleep u)
    then have "u = t" using s'(2) by (auto split: if_splits)
    then show ?thesis using get_sleep w by simp
  next
    case (spurious u)
    then show ?thesis using s'(2) c by (cases "u = t") auto
  next
    case (get_unlink u a q m)
    then have "u = t" using s'(2) by (auto split: if_splits)
    then show ?thesis using get_unlink by (intro i [of "G_took a (sock m)"]) auto
  next
    case (get_unlock u a x)
    then have "u = t" using s'(2) by (auto split: if_splits)
    then show ?thesis using get_unlock by (intro i [of "G_free a x"]) auto
  next
    case (get_free u a x y q)
    then show ?thesis using s'(2) c by (cases "u = t") auto
  qed
  then show ?thesis by blast
qed

text \<open>With the mutex free, a pool thread takes it or is woken.\<close>

lemma free_ahead:
  assumes r: "qreach n s" and m: "mtx s = None" and q: "\<not> queue_must_wait (que s)"
    and t: "t < n" "t \<in> A" "pcs s t \<in> {Idle, G_wait, G_woken}"
  shows "\<exists>s'. ahead n A s s'"
proof -
  have lock: "\<exists>s'. ahead n A s s'" if "u < n" "pcs s u = G_woken \<or> pcs s u = Idle \<and> u \<in> A" for u
    by (rule exI, rule aheadI [OF qstep.get_lock [OF that(1) _ m] that(1)]) (use that(2) in auto)
  show ?thesis
  proof (cases "pcs s t = G_wait")
    case False
    then show ?thesis using t lock by auto
  next
    case True
    have "0 < unat (qlength (que s))" using q by (simp add: queue_must_wait_def unat_gt_0)
    then have "0 < sum_over token n (pcs s)" using qreach_wake [OF r] t(1) True by (force simp: wake_inv_def)
    then obtain u where u: "u < n" "0 < token (pcs s u)"
      unfolding sum_over_def by (metis lessThan_iff neq0_conv sum.neutral)
    have "\<not> in_crit (pcs s u)" using qreach_mutex [OF r] m by (simp add: mutex_ok_def)
    then consider "pcs s u = P_signal" | "pcs s u = G_woken" using u(2) by (cases "pcs s u") auto
    then show ?thesis
    proof cases
      case 1
      let ?s' = "s\<lparr>pcs := (pcs s)(u := Idle, t := G_woken)\<rparr>"
      have ne: "t \<noteq> u" using 1 True by auto
      have "sum_over w n ((pcs s)(u := Idle, t := G_woken)) + w (pcs s t) + w (pcs s u) = sum_over w n (pcs s) + w G_woken + w Idle"
        for w :: "pc \<Rightarrow> nat"
        using sum_over_upd [OF u(1), of w "pcs s" Idle] sum_over_upd [OF t(1), of w "(pcs s)(u := Idle)" G_woken] ne
        by simp
      from this [of qrank] this [of "\<lambda>p. if putting p then 1 else 0"]
      have "ahead n A s ?s'"
        using qstep.signal_one [OF u(1) 1 t(1) True] 1 True ne by (auto simp: ahead_def qroom_def)
      then show ?thesis by blast
    next
      case 2
      then show ?thesis using lock u(1) by blast
    qed
  qed
qed

section \<open>The whole server\<close>

definition busy :: "nat \<Rightarrow> server_sys \<Rightarrow> bool" where
  "busy pool s \<longleftrightarrow> (\<exists>t < Suc pool. roles s t = Handling)"

definition work_dist :: "nat \<Rightarrow> server_sys \<Rightarrow> nat" where
  "work_dist pool s =
     (if busy pool s then sum_over wrank (Suc pool) (wpcs (sw s))
      else 13 * Suc pool + 1 + sum_over qrank (Suc pool) (pcs (sq s)))"

text \<open>Nothing has been finished yet, something has been put, and the queue cannot overflow.\<close>

definition can_answer :: "nat \<Rightarrow> queue \<Rightarrow> server_sys \<Rightarrow> bool" where
  "can_answer pool q s \<longleftrightarrow> server_reach pool q s \<and> done_log (sw s) = [] \<and> put_log (sq s) \<noteq> [] \<and>
     qroom (Suc pool) (sq s) < 2 ^ 32 - 1"

lemma can_answer_reach: "can_answer pool q s \<Longrightarrow> server_reach pool q s"
  by (simp add: can_answer_def)

lemma qstep_puts: "qstep n s t \<Longrightarrow> put_log s \<noteq> [] \<Longrightarrow> put_log t \<noteq> []"
  by (induction rule: qstep.induct) auto

lemma queue_go:
  assumes "can_answer pool q s" "server_step pool s (s\<lparr>sq := r, roles := f\<rparr>)" "qstep (Suc pool) (sq s) r"
    and "qroom (Suc pool) r \<le> qroom (Suc pool) (sq s)"
  shows "can_answer pool q (s\<lparr>sq := r, roles := f\<rparr>)"
  using assms qstep_puts [OF assms(3)]
  by (auto simp: can_answer_def intro: rtranclp.rtrancl_into_rtrancl)

lemma busy_nearer:
  assumes c: "can_answer pool q s" and b: "busy pool s"
  shows "\<exists>s'. server_step pool s s' \<and>
    (done_log (sw s') \<noteq> [] \<or> can_answer pool q s' \<and> work_dist pool s' < work_dist pool s)"
proof -
  obtain t where t: "t < Suc pool" "roles s t = Handling" using b by (auto simp: busy_def)
  have d: "done_log (sw s) = []" using c by (simp add: can_answer_def)
  obtain w where w: "counting_on (Suc pool) t (sw s) w"
    using counting_moves [OF server_parts(2) [OF can_answer_reach [OF c]] d t(1)] by blast
  let ?s' = "s\<lparr>sw := w, roles := after_count (wpcs (sw s)) (wpcs w) (roles s)\<rparr>"
  have step: "server_step pool s ?s'"
    by (rule server_step.sv_count) (use w t(2) in \<open>auto simp: counting_on_def\<close>)
  have "done_log w \<noteq> [] \<or> can_answer pool q ?s' \<and> work_dist pool ?s' < work_dist pool s"
  proof (cases "done_log w = []")
    case True
    then have less: "sum_over wrank (Suc pool) (wpcs w) < sum_over wrank (Suc pool) (wpcs (sw s))"
      and same: "after_count (wpcs (sw s)) (wpcs w) (roles s) = roles s"
      using w d by (auto simp: counting_on_def intro: after_count_same)
    then have "busy pool ?s'" using b by (simp add: busy_def)
    moreover have "can_answer pool q ?s'"
      using c step True by (auto simp: can_answer_def intro: rtranclp.rtrancl_into_rtrancl)
    ultimately show ?thesis using less b by (simp add: work_dist_def)
  qed simp
  with step show ?thesis by (intro exI [of _ ?s']) simp
qed

text \<open>A thread with a message in hand returns from \<open>queue_get\<close>.\<close>

lemma free_nearer:
  assumes c: "can_answer pool q s" and b: "\<not> busy pool s" and t: "t < Suc pool" "pcs (sq s) t = G_free a x"
  shows "\<exists>s'. server_step pool s s' \<and> can_answer pool q s' \<and> work_dist pool s' < work_dist pool s"
proof -
  note reach = can_answer_reach [OF c]
  have "length (put_log (sq s)) < 2 ^ 32" using c by (simp add: can_answer_def qroom_def)
  then obtain as where "owns_ok (pcs (sq s)) (heap (que (sq s))) as"
    using qreach_list_inv [OF server_parts(1) [OF reach]] by (auto simp: list_inv_def)
  then obtain m where "heap (que (sq s)) a = Some m" by (rule owns_okD [where t = t]) (simp add: t(2))
  then obtain r where g: "queue_get_free a (que (sq s)) = Some (sock m, r)" by (simp add: queue_get_free_def)
  let ?r = "(sq s)\<lparr>que := r, pcs := (pcs (sq s))(t := Idle), served := served (sq s) @ [(t, sock m)]\<rparr>"
  let ?f = "after_queue (pcs (sq s)) (pcs ?r) (roles s)"
  have q: "qstep (Suc pool) (sq s) ?r" by (rule qstep.get_free [OF t g])
  have step: "server_step pool s (s\<lparr>sq := ?r, roles := ?f\<rparr>)"
    by (rule server_step.sv_queue [OF q]) auto
  have "?f t = Handling" by (simp add: after_queue_def t(2))
  then have "busy pool (s\<lparr>sq := ?r, roles := ?f\<rparr>)" using t(1) by (auto simp: busy_def)
  then have "work_dist pool (s\<lparr>sq := ?r, roles := ?f\<rparr>) < work_dist pool s"
    using b wrank_bound [of "Suc pool" "wpcs (sw s)"] by (simp add: work_dist_def)
  moreover have "qroom (Suc pool) ?r \<le> qroom (Suc pool) (sq s)"
    using sum_over_upd [OF t(1), of "\<lambda>p. if putting p then 1 else (0 :: nat)" "pcs (sq s)" Idle] t(2)
    by (simp add: qroom_def)
  ultimately show ?thesis using step queue_go [OF c step q] by blast
qed

text \<open>While no thread handles a connection, all that have been put are in the list or in hand.\<close>

lemma waiting_somewhere:
  assumes c: "can_answer pool q s" and b: "\<not> busy pool s"
    and "\<And>t a x. t < Suc pool \<Longrightarrow> pcs (sq s) t \<noteq> G_free a x \<and> pcs (sq s) t \<noteq> G_took a x"
  shows "\<not> queue_must_wait (que (sq s))"
proof -
  note reach = can_answer_reach [OF c]
  have len: "length (put_log (sq s)) < 2 ^ 32" using c by (simp add: can_answer_def qroom_def)
  have "sum_over handling (Suc pool) (roles s) = 0" using b by (auto simp: busy_def sum_over_zero handling_def)
  then have "served (sq s) = []"
    using server_reach_inv [OF reach] c by (simp add: server_inv_def can_answer_def)
  moreover have "in_hand (pcs (sq s) t) = {#}" if "t < Suc pool" for t
    using assms(3) [OF that] by (cases "pcs (sq s) t") auto
  then have "sum_over in_hand (Suc pool) (pcs (sq s)) = {#}" by (simp add: sum_over_def)
  ultimately have "contents (que (sq s)) \<noteq> []"
    using put_log_parts [OF server_parts(1) [OF reach] len] c by (auto simp: can_answer_def)
  moreover obtain as where "queue_repr (que (sq s)) as"
    using qreach_list_inv [OF server_parts(1) [OF reach] len] by (auto simp: list_inv_def)
  ultimately show ?thesis using must_wait_iff [of "que (sq s)" as] contents_repr [of "que (sq s)" as]
    by (auto simp: socks_def)
qed

lemma queue_ahead:
  assumes c: "can_answer pool q s" and b: "\<not> busy pool s" and p: "0 < pool"
    and nofree: "\<And>t a x. t < Suc pool \<Longrightarrow> pcs (sq s) t \<noteq> G_free a x"
  shows "\<exists>r. ahead (Suc pool) {..<pool} (sq s) r"
proof -
  note reach = can_answer_reach [OF c]
  note qr = server_parts(1) [OF reach]
  have len: "length (put_log (sq s)) < 2 ^ 32 - 1" using c by (simp add: can_answer_def qroom_def)
  then have inv: "list_inv (sq s)" by (intro qreach_list_inv [OF qr]) simp
  have mx: "mutex_ok (pcs (sq s)) (mtx (sq s))" using qr by (rule qreach_mutex)
  show ?thesis
  proof (cases "mtx (sq s)")
    case (Some t)
    then have crit: "in_crit (pcs (sq s) t)" and others: "in_crit (pcs (sq s) u) \<Longrightarrow> u = t" for u
      using mx by (auto simp: mutex_ok_def)
    then have "t < Suc pool" using qreach_outside [OF qr, of t] by (metis in_crit.simps(5) linorder_not_less)
    moreover have "\<not> queue_must_wait (que (sq s))" if "pcs (sq s) t = G_test"
    proof (rule waiting_somewhere [OF c b])
      fix u a x
      assume "u < Suc pool"
      moreover have "pcs (sq s) u \<noteq> G_took a x" using others [of u] that by auto
      ultimately show "pcs (sq s) u \<noteq> G_free a x \<and> pcs (sq s) u \<noteq> G_took a x" using nofree by simp
    qed
    ultimately show ?thesis using holder_ahead [OF inv _ crit len] by blast
  next
    case None
    then have out: "\<not> in_crit (pcs (sq s) u)" for u using mx by (simp add: mutex_ok_def)
    have "\<not> queue_must_wait (que (sq s))"
    proof (rule waiting_somewhere [OF c b])
      fix u a x
      assume "u < Suc pool"
      moreover have "pcs (sq s) u \<noteq> G_took a x" using out [of u] by auto
      ultimately show "pcs (sq s) u \<noteq> G_free a x \<and> pcs (sq s) u \<noteq> G_took a x" using nofree by simp
    qed
    moreover have "roles s 0 = In_queue"
      using server_reach_inv [OF reach] b p
      by (cases "roles s 0") (auto simp: server_inv_def roles_ok_def busy_def)
    then have "queue_role In_queue (pcs (sq s) 0)"
      using server_reach_inv [OF reach] by (metis server_inv_def roles_ok_def)
    then have "pcs (sq s) 0 \<in> {Idle, G_wait, G_woken}" using nofree [of 0] out [of 0] by auto
    ultimately show ?thesis using free_ahead [OF qr None, of 0 "{..<pool}"] p by simp
  qed
qed

lemma idle_nearer:
  assumes c: "can_answer pool q s" and b: "\<not> busy pool s" and p: "0 < pool"
  shows "\<exists>s'. server_step pool s s' \<and> can_answer pool q s' \<and> work_dist pool s' < work_dist pool s"
proof (cases "\<exists>t < Suc pool. \<exists>a x. pcs (sq s) t = G_free a x")
  case True
  then show ?thesis using free_nearer [OF c b] by blast
next
  case False
  then obtain r where r: "ahead (Suc pool) {..<pool} (sq s) r" using queue_ahead [OF c b p] by blast
  then have q: "qstep (Suc pool) (sq s) r" by (simp add: ahead_def)
  have same: "after_queue (pcs (sq s)) (pcs r) (roles s) = roles s"
    using r by (intro after_queue_same) (auto simp: ahead_def)
  have "may_enter (roles s t) (pcs r t)" if "pcs (sq s) t = Idle" "pcs r t \<noteq> Idle" for t
  proof -
    have t: "t < pool" "pcs r t = G_test" using r that by (auto simp: ahead_def)
    then have "roles s t = In_queue"
      using server_reach_inv [OF can_answer_reach [OF c]] b
      by (cases "roles s t") (auto simp: server_inv_def roles_ok_def busy_def)
    then show ?thesis by (simp add: t(2))
  qed
  then have step: "server_step pool s (s\<lparr>sq := r, roles := roles s\<rparr>)"
    using server_step.sv_queue [OF q] same by simp
  moreover have "work_dist pool (s\<lparr>sq := r, roles := roles s\<rparr>) < work_dist pool s"
  proof -
    have "\<not> busy pool (s\<lparr>sq := r, roles := roles s\<rparr>)" using b by (simp add: busy_def)
    then show ?thesis using r b by (simp add: work_dist_def ahead_def)
  qed
  moreover have "can_answer pool q (s\<lparr>sq := r, roles := roles s\<rparr>)"
    by (rule queue_go [OF c step q]) (use r in \<open>simp add: ahead_def\<close>)
  ultimately show ?thesis by blast
qed

lemma first_answered:
  assumes "can_answer pool q s" "0 < pool"
  shows "\<exists>t. (server_step pool)\<^sup>*\<^sup>* s t \<and> done_log (sw t) \<noteq> []"
  using assms(1)
proof (induction "work_dist pool s" arbitrary: s rule: less_induct)
  case less
  obtain s' where s': "server_step pool s s'"
    "done_log (sw s') \<noteq> [] \<or> can_answer pool q s' \<and> work_dist pool s' < work_dist pool s"
    using busy_nearer [OF less.prems] idle_nearer [OF less.prems _ assms(2)] by (cases "busy pool s") blast+
  then show ?case using less.hyps [of s'] by (meson converse_rtranclp_into_rtranclp rtranclp.rtrancl_refl)
qed

text \<open>Only the accepting thread can be about to put something.\<close>

lemma one_putting:
  assumes "roles_ok pool s"
  shows "qroom (Suc pool) (sq s) \<le> length (put_log (sq s)) + 1"
proof -
  have "\<not> putting (pcs (sq s) t)" if "t < pool" for t
  proof -
    have "roles s t \<noteq> Accepting" "queue_role (roles s t) (pcs (sq s) t)" using assms that by (auto simp: roles_ok_def)
    then show ?thesis by (cases "roles s t") auto
  qed
  then show ?thesis by (simp add: qroom_def sum_over_def)
qed

lemma can_answerI:
  assumes "server_reach pool q s" "done_log (sw s) = []" "put_log (sq s) \<noteq> []" "length (put_log (sq s)) < 2 ^ 32 - 2"
  shows "can_answer pool q s"
  using assms one_putting [of pool s] server_reach_inv [OF assms(1)] by (simp add: can_answer_def server_inv_def)

end
