(* ===== verification/Worker_Runs.thy ===== *)
theory Worker_Runs
  imports Process_Handling Server_Facts
begin

text \<open>
  A worker of the process pools as a whole: the loop of \<open>server\<close> against an abstract server, which
  keeps the counters and answers one request after the other with \<open>request_answer\<close>.
\<close>

section \<open>The abstract server\<close>

fun serve_spec ::
  "env \<Rightarrow> share_statistics \<Rightarrow> (string \<times> string \<times> string) list \<Rightarrow> string list \<times> share_statistics" where
  "serve_spec E st [] = ([], st)"
| "serve_spec E st ((m, u, v) # reqs) =
     (let a = request_answer E (requests st) m u v; (answers, st') = serve_spec E (counted (fst a) st) reqs
      in (snd a # answers, st'))"

text \<open>
  What the clients do: each sends one request line, and reads everything it is sent. Interrupted
  calls of \<open>accept\<close> may come in between.
\<close>

definition sends_request :: "conn \<Rightarrow> string \<Rightarrow> string \<Rightarrow> string \<Rightarrow> bool" where
  "sends_request c m u v \<longleftrightarrow> conn_sendq c = [] \<and> (\<exists>rest. conn_bytes c = render_request m u v @ rest) \<and>
     request_ok m u v \<and> 3 \<le> length m \<and> length v < BUFFSIZE \<and> u \<noteq> []"

text \<open>The request is not for a script (\<open>/bash/\<close>), whose answer \<open>serve_spec\<close> does not know.\<close>

definition not_script :: "string \<times> string \<times> string \<Rightarrow> bool" where
  "not_script r \<longleftrightarrow> (case r of (m, u, v) \<Rightarrow> case target_of u of T_script command \<Rightarrow> False | _ \<Rightarrow> True)"

lemma not_scriptD: "not_script (m, u, v) \<Longrightarrow> target_of u \<noteq> T_script command"
  by (auto simp: not_script_def)

fun carries :: "(accept_ev \<times> bash_ev list) list \<Rightarrow> (string \<times> string \<times> string) list \<Rightarrow> bool" where
  "carries [] reqs \<longleftrightarrow> reqs = []"
| "carries ((Acc_err e, _) # es) reqs \<longleftrightarrow> e = EINTR \<and> carries es reqs"
| "carries ((Acc c, _) # es) reqs \<longleftrightarrow>
     (case reqs of [] \<Rightarrow> False | (m, u, v) # rest \<Rightarrow> sends_request c m u v \<and> carries es rest)"

section \<open>One connection\<close>

definition worker_ok :: "sys \<Rightarrow> bool" where
  "worker_ok s \<longleftrightarrow> 0 < sem s \<and> share_address s = P_segment \<and> stats_inv (shm s)"

lemma counted_inv:
  assumes "stats_inv st" and "requests st < INT_MAX"
  shows "stats_inv (counted code st)" and "requests (counted code st) = requests st + 1"
  using count_code_counted [OF assms, of code] count_code_inv count_code_requests assms(1) by blast+

lemma pf_do_call_answered:
  assumes "good_request m u v rest s" and "ready s" and "env_short E" and "\<forall>c. target_of u \<noteq> T_script c"
  obtains s' where "pf_do_call E out connfd s = Ret () s'"
    and "tx s' = tx s @ snd (request_answer E (requests (shm s)) m u v)"
    and "shm s' = counted (fst (request_answer E (requests (shm s)) m u v)) (shm s)"
    and "sem s' = sem s" and "shut s' = shut s @ [(connfd, SHUT_WR)]"
    and "share_address s' = share_address s" and "replies s' = replies s"
proof -
  have "answered 0 (request_answer E (requests (shm s)) m u v) (new_buffers s)
      (serve_request ms_read_request_line ms_response (pf_route E out) (new_buffers s))"
    using serve_process_answered(1) [of m u v rest "new_buffers s" E out] assms
    by (simp add: good_request_new_buffers)
  then obtain t where t: "serve_request ms_read_request_line ms_response (pf_route E out) (new_buffers s) = Ret () t"
    "tx t = tx s @ snd (request_answer E (requests (shm s)) m u v)"
    "shm t = counted (fst (request_answer E (requests (shm s)) m u v)) (shm s)" "sem t = sem s"
    by (auto simp: answered_def)
  have out: "outside t = outside s" using frames_Ret [OF outside_pf_serve(1) t(1)] by simp
  have "share_address t = share_address s" "replies t = replies s"
    using arg_cong [OF out, of share_address] arg_cong [OF out, of replies] by (simp_all add: outside_def)
  then show thesis using that t outside_shut [OF out] by (simp add: pf_do_call_def)
qed

text \<open>One turn of the loop on an accepted connection.\<close>

lemma worker_turn:
  assumes "worker_ok s" and "sends_request c m u v" and "not_script (m, u, v)" and "env_short E" and "requests (shm s) < INT_MAX"
  defines "a \<equiv> request_answer E (requests (shm s)) m u v"
  obtains s' where "pool_loop pf_do_call E ((Acc c, out) # es) s = pool_loop pf_do_call E es s'"
    and "replies s' = replies s @ [(fresh_fd (fds s), snd a)]"
    and "shm s' = counted (fst a) (shm s)" and "sem s' = sem s" and "worker_ok s'"
proof -
  let ?fd = "fresh_fd (fds s)"
  let ?t = "s\<lparr>fds := ?fd # fds s, rx := conn_bytes c, sendq := conn_sendq c, tx := []\<rparr>"
  obtain rest where c: "conn_bytes c = render_request m u v @ rest" "conn_sendq c = []"
    "request_ok m u v" "3 \<le> length m" "length v < BUFFSIZE" "u \<noteq> []" "\<forall>command. target_of u \<noteq> T_script command"
    using assms(2) not_scriptD [OF assms(3)] by (auto simp: sends_request_def)
  have "good_request m u v rest ?t" using c by (simp add: good_request_def)
  moreover have "ready ?t" using assms(1,5) c(2) by (simp add: ready_def worker_ok_def)
  ultimately obtain t where t: "pf_do_call E out ?fd ?t = Ret () t"
    "tx t = snd a" "shm t = counted (fst a) (shm s)" "sem t = sem s"
    "share_address t = share_address s" "replies t = replies s"
    using pf_do_call_answered [of m u v rest ?t E out ?fd] assms(4) c(7) by (auto simp: a_def)
  let ?s' = "t\<lparr>replies := replies t @ [(?fd, tx t)]\<rparr>"
  have "worker_ok ?s'"
    using assms(1,5) t counted_inv(1) [of "shm s"] by (simp add: worker_ok_def)
  then show thesis
    by (rule that [rotated 4]) (use t in \<open>simp_all add: add_fd_apply take_conn_def end_conn_def\<close>)
qed

section \<open>The whole loop\<close>

lemma pool_loop_refines:
  assumes "carries evs reqs" and "list_all not_script reqs" and "worker_ok s" and "env_short E"
    and "requests (shm s) + int (length reqs) \<le> INT_MAX"
  shows "\<exists>s'. pool_loop pf_do_call E evs s = Blocked s' \<and>
    map snd (replies s') = map snd (replies s) @ fst (serve_spec E (shm s) reqs) \<and>
    shm s' = snd (serve_spec E (shm s) reqs) \<and> sem s' = sem s"
  using assms
proof (induction evs reqs arbitrary: s rule: carries.induct)
  case (1 reqs)
  then show ?case by simp
next
  case (2 e out es reqs)
  have "worker_ok (s\<lparr>errno := e\<rparr>)" using "2.prems"(3) by (simp add: worker_ok_def)
  then show ?case using "2.IH" [of "s\<lparr>errno := e\<rparr>"] "2.prems" by auto
next
  case (3 c out es reqs)
  obtain m u v rest where r: "reqs = (m, u, v) # rest" "sends_request c m u v" "carries es rest"
    and ns: "not_script (m, u, v)" "list_all not_script rest"
    using "3.prems"(1,2) by (auto split: list.splits)
  have lt: "requests (shm s) < INT_MAX" using "3.prems"(5) r(1) by simp
  let ?a = "request_answer E (requests (shm s)) m u v"
  obtain t where t: "pool_loop pf_do_call E ((Acc c, out) # es) s = pool_loop pf_do_call E es t"
    "replies t = replies s @ [(fresh_fd (fds s), snd ?a)]" "shm t = counted (fst ?a) (shm s)"
    "sem t = sem s" "worker_ok t"
    by (rule worker_turn [OF "3.prems"(3) r(2) ns(1) "3.prems"(4) lt])
  have "requests (shm t) + int (length rest) \<le> INT_MAX"
    using counted_inv(2) [OF _ lt] "3.prems"(3,5) t(3) r(1) by (simp add: worker_ok_def)
  then obtain s' where "pool_loop pf_do_call E es t = Blocked s'"
    "map snd (replies s') = map snd (replies t) @ fst (serve_spec E (shm t) rest)"
    "shm s' = snd (serve_spec E (shm t) rest)" "sem s' = sem t"
    using "3.IH" [OF r(1) refl refl r(3) ns(2) t(5) "3.prems"(4)] by blast
  then show ?case using t r(1) by (simp add: Let_def split_beta del: pool_loop.simps)
qed

text \<open>From the start of \<open>server\<close>: socket, semaphore and shared memory are there.\<close>

lemma worker_starts:
  assumes "\<forall>c \<in> set (socket_calls s SO_REUSEPORT port 0). fails E c = None"
    and "sem_open_ok E" and "shmat_ok E" and "stats_inv (shm s)" and "sem_exists s \<longrightarrow> 0 < sem s"
  obtains t where "pf_server E port evs s = pool_loop pf_do_call E evs t" and "worker_ok t"
    and "shm t = shm s" and "replies t = replies s" and "sem t = (if sem_exists s then sem s else 1)"
proof -
  let ?l = "s\<lparr>calls := calls s @ socket_calls s SO_REUSEPORT port 0, fds := fresh_fd (fds s) # fds s\<rparr>"
  let ?m = "if sem_exists ?l then ?l else ?l\<lparr>sem_exists := True, sem := 1\<rparr>"
  have unit: "bindC c ret x = c x" for c :: "(unit, sys) cmd" and x
    by (simp add: bindC_def split: outcome.split)
  have "pf_server E port evs s = pool_loop pf_do_call E evs (?m\<lparr>share_address := P_segment\<rparr>)"
    using assms(2,3) open_listener_ok [OF assms(1)]
    by (simp add: pf_server_def pool_server_def open_shm_sem_apply attach_def unit)
  then show thesis by (rule that) (use assms(4,5) in \<open>auto simp: worker_ok_def\<close>)
qed

end
