(* ===== verification/Progress.thy ===== *)
theory Progress
  imports Prelude
begin

text \<open>
  What the multi-threaded sample programs have in common: a step relation with an invariant and a
  measure. In a \<open>completing\<close> system some step always brings the program nearer to its end, so it
  cannot deadlock; in a \<open>terminating\<close> one every step does, so every schedule ends.
\<close>

locale completing =
  fixes init :: 's and step :: "'s \<Rightarrow> 's \<Rightarrow> bool" and inv :: "'s \<Rightarrow> bool"
    and dist :: "'s \<Rightarrow> nat" and final :: "'s \<Rightarrow> bool"
  assumes inv_init: "inv init"
    and inv_step: "inv s \<Longrightarrow> step s t \<Longrightarrow> inv t"
    and nearer: "inv s \<Longrightarrow> \<not> final s \<Longrightarrow> \<exists>t. step s t \<and> dist t < dist s"
begin

lemma reach_inv: "step\<^sup>*\<^sup>* init s \<Longrightarrow> inv s"
  by (induction rule: rtranclp_induct) (auto intro: inv_init inv_step)

lemma inv_completes: "inv s \<Longrightarrow> \<exists>t. step\<^sup>*\<^sup>* s t \<and> final t"
proof (induction "dist s" arbitrary: s rule: less_induct)
  case less
  show ?case
  proof (cases "final s")
    case False
    then obtain t where t: "step s t" "dist t < dist s" using nearer less.prems by blast
    then obtain u where "step\<^sup>*\<^sup>* t u" "final u" using less inv_step by blast
    with t show ?thesis by (meson converse_rtranclp_into_rtranclp)
  qed blast
qed

lemma completes: "step\<^sup>*\<^sup>* init s \<Longrightarrow> \<exists>t. step\<^sup>*\<^sup>* s t \<and> final t"
  by (intro inv_completes reach_inv)

lemma stuck_final: "step\<^sup>*\<^sup>* init s \<Longrightarrow> (\<And>t. \<not> step s t) \<Longrightarrow> final s"
  using nearer reach_inv by blast

end

locale terminating = completing +
  assumes dist_step: "inv s \<Longrightarrow> step s t \<Longrightarrow> dist t < dist s"
begin

text \<open>No schedule is longer than the distance of the first state.\<close>

lemma run_bounded: "(step ^^ k) init s \<Longrightarrow> inv s \<and> k + dist s \<le> dist init"
proof (induction k arbitrary: s)
  case 0
  then show ?case using inv_init by auto
next
  case (Suc k)
  then obtain t where t: "(step ^^ k) init t" "step t s" by auto
  then show ?case using Suc.IH [OF t(1)] inv_step dist_step by fastforce
qed

lemma ends: "inv s \<Longrightarrow> \<exists>t. step\<^sup>*\<^sup>* s t \<and> (\<forall>u. \<not> step t u)"
proof (induction "dist s" arbitrary: s rule: less_induct)
  case less
  show ?case
  proof (cases "\<exists>t. step s t")
    case True
    then obtain t where t: "step s t" by blast
    then obtain u where "step\<^sup>*\<^sup>* t u" "\<forall>v. \<not> step u v"
      using less dist_step inv_step by blast
    with t show ?thesis by (meson converse_rtranclp_into_rtranclp)
  qed blast
qed

lemma some_run_ends: "\<exists>k s. (step ^^ k) init s \<and> (\<forall>t. \<not> step s t)"
  using ends [OF inv_init] by (metis rtranclp_power)

text \<open>A run can go on, or it has come to its end within the bound.\<close>

lemma run_bound_or_final: "(step ^^ k) init s \<Longrightarrow> k \<le> dist init \<and> ((\<exists>t. step s t) \<or> inv s \<and> final s)"
  using run_bounded [of k s] nearer [of s] by auto

lemma run_ends: "(step ^^ k) init s \<Longrightarrow> (\<And>t. \<not> step s t) \<Longrightarrow> final s \<and> k \<le> dist init"
  using run_bounded [of k s] nearer [of s] by auto

end

end
