(* ===== verification/Store_Buffer.thy ===== *)
theory Store_Buffer
  imports Progress
begin

text \<open>
  \<open>Reference/multi_threading/atomic/test.cpp\<close>: in every round two threads each store to their own
  variable and then load the other's; \<open>main\<close> prints a line when both have loaded 0. The machine is
  the one whose \<open>mfence\<close> the code uses, x86: a thread's stores (release stores are plain ones) wait
  in its store buffer, in order, and reach the memory at any later time; a load (acquire loads are
  plain ones) looks into the own buffer first. \<open>pthread_create\<close> and \<open>pthread_join\<close> synchronise: a
  thread is joined when its buffer is empty, and the stores of \<open>main\<close>, which runs alone when it makes
  them, are written through. \<open>HAVE_BARRIER\<close> is the parameter \<open>barrier\<close>.
\<close>

section \<open>State and steps\<close>

datatype shared = V_x | V_y | V_a | V_b

datatype task = Task1 | Task2

text \<open>The two tasks can be enumerated, so that a statement about both can be evaluated.\<close>

instantiation task :: enum
begin

definition enum_task :: "task list" where
  "enum_task = [Task1, Task2]"

definition enum_all_task :: "(task \<Rightarrow> bool) \<Rightarrow> bool" where
  "enum_all_task P \<longleftrightarrow> P Task1 \<and> P Task2"

definition enum_ex_task :: "(task \<Rightarrow> bool) \<Rightarrow> bool" where
  "enum_ex_task P \<longleftrightarrow> P Task1 \<or> P Task2"

instance
proof
  have task: "t = Task1 \<or> t = Task2" for t by (cases t) simp_all
  then show "(UNIV :: task set) = set enum_class.enum" by (auto simp: enum_task_def)
  show "enum_class.enum_all P \<longleftrightarrow> Ball UNIV P" for P :: "task \<Rightarrow> bool"
    unfolding enum_all_task_def using task by (metis UNIV_I)
  show "enum_class.enum_ex P \<longleftrightarrow> Bex UNIV P" for P :: "task \<Rightarrow> bool"
    unfolding enum_ex_task_def using task by (metis UNIV_I)
qed (simp add: enum_task_def)

end

fun own :: "task \<Rightarrow> shared" where "own Task1 = V_a" | "own Task2 = V_b"

fun other :: "task \<Rightarrow> shared" where "other Task1 = V_b" | "other Task2 = V_a"

fun result :: "task \<Rightarrow> shared" where "result Task1 = V_x" | "result Task2 = V_y"

text \<open>Where a task is (\<open>K_result v\<close>: \<open>v\<close> is loaded and not yet stored), and where \<open>main\<close> is, with \<open>i\<close>.\<close>

datatype task_pc = K_none | K_store | K_barrier | K_load | K_result int | K_exit | K_gone

datatype drive_pc =
    D_test int | D_reset shared int | D_create task int | D_join task int | D_check int | D_return

type_synonym store_buffer = "(shared \<times> int) list"

record litmus =
  memory :: "shared \<Rightarrow> int"
  buffers :: "task \<Rightarrow> store_buffer"
  tasks :: "task \<Rightarrow> task_pc"
  drive :: drive_pc
  lines_out :: nat

text \<open>The first value of \<open>i\<close> is \<open>rounds\<close>, 100000000 in \<open>main\<close>.\<close>

definition litmus_init :: "nat \<Rightarrow> litmus" where
  "litmus_init rounds = \<lparr>memory = (\<lambda>_. 0), buffers = (\<lambda>_. []), tasks = (\<lambda>_. K_none),
     drive = D_test (int rounds), lines_out = 0\<rparr>"

definition sb_load :: "task \<Rightarrow> shared \<Rightarrow> litmus \<Rightarrow> int" where
  "sb_load t v s = (case map_of (rev (buffers s t)) v of Some n \<Rightarrow> n | None \<Rightarrow> memory s v)"

definition sb_store :: "task \<Rightarrow> shared \<Rightarrow> int \<Rightarrow> litmus \<Rightarrow> litmus" where
  "sb_store t v n s = s\<lparr>buffers := (buffers s)(t := buffers s t @ [(v, n)])\<rparr>"

text \<open>One step of \<open>task1\<close> or \<open>task2\<close>; without \<open>HAVE_BARRIER\<close> \<open>mrwbarrier()\<close> is empty.\<close>

definition task_next :: "bool \<Rightarrow> task \<Rightarrow> litmus \<Rightarrow> litmus option" where
  "task_next barrier t s =
     (let go = (\<lambda>pc u. Some (u\<lparr>tasks := (tasks s)(t := pc)\<rparr>)) in
      case tasks s t of
        K_store \<Rightarrow> go K_barrier (sb_store t (own t) 1 s)
      | K_barrier \<Rightarrow> if barrier \<and> buffers s t \<noteq> [] then None else go K_load s
      | K_load \<Rightarrow> go (K_result (sb_load t (other t) s)) s
      | K_result v \<Rightarrow> go K_exit (sb_store t (result t) v s)
      | K_exit \<Rightarrow> if buffers s t = [] then go K_gone s else None
      | _ \<Rightarrow> None)"

text \<open>The oldest buffered store of a task reaches the memory.\<close>

definition flush_next :: "task \<Rightarrow> litmus \<Rightarrow> litmus option" where
  "flush_next t s =
     (case buffers s t of
        [] \<Rightarrow> None
      | (v, n) # rest \<Rightarrow> Some (s\<lparr>memory := (memory s)(v := n), buffers := (buffers s)(t := rest)\<rparr>))"

definition main_next :: "litmus \<Rightarrow> litmus option" where
  "main_next s =
     (case drive s of
        D_test i \<Rightarrow> Some (s\<lparr>drive := (if 0 \<le> i - 1 then D_reset V_x (i - 1) else D_return)\<rparr>)
      | D_reset v i \<Rightarrow> Some (s\<lparr>memory := (memory s)(v := 0),
          drive := (case v of V_x \<Rightarrow> D_reset V_y i | V_y \<Rightarrow> D_reset V_a i | V_a \<Rightarrow> D_reset V_b i
                    | V_b \<Rightarrow> D_create Task1 i)\<rparr>)
      | D_create t i \<Rightarrow> Some (s\<lparr>tasks := (tasks s)(t := K_store),
          drive := (case t of Task1 \<Rightarrow> D_create Task2 i | Task2 \<Rightarrow> D_join Task1 i)\<rparr>)
      | D_join t i \<Rightarrow>
          if tasks s t = K_gone
          then Some (s\<lparr>drive := (case t of Task1 \<Rightarrow> D_join Task2 i | Task2 \<Rightarrow> D_check i)\<rparr>) else None
      | D_check i \<Rightarrow> Some (s\<lparr>lines_out := (if memory s V_x = 0 \<and> memory s V_y = 0 then Suc (lines_out s) else lines_out s),
          drive := D_test i\<rparr>)
      | D_return \<Rightarrow> None)"

datatype who = W_main | W_task task | W_flush task

fun who_next :: "bool \<Rightarrow> who \<Rightarrow> litmus \<Rightarrow> litmus option" where
  "who_next barrier W_main s = main_next s"
| "who_next barrier (W_task t) s = task_next barrier t s"
| "who_next barrier (W_flush t) s = flush_next t s"

inductive litmus_step :: "bool \<Rightarrow> litmus \<Rightarrow> litmus \<Rightarrow> bool" for barrier where
  moves: "who_next barrier w s = Some s' \<Longrightarrow> litmus_step barrier s s'"

inductive_cases litmus_stepE: "litmus_step barrier s s'"

text \<open>A schedule, for running the program.\<close>

fun litmus_run :: "bool \<Rightarrow> who list \<Rightarrow> litmus \<Rightarrow> litmus option" where
  "litmus_run barrier [] s = Some s"
| "litmus_run barrier (w # ws) s = (case who_next barrier w s of None \<Rightarrow> None | Some s' \<Rightarrow> litmus_run barrier ws s')"

lemma run_reaches: "litmus_run barrier ws s = Some t \<Longrightarrow> (litmus_step barrier)\<^sup>*\<^sup>* s t"
proof (induction ws arbitrary: s)
  case (Cons w ws)
  then obtain u where "litmus_step barrier s u" "(litmus_step barrier)\<^sup>*\<^sup>* u t"
    by (auto split: option.splits intro: litmus_step.moves)
  then show ?case by (rule converse_rtranclp_into_rtranclp)
qed simp

lemma load_simps [simp]:
  "sb_load t v (s\<lparr>drive := d\<rparr>) = sb_load t v s" "sb_load t v (s\<lparr>tasks := p\<rparr>) = sb_load t v s"
  "sb_load t v (s\<lparr>lines_out := n\<rparr>) = sb_load t v s"
  by (simp_all add: sb_load_def split: option.split)

lemma task_all: "(\<forall>t. P t) \<longleftrightarrow> P Task1 \<and> P Task2"
  unfolding ball_UNIV [symmetric] by (simp add: UNIV_enum enum_task_def)

section \<open>Invariant\<close>

text \<open>The tasks of this round that have been created.\<close>

fun current :: "drive_pc \<Rightarrow> task \<Rightarrow> bool" where
  "current (D_create t' _) t \<longleftrightarrow> t' = Task2 \<and> t = Task1"
| "current (D_join _ _) t \<longleftrightarrow> True"
| "current (D_check _) t \<longleftrightarrow> True"
| "current _ t \<longleftrightarrow> False"

fun joined :: "drive_pc \<Rightarrow> task \<Rightarrow> bool" where
  "joined (D_join t' _) t \<longleftrightarrow> t' = Task2 \<and> t = Task1"
| "joined (D_check _) t \<longleftrightarrow> True"
| "joined _ t \<longleftrightarrow> False"

fun rounds_left :: "drive_pc \<Rightarrow> int" where
  "rounds_left (D_test i) = i" | "rounds_left (D_reset _ i) = i" | "rounds_left (D_create _ i) = i"
| "rounds_left (D_join _ i) = i" | "rounds_left (D_check i) = i" | "rounds_left D_return = 0"

definition idle_task :: "task_pc \<Rightarrow> bool" where
  "idle_task p \<longleftrightarrow> p = K_none \<or> p = K_gone"

fun buffer_ok :: "bool \<Rightarrow> task \<Rightarrow> task_pc \<Rightarrow> store_buffer \<Rightarrow> bool" where
  "buffer_ok barrier t K_barrier b \<longleftrightarrow> b = [] \<or> b = [(own t, 1)]"
| "buffer_ok barrier t K_load b \<longleftrightarrow> b = [] \<or> \<not> barrier \<and> b = [(own t, 1)]"
| "buffer_ok barrier t (K_result _) b \<longleftrightarrow> b = [] \<or> \<not> barrier \<and> b = [(own t, 1)]"
| "buffer_ok barrier t K_exit b \<longleftrightarrow> b = [] \<or> (\<exists>v. b = [(result t, v)] \<or> \<not> barrier \<and> b = [(own t, 1), (result t, v)])"
| "buffer_ok barrier t _ b \<longleftrightarrow> b = []"

definition task_ok :: "bool \<Rightarrow> litmus \<Rightarrow> task \<Rightarrow> bool" where
  "task_ok barrier s t \<longleftrightarrow>
     buffer_ok barrier t (tasks s t) (buffers s t) \<and>
     (if current (drive s) t then tasks s t \<noteq> K_none else idle_task (tasks s t)) \<and>
     (joined (drive s) t \<longrightarrow> tasks s t = K_gone) \<and>
     (current (drive s) t \<and> tasks s t \<noteq> K_store \<and> buffers s t \<noteq> [(own t, 1)] \<and>
        (barrier \<or> tasks s t = K_barrier) \<longrightarrow> memory s (own t) = 1)"

text \<open>What a task has loaded in this round, if it has.\<close>

definition loaded :: "litmus \<Rightarrow> task \<Rightarrow> int option" where
  "loaded s t =
     (if current (drive s) t then
        (case tasks s t of
           K_result v \<Rightarrow> Some v
         | K_exit \<Rightarrow> Some (sb_load t (result t) s)
         | K_gone \<Rightarrow> Some (memory s (result t))
         | _ \<Rightarrow> None)
      else None)"

definition one_sees :: "litmus \<Rightarrow> bool" where
  "one_sees s \<longleftrightarrow> (\<forall>t u v w. t \<noteq> u \<and> loaded s t = Some v \<and> loaded s u = Some w \<longrightarrow> v = 1 \<or> w = 1)"

definition litmus_inv :: "bool \<Rightarrow> litmus \<Rightarrow> bool" where
  "litmus_inv barrier s \<longleftrightarrow> 0 \<le> rounds_left (drive s) \<and> (\<forall>t. task_ok barrier s t) \<and>
     (barrier \<longrightarrow> lines_out s = 0 \<and> one_sees s)"

lemma one_sees_None: "loaded s t = None \<Longrightarrow> one_sees s"
  unfolding one_sees_def by (metis option.distinct(1) task.exhaust)

lemma one_sees_cong: "(\<And>t. loaded s' t = loaded s t) \<Longrightarrow> one_sees s' = one_sees s"
  by (simp add: one_sees_def)

lemma litmus_inv_init: "litmus_inv barrier (litmus_init rounds)"
  by (simp add: litmus_inv_def litmus_init_def task_ok_def idle_task_def loaded_def one_sees_def)

text \<open>The invariant of a task depends on its own part of the state and on the stage of \<open>main\<close>.\<close>

lemma task_ok_cong:
  assumes "tasks s' t = tasks s t" "buffers s' t = buffers s t" "current (drive s') t = current (drive s) t"
    "joined (drive s') t \<longrightarrow> joined (drive s) t \<or> tasks s t = K_gone"
    "memory s' (own t) = memory s (own t) \<or> \<not> current (drive s) t"
  shows "task_ok barrier s t \<Longrightarrow> task_ok barrier s' t"
  using assms by (auto simp: task_ok_def)

lemma idle_buffer: "buffer_ok barrier t p b \<Longrightarrow> idle_task p \<Longrightarrow> b = []"
  by (auto simp: idle_task_def)

lemma not_current_idle:
  "task_ok barrier s t \<Longrightarrow> \<not> current (drive s) t \<Longrightarrow> idle_task (tasks s t) \<and> buffers s t = []"
  using idle_buffer by (auto simp: task_ok_def)

lemma gone_buffer: "task_ok barrier s t \<Longrightarrow> tasks s t = K_gone \<Longrightarrow> buffers s t = []"
  by (simp add: task_ok_def)

lemma loaded_None: "\<not> current (drive s) t \<Longrightarrow> loaded s t = None"
  by (simp add: loaded_def)

lemma main_next_inv:
  assumes "litmus_inv barrier s" and "main_next s = Some s'"
  shows "litmus_inv barrier s'"
proof -
  have ok: "task_ok barrier s t" for t using assms(1) by (simp add: litmus_inv_def)
  have left: "0 \<le> rounds_left (drive s)" using assms(1) by (simp add: litmus_inv_def)
  show ?thesis
  proof (cases "drive s")
    case (D_test i)
    have "task_ok barrier s' t" for t
      by (rule task_ok_cong [OF _ _ _ _ _ ok]) (use D_test assms(2) in \<open>auto simp: main_next_def split: if_splits\<close>)
    moreover have "loaded s' Task1 = None"
      by (rule loaded_None) (use D_test assms(2) in \<open>auto simp: main_next_def split: if_splits\<close>)
    ultimately show ?thesis
      using D_test assms left one_sees_None by (auto simp: litmus_inv_def main_next_def)
  next
    case (D_reset v i)
    have "task_ok barrier s' t" for t
      by (rule task_ok_cong [OF _ _ _ _ _ ok]) (use D_reset assms(2) in \<open>auto simp: main_next_def split: shared.splits\<close>)
    moreover have "loaded s' Task1 = None"
      by (rule loaded_None) (use D_reset assms(2) in \<open>auto simp: main_next_def split: shared.splits\<close>)
    ultimately show ?thesis
      using D_reset assms left one_sees_None by (auto simp: litmus_inv_def main_next_def split: shared.split)
  next
    case (D_create t i)
    have "buffers s t = []" using not_current_idle [OF ok, of t] D_create by (cases t) simp_all
    then have new: "task_ok barrier s' t" using D_create assms(2) by (cases t) (auto simp: main_next_def task_ok_def)
    have "task_ok barrier s' u" if "u \<noteq> t" for u
      by (rule task_ok_cong [OF _ _ _ _ _ ok])
         (use D_create assms(2) that in \<open>cases u; cases t; auto simp: main_next_def\<close>)+
    with new have "task_ok barrier s' u" for u by (cases "u = t") simp_all
    moreover have "loaded s' t = None" using D_create assms(2) by (auto simp: main_next_def loaded_def)
    ultimately show ?thesis using D_create assms left one_sees_None [of s' t]
      by (auto simp: litmus_inv_def main_next_def split: task.split)
  next
    case (D_join t i)
    have "task_ok barrier s' u" for u
      by (rule task_ok_cong [OF _ _ _ _ _ ok])
         (use D_join assms(2) ok [of Task1] in \<open>cases u; cases t; auto simp: main_next_def task_ok_def split: if_splits\<close>)+
    moreover have "loaded s' u = loaded s u" for u
      using D_join assms(2) by (cases t) (auto simp: main_next_def loaded_def split: if_splits task_pc.split)
    then have "one_sees s' = one_sees s" by (rule one_sees_cong)
    ultimately show ?thesis using D_join assms left
      by (auto simp: litmus_inv_def main_next_def split: task.split if_splits)
  next
    case (D_check i)
    have gone: "tasks s t = K_gone" for t using ok [of t] D_check by (simp add: task_ok_def)
    have "task_ok barrier s' u" for u
      using gone_buffer [OF ok gone, of u] gone [of u] D_check assms(2)
      by (auto simp: main_next_def task_ok_def idle_task_def)
    moreover have "loaded s' Task1 = None" using D_check assms(2) by (auto simp: main_next_def loaded_def)
    moreover have "loaded s Task1 = Some (memory s V_x)" "loaded s Task2 = Some (memory s V_y)"
      using gone D_check by (simp_all add: loaded_def)
    then have "memory s V_x = 1 \<or> memory s V_y = 1" if barrier
      using assms(1) that unfolding litmus_inv_def one_sees_def by (metis task.distinct(1))
    ultimately show ?thesis using D_check assms left one_sees_None [of s' Task1]
      by (auto simp: litmus_inv_def main_next_def)
  qed (use assms(2) in \<open>simp add: main_next_def\<close>)
qed

text \<open>The variables of the two tasks are four different ones.\<close>

lemma vars_distinct [simp]:
  "own t \<noteq> result u" "result u \<noteq> own t" "own t = own u \<longleftrightarrow> t = u" "result t = result u \<longleftrightarrow> t = u"
  by (cases t; cases u; simp)+

lemma other_own: "t \<noteq> u \<Longrightarrow> other t = own u"
  by (cases t; cases u; simp)

lemma load_store: "sb_load t v (sb_store t v n s) = n"
  by (simp add: sb_load_def sb_store_def)

text \<open>A step of one task leaves the other one and what it has loaded alone.\<close>

lemma other_task_ok:
  assumes "litmus_inv barrier s" "u \<noteq> t" "tasks s' u = tasks s u" "buffers s' u = buffers s u" "drive s' = drive s"
    "\<And>v. v = own u \<or> v = result u \<Longrightarrow> memory s' v = memory s v"
  shows "task_ok barrier s' u" "loaded s' u = loaded s u"
  using assms by (auto simp: litmus_inv_def task_ok_def loaded_def sb_load_def split: task_pc.split option.split)

lemma task_inv_step:
  assumes "litmus_inv barrier s" "drive s' = drive s" "lines_out s' = lines_out s"
    "\<And>u. u \<noteq> t \<Longrightarrow> tasks s' u = tasks s u \<and> buffers s' u = buffers s u"
    "\<And>u v. u \<noteq> t \<Longrightarrow> v = own u \<or> v = result u \<Longrightarrow> memory s' v = memory s v"
    "task_ok barrier s' t"
    "barrier \<Longrightarrow> loaded s' t = None \<or> loaded s' t = loaded s t \<or>
       loaded s' t = Some 1 \<or> (\<forall>u. u \<noteq> t \<longrightarrow> loaded s u = None)"
  shows "litmus_inv barrier s'"
proof -
  have u: "task_ok barrier s' u" "loaded s' u = loaded s u" if "u \<noteq> t" for u
    by (rule other_task_ok [OF assms(1) that]; use assms that in auto)+
  then have "task_ok barrier s' u" for u using assms(6) by (cases "u = t") simp_all
  moreover have "one_sees s'" if b: barrier
  proof -
    have "one_sees s" using assms(1) b by (simp add: litmus_inv_def)
    then show ?thesis
      using assms(7) [OF b] u(2) unfolding one_sees_def by (metis option.distinct(1) option.inject)
  qed
  ultimately show ?thesis using assms(1-3) by (simp add: litmus_inv_def)
qed

lemma task_next_inv:
  assumes inv: "litmus_inv barrier s" and step: "task_next barrier t s = Some s'"
  shows "litmus_inv barrier s'"
proof -
  have ok: "task_ok barrier s u" for u using inv by (simp add: litmus_inv_def)
  have "\<not> idle_task (tasks s t)" using step by (auto simp: task_next_def idle_task_def)
  then have cur: "current (drive s) t" "\<not> joined (drive s) t"
    using ok [of t] by (auto simp: task_ok_def idle_task_def split: if_splits)
  note [simp] = task_next_def Let_def sb_store_def
  show ?thesis
  proof (rule task_inv_step [OF inv, where t = t])
    show "task_ok barrier s' t"
      using step ok [of t] cur by (cases "tasks s t") (auto simp: task_ok_def split: if_splits)
    show "loaded s' t = None \<or> loaded s' t = loaded s t \<or> loaded s' t = Some 1 \<or> (\<forall>u. u \<noteq> t \<longrightarrow> loaded s u = None)"
      if b: barrier
    proof (cases "tasks s t")
      case K_load
      then have s': "loaded s' t = Some (sb_load t (other t) s)" using step cur by (auto simp: loaded_def)
      show ?thesis
      proof (cases "\<forall>u. u \<noteq> t \<longrightarrow> loaded s u = None")
        case False
        then obtain u where u: "u \<noteq> t" "loaded s u \<noteq> None" by blast
        then have "memory s (own u) = 1"
          using ok [of u] b by (auto simp: task_ok_def loaded_def split: if_splits task_pc.splits)
        moreover have "buffers s t = []" using ok [of t] K_load b by (simp add: task_ok_def)
        ultimately have "sb_load t (other t) s = 1" using other_own [of t u] u(1) by (auto simp: sb_load_def)
        then show ?thesis using s' by simp
      qed blast
    next
      case (K_result v)
      then show ?thesis using step cur by (auto simp: loaded_def sb_load_def)
    next
      case K_exit
      then show ?thesis using step cur by (auto simp: loaded_def sb_load_def split: if_splits)
    qed (use step in \<open>auto simp: loaded_def split: if_splits\<close>)
  qed (use step in \<open>auto split: task_pc.splits if_splits\<close>)
qed

lemma load_flush:
  assumes "buffers s t = (v, n) # rest"
  shows "sb_load t w (s\<lparr>memory := (memory s)(v := n), buffers := (buffers s)(t := rest)\<rparr>) = sb_load t w s"
  using assms by (auto simp: sb_load_def map_add_def split: option.split)

lemma flush_next_inv:
  assumes inv: "litmus_inv barrier s" and step: "flush_next t s = Some s'"
  shows "litmus_inv barrier s'"
proof -
  have ok: "task_ok barrier s t" using inv by (simp add: litmus_inv_def)
  obtain v n rest where b: "buffers s t = (v, n) # rest"
    and s': "s' = s\<lparr>memory := (memory s)(v := n), buffers := (buffers s)(t := rest)\<rparr>"
    using step by (auto simp: flush_next_def split: list.splits prod.splits)
  have v: "v = own t \<or> v = result t" using ok b by (cases "tasks s t") (auto simp: task_ok_def)
  have new: "task_ok barrier s' t"
    using ok b s' by (cases "tasks s t") (auto simp: task_ok_def idle_task_def split: if_splits)
  have "tasks s t \<noteq> K_gone" using gone_buffer [OF ok] b by auto
  then have "loaded s' t = loaded s t"
    using load_flush [OF b, of "result t"] s' by (auto simp: loaded_def split: task_pc.split)
  then show ?thesis
    using new v by (intro task_inv_step [OF inv, where t = t]) (auto simp: s')
qed

lemma litmus_inv_step: "litmus_inv barrier s \<Longrightarrow> litmus_step barrier s s' \<Longrightarrow> litmus_inv barrier s'"
proof (erule litmus_stepE)
  fix w
  assume "litmus_inv barrier s" "who_next barrier w s = Some s'"
  then show "litmus_inv barrier s'"
    by (cases w) (auto intro: main_next_inv task_next_inv flush_next_inv)
qed

section \<open>Every schedule ends\<close>

fun task_steps :: "task_pc \<Rightarrow> nat" where
  "task_steps K_store = 7" | "task_steps K_barrier = 5" | "task_steps K_load = 4" | "task_steps (K_result _) = 3"
| "task_steps K_exit = 1" | "task_steps _ = 0"

definition per_round :: "int \<Rightarrow> nat" where
  "per_round i = 24 * nat i + 1"

fun main_steps :: "drive_pc \<Rightarrow> nat" where
  "main_steps (D_test i) = per_round i"
| "main_steps (D_reset v i) = per_round i + (case v of V_x \<Rightarrow> 23 | V_y \<Rightarrow> 22 | V_a \<Rightarrow> 21 | V_b \<Rightarrow> 20)"
| "main_steps (D_create t i) = per_round i + (case t of Task1 \<Rightarrow> 19 | Task2 \<Rightarrow> 11)"
| "main_steps (D_join t i) = per_round i + (case t of Task1 \<Rightarrow> 3 | Task2 \<Rightarrow> 2)"
| "main_steps (D_check i) = per_round i + 1"
| "main_steps D_return = 0"

definition litmus_dist :: "litmus \<Rightarrow> nat" where
  "litmus_dist s = main_steps (drive s) +
     (task_steps (tasks s Task1) + length (buffers s Task1)) + (task_steps (tasks s Task2) + length (buffers s Task2))"

lemma per_round_test: "0 \<le> i - 1 \<Longrightarrow> per_round i = per_round (i - 1) + 24"
  by (simp add: per_round_def)

lemma main_next_dist:
  assumes "litmus_inv barrier s" "main_next s = Some s'"
  shows "litmus_dist s = Suc (litmus_dist s')"
proof (cases "drive s")
  case (D_test i)
  then show ?thesis
    using assms per_round_test [of i] by (auto simp: main_next_def litmus_dist_def per_round_def litmus_inv_def)
next
  case (D_create t i)
  have "idle_task (tasks s t)"
    using not_current_idle [of barrier s t] assms(1) D_create by (cases t) (auto simp: litmus_inv_def)
  then show ?thesis
    using assms(2) D_create by (cases t) (auto simp: main_next_def litmus_dist_def idle_task_def)
qed (use assms(2) in \<open>auto simp: main_next_def litmus_dist_def split: shared.splits task.splits if_splits\<close>)

lemma litmus_dist_step:
  assumes "litmus_inv barrier s" "litmus_step barrier s s'"
  shows "litmus_dist s = Suc (litmus_dist s')"
proof (rule litmus_stepE [OF assms(2)])
  fix w
  assume w: "who_next barrier w s = Some s'"
  show ?thesis
  proof (cases w)
    case W_main
    then show ?thesis using main_next_dist [OF assms(1)] w by simp
  next
    case (W_task t)
    then show ?thesis using w
      by (cases t) (auto simp: task_next_def litmus_dist_def sb_store_def Let_def split: task_pc.splits if_splits)
  next
    case (W_flush t)
    then show ?thesis using w by (cases t) (auto simp: flush_next_def litmus_dist_def split: list.splits)
  qed
qed

lemma litmus_progress:
  assumes "litmus_inv barrier s" "drive s \<noteq> D_return"
  shows "\<exists>s'. litmus_step barrier s s'"
proof -
  have "\<exists>w s'. who_next barrier w s = Some s'"
  proof (cases "main_next s")
    case None
    then obtain t i where t: "drive s = D_join t i" "tasks s t \<noteq> K_gone"
      using assms(2) by (auto simp: main_next_def split: drive_pc.splits if_splits)
    have "task_ok barrier s t" using assms(1) by (simp add: litmus_inv_def)
    then have run: "tasks s t \<noteq> K_none" using t(1) by (simp add: task_ok_def)
    show ?thesis
    proof (cases "buffers s t")
      case Nil
      then have "task_next barrier t s \<noteq> None"
        using run t(2) by (cases "tasks s t") (simp_all add: task_next_def Let_def)
      then show ?thesis using who_next.simps(2) [of barrier t s] by (metis not_None_eq)
    next
      case (Cons e rest)
      then have "flush_next t s \<noteq> None" by (simp add: flush_next_def split: prod.split)
      then show ?thesis using who_next.simps(3) [of barrier t s] by (metis not_None_eq)
    qed
  qed (use who_next.simps(1) [of barrier s] in metis)
  then show ?thesis by (blast intro: litmus_step.moves)
qed

interpretation litmus: terminating "litmus_init rounds" "litmus_step barrier" "litmus_inv barrier" litmus_dist
  "\<lambda>s. drive s = D_return" for barrier rounds
proof
  show "litmus_inv barrier s \<Longrightarrow> litmus_step barrier s t \<Longrightarrow> litmus_dist t < litmus_dist s" for s t
    using litmus_dist_step [of barrier s t] by simp
  then show "\<exists>t. litmus_step barrier s t \<and> litmus_dist t < litmus_dist s"
    if "litmus_inv barrier s" "drive s \<noteq> D_return" for s
    using that litmus_progress [of barrier s] by blast
qed (auto intro: litmus_inv_init litmus_inv_step)

lemma litmus_dist_init: "litmus_dist (litmus_init rounds) = 24 * rounds + 1"
  by (simp add: litmus_dist_def litmus_init_def per_round_def)

text \<open>A round in which both tasks load before either store has reached the memory.\<close>

definition late_stores :: "who list" where
  "late_stores = [W_main, W_main, W_main, W_main, W_main, W_main, W_main,
     W_task Task1, W_task Task1, W_task Task1, W_task Task2, W_task Task2, W_task Task2,
     W_task Task1, W_flush Task1, W_flush Task1, W_task Task1, W_task Task2, W_flush Task2, W_flush Task2, W_task Task2,
     W_main, W_main, W_main]"

lemma late_stores_run:
  "\<exists>s. litmus_run False late_stores (litmus_init (Suc n)) = Some s \<and> lines_out s = 1"
  by (simp add: late_stores_def litmus_init_def main_next_def task_next_def flush_next_def sb_store_def sb_load_def)

end
