(* ===== verification/Print_Race.thy ===== *)
theory Print_Race
  imports Progress
begin

text \<open>
  \<open>Reference/multi_threading/condition_variable.cpp\<close>: ten threads wait on a condition variable
  until \<open>go\<close> sets \<open>ready\<close>; each then prints its line. A step is one library call or one access to
  \<open>ready\<close> or to the output of one thread; \<open>wait\<close> may also wake up for no reason. The number of
  threads is \<open>n\<close>, 10 in \<open>main\<close>.
\<close>

section \<open>State and steps\<close>

datatype tid = Main | Thr nat

text \<open>A thread of \<open>print_id\<close>: where it is in the function.\<close>

datatype print_pc = T_none | T_start | T_test | T_wait | T_woken | T_unlock | T_done

text \<open>\<open>main\<close> with \<open>go\<close> inlined.\<close>

datatype main_pc = M_spawn nat | M_lock | M_set | M_notify | M_unlock | M_join nat | M_done

datatype line = Ready_line | Thread_line nat

record race =
  r_mtx :: "tid option"
  r_ready :: bool
  r_pcs :: "nat \<Rightarrow> print_pc"
  r_main :: main_pc
  screen :: "line list"

definition race_init :: race where
  "race_init = \<lparr>r_mtx = None, r_ready = False, r_pcs = (\<lambda>_. T_none), r_main = M_spawn 0, screen = []\<rparr>"

definition notify_all :: "(nat \<Rightarrow> print_pc) \<Rightarrow> nat \<Rightarrow> print_pc" where
  "notify_all f = (\<lambda>i. if f i = T_wait then T_woken else f i)"

inductive race_step :: "nat \<Rightarrow> race \<Rightarrow> race \<Rightarrow> bool" for n where
  spawn: "r_main s = M_spawn i \<Longrightarrow> i < n \<Longrightarrow>
    race_step n s (s\<lparr>r_pcs := (r_pcs s)(i := T_start), r_main := M_spawn (Suc i)\<rparr>)"
| announce: "r_main s = M_spawn i \<Longrightarrow> \<not> i < n \<Longrightarrow>
    race_step n s (s\<lparr>r_main := M_lock, screen := screen s @ [Ready_line]\<rparr>)"
| go_lock: "r_main s = M_lock \<Longrightarrow> r_mtx s = None \<Longrightarrow> race_step n s (s\<lparr>r_mtx := Some Main, r_main := M_set\<rparr>)"
| go_set: "r_main s = M_set \<Longrightarrow> race_step n s (s\<lparr>r_ready := True, r_main := M_notify\<rparr>)"
| go_notify: "r_main s = M_notify \<Longrightarrow> race_step n s (s\<lparr>r_pcs := notify_all (r_pcs s), r_main := M_unlock\<rparr>)"
| go_unlock: "r_main s = M_unlock \<Longrightarrow> race_step n s (s\<lparr>r_mtx := None, r_main := M_join 0\<rparr>)"
| join: "r_main s = M_join i \<Longrightarrow> i < n \<Longrightarrow> r_pcs s i = T_done \<Longrightarrow> race_step n s (s\<lparr>r_main := M_join (Suc i)\<rparr>)"
| leave: "r_main s = M_join i \<Longrightarrow> \<not> i < n \<Longrightarrow> race_step n s (s\<lparr>r_main := M_done\<rparr>)"
| lock: "i < n \<Longrightarrow> r_pcs s i = T_start \<Longrightarrow> r_mtx s = None \<Longrightarrow>
    race_step n s (s\<lparr>r_mtx := Some (Thr i), r_pcs := (r_pcs s)(i := T_test)\<rparr>)"
| wait: "i < n \<Longrightarrow> r_pcs s i = T_test \<Longrightarrow> \<not> r_ready s \<Longrightarrow>
    race_step n s (s\<lparr>r_mtx := None, r_pcs := (r_pcs s)(i := T_wait)\<rparr>)"
| print: "i < n \<Longrightarrow> r_pcs s i = T_test \<Longrightarrow> r_ready s \<Longrightarrow>
    race_step n s (s\<lparr>screen := screen s @ [Thread_line i], r_pcs := (r_pcs s)(i := T_unlock)\<rparr>)"
| unlock: "i < n \<Longrightarrow> r_pcs s i = T_unlock \<Longrightarrow>
    race_step n s (s\<lparr>r_mtx := None, r_pcs := (r_pcs s)(i := T_done)\<rparr>)"
| spurious: "i < n \<Longrightarrow> r_pcs s i = T_wait \<Longrightarrow> race_step n s (s\<lparr>r_pcs := (r_pcs s)(i := T_woken)\<rparr>)"
| relock: "i < n \<Longrightarrow> r_pcs s i = T_woken \<Longrightarrow> r_mtx s = None \<Longrightarrow>
    race_step n s (s\<lparr>r_mtx := Some (Thr i), r_pcs := (r_pcs s)(i := T_test)\<rparr>)"

section \<open>Invariant\<close>

fun spawned :: "nat \<Rightarrow> main_pc \<Rightarrow> nat" where
  "spawned n (M_spawn k) = k" | "spawned n _ = n"

fun main_holds :: "main_pc \<Rightarrow> bool" where
  "main_holds M_set = True" | "main_holds M_notify = True" | "main_holds M_unlock = True"
| "main_holds _ = False"

fun after_set :: "main_pc \<Rightarrow> bool" where
  "after_set M_notify = True" | "after_set M_unlock = True" | "after_set (M_join _) = True"
| "after_set M_done = True" | "after_set _ = False"

fun after_notify :: "main_pc \<Rightarrow> bool" where
  "after_notify M_unlock = True" | "after_notify (M_join _) = True" | "after_notify M_done = True"
| "after_notify _ = False"

definition thread_holds :: "print_pc \<Rightarrow> bool" where
  "thread_holds p \<longleftrightarrow> p = T_test \<or> p = T_unlock"

definition printed_pc :: "print_pc \<Rightarrow> bool" where
  "printed_pc p \<longleftrightarrow> p = T_unlock \<or> p = T_done"

fun joined :: "nat \<Rightarrow> main_pc \<Rightarrow> nat" where
  "joined n (M_join k) = k" | "joined n M_done = n" | "joined n _ = 0"

fun announced :: "main_pc \<Rightarrow> bool" where
  "announced (M_spawn _) = False" | "announced _ = True"

definition mutex_inv :: "race \<Rightarrow> bool" where
  "mutex_inv s \<longleftrightarrow> (\<forall>i. thread_holds (r_pcs s i) = (r_mtx s = Some (Thr i))) \<and>
     main_holds (r_main s) = (r_mtx s = Some Main)"

definition flag_inv :: "race \<Rightarrow> bool" where
  "flag_inv s \<longleftrightarrow> r_ready s = after_set (r_main s) \<and>
     (after_notify (r_main s) \<longrightarrow> (\<forall>i. r_pcs s i \<noteq> T_wait)) \<and>
     (\<not> after_set (r_main s) \<longrightarrow> (\<forall>i. \<not> printed_pc (r_pcs s i)))"

definition spawn_inv :: "nat \<Rightarrow> race \<Rightarrow> bool" where
  "spawn_inv n s \<longleftrightarrow> spawned n (r_main s) \<le> n \<and> joined n (r_main s) \<le> n \<and>
     (\<forall>i. r_pcs s i = T_none \<longleftrightarrow> spawned n (r_main s) \<le> i) \<and>
     (\<forall>i < joined n (r_main s). r_pcs s i = T_done)"

definition screen_inv :: "nat \<Rightarrow> race \<Rightarrow> bool" where
  "screen_inv n s \<longleftrightarrow> distinct (screen s) \<and> set (screen s) =
     (if announced (r_main s) then {Ready_line} else {}) \<union> Thread_line ` {i. printed_pc (r_pcs s i)}"

definition race_inv :: "nat \<Rightarrow> race \<Rightarrow> bool" where
  "race_inv n s \<longleftrightarrow> mutex_inv s \<and> flag_inv s \<and> spawn_inv n s \<and> screen_inv n s"

lemmas race_pc_defs = thread_holds_def printed_pc_def notify_all_def

lemma race_inv_init: "race_inv n race_init"
  by (auto simp: race_inv_def mutex_inv_def flag_inv_def spawn_inv_def screen_inv_def race_init_def race_pc_defs)

text \<open>Who holds the mutex, from where it is.\<close>

lemma mutex_owner:
  assumes "mutex_inv s"
  shows "r_pcs s i = T_test \<Longrightarrow> r_mtx s = Some (Thr i)" and "r_pcs s i = T_unlock \<Longrightarrow> r_mtx s = Some (Thr i)"
    and "main_holds (r_main s) \<Longrightarrow> r_mtx s = Some Main"
  using assms by (auto simp: mutex_inv_def thread_holds_def)

lemma mutex_inv_threads:
  assumes "mutex_inv s"
  shows "r_mtx s = None \<Longrightarrow> mutex_inv (s\<lparr>r_mtx := Some (Thr i), r_pcs := (r_pcs s)(i := T_test)\<rparr>)"
    and "r_mtx s = Some (Thr i) \<Longrightarrow> p \<noteq> T_test \<Longrightarrow> p \<noteq> T_unlock \<Longrightarrow>
      mutex_inv (s\<lparr>r_mtx := None, r_pcs := (r_pcs s)(i := p)\<rparr>)"
    and "thread_holds (r_pcs s i) = thread_holds p \<Longrightarrow> mutex_inv (s\<lparr>r_pcs := (r_pcs s)(i := p)\<rparr>)"
  using assms by (auto simp: mutex_inv_def thread_holds_def)

lemma mutex_inv_view:
  "r_mtx t = r_mtx s \<Longrightarrow> r_pcs t = r_pcs s \<Longrightarrow> main_holds (r_main t) = main_holds (r_main s) \<Longrightarrow>
    mutex_inv t = mutex_inv s"
  by (simp add: mutex_inv_def)

lemma mutex_inv_step:
  assumes "mutex_inv s" "spawn_inv n s" "race_step n s t"
  shows "mutex_inv t"
  using assms(3)
proof cases
  case (spawn i)
  then have "r_pcs s i = T_none" using assms(2) by (simp add: spawn_inv_def)
  then have "mutex_inv (s\<lparr>r_pcs := (r_pcs s)(i := T_start)\<rparr>)"
    by (intro mutex_inv_threads(3) assms(1)) (simp add: thread_holds_def)
  then show ?thesis using spawn by (simp add: mutex_inv_def)
next
  case go_notify
  have "thread_holds (notify_all f i) = thread_holds (f i)" for f i by (simp add: race_pc_defs)
  then show ?thesis using go_notify assms(1) by (simp add: mutex_inv_def)
next
  case (wait i)
  then show ?thesis using mutex_inv_threads(2) [OF assms(1)] mutex_owner(1) [OF assms(1)] by simp
next
  case (print i)
  then have "mutex_inv (s\<lparr>r_pcs := (r_pcs s)(i := T_unlock)\<rparr>)"
    by (intro mutex_inv_threads(3) assms(1)) (simp add: thread_holds_def)
  then show ?thesis using print by (simp add: mutex_inv_def)
next
  case (unlock i)
  then show ?thesis using mutex_inv_threads(2) [OF assms(1)] mutex_owner(2) [OF assms(1)] by simp
next
  case (spurious i)
  then show ?thesis by (intro mutex_inv_threads(3) assms(1) | simp add: thread_holds_def)+
qed (use assms(1) mutex_inv_threads(1) [OF assms(1)] in \<open>auto simp: mutex_inv_def\<close>)

lemma after_notify_set: "after_notify m \<Longrightarrow> after_set m"
  by (cases m) auto

lemma flag_inv_thread:
  assumes "flag_inv s" and "p = T_wait \<Longrightarrow> \<not> after_notify (r_main s)" and "printed_pc p \<Longrightarrow> after_set (r_main s)"
  shows "flag_inv (s\<lparr>r_mtx := m, r_pcs := (r_pcs s)(i := p)\<rparr>)" and "flag_inv (s\<lparr>r_pcs := (r_pcs s)(i := p)\<rparr>)"
    and "flag_inv (s\<lparr>screen := l, r_pcs := (r_pcs s)(i := p)\<rparr>)"
  using assms by (auto simp: flag_inv_def)

lemma flag_inv_step:
  assumes "flag_inv s" "race_step n s t"
  shows "flag_inv t"
  using assms(2)
proof cases
  case (wait i)
  then have "\<not> after_notify (r_main s)" using assms(1) after_notify_set by (auto simp: flag_inv_def)
  then show ?thesis using wait(1) by (auto intro: flag_inv_thread [OF assms(1)] simp: printed_pc_def)
next
  case (print i)
  then have "after_set (r_main s)" using assms(1) by (simp add: flag_inv_def)
  then show ?thesis using print(1) by (auto intro: flag_inv_thread [OF assms(1)])
next
  case (unlock i)
  then have "after_set (r_main s)" using assms(1) by (auto simp: flag_inv_def printed_pc_def)
  then show ?thesis using unlock(1) by (auto intro: flag_inv_thread [OF assms(1)])
qed (use assms(1) in \<open>auto simp: flag_inv_def race_pc_defs\<close>)

lemma spawn_inv_thread:
  assumes "spawn_inv n s" and "r_pcs s i \<noteq> T_none" "r_pcs s i \<noteq> T_done" "p \<noteq> T_none"
    and "r_pcs t = (r_pcs s)(i := p)" "r_main t = r_main s"
  shows "spawn_inv n t"
  using assms by (auto simp: spawn_inv_def)

lemma spawn_inv_main:
  assumes "spawn_inv n s" and "r_pcs t = r_pcs s" and "spawned n (r_main t) = spawned n (r_main s)"
    and "joined n (r_main t) = joined n (r_main s)"
  shows "spawn_inv n t"
  using assms by (simp add: spawn_inv_def)

lemma spawn_inv_step:
  assumes "spawn_inv n s" "race_step n s t"
  shows "spawn_inv n t"
  using assms(2)
proof cases
  case (spawn i)
  then have none: "r_pcs s j = T_none \<longleftrightarrow> i \<le> j" for j using assms(1) by (simp add: spawn_inv_def)
  then show ?thesis using spawn by (auto simp: spawn_inv_def none)
next
  case (announce i)
  then show ?thesis using assms(1) by (auto simp: spawn_inv_def)
next
  case go_notify
  have "notify_all f i = T_none \<longleftrightarrow> f i = T_none" for f i by (simp add: notify_all_def)
  then show ?thesis using go_notify assms(1) by (simp add: spawn_inv_def)
next
  case (join i)
  then show ?thesis using assms(1) by (auto simp: spawn_inv_def less_Suc_eq)
next
  case (leave i)
  then show ?thesis using assms(1) by (auto simp: spawn_inv_def)
next
  case (lock i)
  then show ?thesis by (intro spawn_inv_thread [OF assms(1), of i T_test]) simp_all
next
  case (wait i)
  then show ?thesis by (intro spawn_inv_thread [OF assms(1), of i T_wait]) simp_all
next
  case (print i)
  then show ?thesis by (intro spawn_inv_thread [OF assms(1), of i T_unlock]) simp_all
next
  case (unlock i)
  then show ?thesis by (intro spawn_inv_thread [OF assms(1), of i T_done]) simp_all
next
  case (spurious i)
  then show ?thesis by (intro spawn_inv_thread [OF assms(1), of i T_woken]) simp_all
next
  case (relock i)
  then show ?thesis by (intro spawn_inv_thread [OF assms(1), of i T_test]) simp_all
qed (use spawn_inv_main [OF assms(1)] in simp_all)

text \<open>The screen: a printing step adds a line that was not there.\<close>

lemma screen_inv_thread:
  assumes "screen_inv n s" and "printed_pc (r_pcs s i) = printed_pc p"
  shows "screen_inv n (s\<lparr>r_pcs := (r_pcs s)(i := p)\<rparr>)"
proof -
  have "printed_pc (((r_pcs s)(i := p)) j) = printed_pc (r_pcs s j)" for j using assms(2) by simp
  then show ?thesis using assms(1) by (simp add: screen_inv_def del: fun_upd_apply)
qed

lemma screen_inv_view:
  "screen t = screen s \<Longrightarrow> r_pcs t = r_pcs s \<Longrightarrow> announced (r_main t) = announced (r_main s) \<Longrightarrow>
    screen_inv n t = screen_inv n s"
  by (simp add: screen_inv_def)

lemma screen_inv_step:
  assumes "spawn_inv n s" "screen_inv n s" "race_step n s t"
  shows "screen_inv n t"
  using assms(3)
proof cases
  case (spawn i)
  then have "r_pcs s i = T_none" using assms(1) by (simp add: spawn_inv_def)
  then have "\<not> printed_pc (r_pcs s i)" by (simp add: printed_pc_def)
  then have "screen_inv n (s\<lparr>r_pcs := (r_pcs s)(i := T_start)\<rparr>)"
    by (intro screen_inv_thread assms(2)) (simp add: printed_pc_def)
  then show ?thesis using spawn by (simp add: screen_inv_def)
next
  case (announce i)
  then show ?thesis using assms(2) by (auto simp: screen_inv_def)
next
  case go_notify
  have "printed_pc (notify_all f i) = printed_pc (f i)" for f i by (simp add: race_pc_defs)
  then show ?thesis using go_notify assms(2) by (simp add: screen_inv_def)
next
  case (print i)
  then have "{j. printed_pc (((r_pcs s)(i := T_unlock)) j)} = insert i {j. printed_pc (r_pcs s j)}"
    "\<not> printed_pc (r_pcs s i)" by (auto simp: printed_pc_def)
  then show ?thesis using print assms(2) by (auto simp: screen_inv_def simp del: fun_upd_apply)
next
  case (lock i)
  then show ?thesis using screen_inv_thread [OF assms(2), of i T_test] by (simp add: screen_inv_def printed_pc_def)
next
  case (wait i)
  then show ?thesis using screen_inv_thread [OF assms(2), of i T_wait] by (simp add: screen_inv_def printed_pc_def)
next
  case (unlock i)
  then show ?thesis using screen_inv_thread [OF assms(2), of i T_done] by (simp add: screen_inv_def printed_pc_def)
next
  case (spurious i)
  then show ?thesis using screen_inv_thread [OF assms(2), of i T_woken] by (simp add: screen_inv_def printed_pc_def)
next
  case (relock i)
  then show ?thesis using screen_inv_thread [OF assms(2), of i T_test] by (simp add: screen_inv_def printed_pc_def)
qed (use assms(2) in \<open>simp_all add: screen_inv_def\<close>)

lemma race_inv_step: "race_inv n s \<Longrightarrow> race_step n s t \<Longrightarrow> race_inv n t"
  unfolding race_inv_def
  by (intro conjI; elim conjE) (blast intro: mutex_inv_step flag_inv_step spawn_inv_step screen_inv_step)+

section \<open>Progress\<close>

text \<open>
  How far \<open>main\<close> and a thread are from their ends. A notification gives a sleeping thread at most two
  more steps, so one step of \<open>main\<close> weighs more than that for all threads together.
\<close>

fun main_dist :: "nat \<Rightarrow> main_pc \<Rightarrow> nat" where
  "main_dist n (M_spawn i) = (n - i) + n + 7"
| "main_dist n M_lock = n + 6" | "main_dist n M_set = n + 5" | "main_dist n M_notify = n + 4"
| "main_dist n M_unlock = n + 3" | "main_dist n (M_join i) = (n - i) + 1" | "main_dist n M_done = 0"

fun thread_dist :: "print_pc \<Rightarrow> nat" where
  "thread_dist T_none = 5" | "thread_dist T_start = 4" | "thread_dist T_woken = 4" | "thread_dist T_test = 3"
| "thread_dist T_wait = 2" | "thread_dist T_unlock = 1" | "thread_dist T_done = 0"

definition race_dist :: "nat \<Rightarrow> race \<Rightarrow> nat" where
  "race_dist n s = main_dist n (r_main s) * (2 * n + 1) + sum_over thread_dist n (r_pcs s)"

lemma weighted_less: "(a :: nat) < b \<Longrightarrow> x \<le> y + 2 * n \<Longrightarrow> a * (2 * n + 1) + x < b * (2 * n + 1) + y"
proof -
  assume ab: "a < b" and xy: "x \<le> y + 2 * n"
  have "Suc a * (2 * n + 1) \<le> b * (2 * n + 1)" using ab by (intro mult_right_mono) simp_all
  then show ?thesis using xy by simp
qed

lemma race_dist_main:
  "main_dist n (r_main t) < main_dist n (r_main s) \<Longrightarrow>
   sum_over thread_dist n (r_pcs t) \<le> sum_over thread_dist n (r_pcs s) + 2 * n \<Longrightarrow> race_dist n t < race_dist n s"
  unfolding race_dist_def by (rule weighted_less)

lemma race_dist_thread:
  assumes "i < n" and "thread_dist p < thread_dist (r_pcs s i)" and "r_pcs t = (r_pcs s)(i := p)" "r_main t = r_main s"
  shows "race_dist n t < race_dist n s"
  using sum_over_upd [OF assms(1), of thread_dist "r_pcs s" p] assms(2-4) by (simp add: race_dist_def)

lemma notify_all_dist: "sum_over thread_dist n (notify_all f) \<le> sum_over thread_dist n f + 2 * n"
proof -
  have "sum_over thread_dist n (notify_all f) \<le> (\<Sum>t < n. thread_dist (f t) + 2)"
    unfolding sum_over_def by (rule sum_mono) (simp add: notify_all_def)
  also have "\<dots> = sum_over thread_dist n f + 2 * n"
    unfolding sum_over_def sum.distrib by simp
  finally show ?thesis .
qed

text \<open>The thread that holds the mutex can go on.\<close>

lemma owner_moves:
  assumes "race_inv n s" and "r_mtx s = Some (Thr i)"
  shows "\<exists>t. race_step n s t \<and> race_dist n t < race_dist n s"
proof -
  have "thread_holds (r_pcs s i)" using assms by (simp add: race_inv_def mutex_inv_def)
  then consider "r_pcs s i = T_test" | "r_pcs s i = T_unlock" by (auto simp: thread_holds_def)
  moreover have "r_pcs s i \<noteq> T_none" using \<open>thread_holds (r_pcs s i)\<close> by (auto simp: thread_holds_def)
  then have "spawned n (r_main s) \<le> n" "\<not> spawned n (r_main s) \<le> i"
    using assms(1) by (simp_all add: race_inv_def spawn_inv_def)
  then have i: "i < n" by simp
  ultimately show ?thesis
  proof cases
    case 1
    show ?thesis
    proof (cases "r_ready s")
      case True
      show ?thesis by (intro exI conjI, rule print [OF i 1 True], rule race_dist_thread [OF i]) (simp_all add: 1)
    next
      case False
      show ?thesis by (intro exI conjI, rule wait [OF i 1 False], rule race_dist_thread [OF i]) (simp_all add: 1)
    qed
  next
    case 2
    show ?thesis by (intro exI conjI, rule unlock [OF i 2], rule race_dist_thread [OF i]) (simp_all add: 2)
  qed
qed

text \<open>A thread that \<open>main\<close> is waiting for can go on, or the owner of the mutex can.\<close>

lemma joined_moves:
  assumes "race_inv n s" and "r_main s = M_join i" and "i < n"
  shows "\<exists>t. race_step n s t \<and> race_dist n t < race_dist n s"
proof (cases "r_pcs s i = T_done")
  case True
  show ?thesis
    by (intro exI conjI, rule join [OF assms(2,3) True], rule race_dist_main) (use assms in simp_all)
next
  case False
  have none: "r_pcs s i \<noteq> T_none" "r_pcs s i \<noteq> T_wait"
    using assms by (auto simp: race_inv_def spawn_inv_def flag_inv_def)
  show ?thesis
  proof (cases "r_mtx s")
    case None
    then have "r_pcs s i \<noteq> T_test" "r_pcs s i \<noteq> T_unlock"
      using assms(1) by (auto simp: race_inv_def dest: mutex_owner)
    then consider "r_pcs s i = T_start" | "r_pcs s i = T_woken" using False none by (cases "r_pcs s i") auto
    then show ?thesis
    proof cases
      case 1
      show ?thesis by (intro exI conjI, rule lock [OF assms(3) 1 None], rule race_dist_thread [OF assms(3)]) (simp_all add: 1)
    next
      case 2
      show ?thesis by (intro exI conjI, rule relock [OF assms(3) 2 None], rule race_dist_thread [OF assms(3)]) (simp_all add: 2)
    qed
  next
    case (Some w)
    moreover have "w \<noteq> Main" using Some assms by (auto simp: race_inv_def mutex_inv_def)
    ultimately show ?thesis using owner_moves [OF assms(1)] by (cases w) auto
  qed
qed

lemma race_progress:
  assumes "race_inv n s" and "r_main s \<noteq> M_done"
  shows "\<exists>t. race_step n s t \<and> race_dist n t < race_dist n s"
proof (cases "r_main s")
  case (M_spawn i)
  show ?thesis
  proof (cases "i < n")
    case True
    then have none: "r_pcs s i = T_none" using assms(1) M_spawn by (auto simp: race_inv_def spawn_inv_def)
    have "sum_over thread_dist n ((r_pcs s)(i := T_start)) \<le> sum_over thread_dist n (r_pcs s)"
      using sum_over_upd [OF True, of thread_dist "r_pcs s" T_start] none by simp
    then show ?thesis
      by (intro exI [of _ "s\<lparr>r_pcs := (r_pcs s)(i := T_start), r_main := M_spawn (Suc i)\<rparr>"] conjI
          race_step.spawn [OF M_spawn True] race_dist_main) (use M_spawn True in simp_all)
  next
    case False
    show ?thesis by (intro exI conjI, rule announce [OF M_spawn False], rule race_dist_main) (use M_spawn in simp_all)
  qed
next
  case M_lock
  show ?thesis
  proof (cases "r_mtx s")
    case None
    show ?thesis by (intro exI conjI, rule go_lock [OF M_lock None], rule race_dist_main) (use M_lock in simp_all)
  next
    case (Some w)
    moreover have "w \<noteq> Main" using Some M_lock assms(1) by (auto simp: race_inv_def mutex_inv_def)
    ultimately show ?thesis using owner_moves [OF assms(1)] by (cases w) auto
  qed
next
  case M_set
  show ?thesis by (intro exI conjI, rule go_set [OF M_set], rule race_dist_main) (use M_set in simp_all)
next
  case M_notify
  show ?thesis
    by (intro exI conjI, rule go_notify [OF M_notify], rule race_dist_main) (use M_notify notify_all_dist in simp_all)
next
  case M_unlock
  show ?thesis by (intro exI conjI, rule go_unlock [OF M_unlock], rule race_dist_main) (use M_unlock in simp_all)
next
  case (M_join i)
  show ?thesis
  proof (cases "i < n")
    case True
    then show ?thesis by (rule joined_moves [OF assms(1) M_join])
  next
    case False
    show ?thesis by (intro exI conjI, rule leave [OF M_join False], rule race_dist_main) (use M_join in simp_all)
  qed
qed (use assms(2) in simp)

interpretation race: completing race_init "race_step n" "race_inv n" "race_dist n" "\<lambda>s. r_main s = M_done" for n
  by unfold_locales (auto intro: race_inv_init race_inv_step race_progress)

text \<open>What the screen shows when \<open>main\<close> has returned.\<close>

lemma race_final:
  assumes "race_inv n s" and "r_main s = M_done"
  shows "distinct (screen s) \<and> set (screen s) = insert Ready_line (Thread_line ` {..<n})"
proof -
  have "r_pcs s i = (if i < n then T_done else T_none)" for i
    using assms by (auto simp: race_inv_def spawn_inv_def)
  then have "{i. printed_pc (r_pcs s i)} = {..<n}" by (auto simp: printed_pc_def split: if_splits)
  then show ?thesis using assms by (simp add: race_inv_def screen_inv_def)
qed

lemma race_free:
  assumes "race_inv n s" and "r_main s = M_done"
  shows "r_mtx s = None"
proof (rule ccontr)
  assume "r_mtx s \<noteq> None"
  then obtain w where w: "r_mtx s = Some w" by blast
  show False
  proof (cases w)
    case Main
    then show False using w assms by (auto simp: race_inv_def mutex_inv_def)
  next
    case (Thr i)
    then have "thread_holds (r_pcs s i)" using w assms by (simp add: race_inv_def mutex_inv_def)
    moreover have "r_pcs s i = T_done \<or> r_pcs s i = T_none"
      using assms by (cases "i < n") (auto simp: race_inv_def spawn_inv_def)
    ultimately show False by (auto simp: thread_holds_def)
  qed
qed

end
