(* ===== verification/Recursive_Count.thy ===== *)
theory Recursive_Count
  imports Progress
begin

text \<open>
  \<open>Reference/multi_threading/mutex.cpp\<close>: in each of the rounds 0 to 10, \<open>main\<close> starts three threads
  that increment \<open>global_val\<close> under a recursive mutex and waits for them. In round 10 the threads
  lock the mutex twice. A step is one library call or one access to \<open>global_val\<close> or to the output.
\<close>

section \<open>State and steps\<close>

datatype inc_pc =
    I_none | I_again | I_lock1 | I_lock2 | I_load | I_store int | I_print int | I_unlock2 | I_msg | I_unlock1 | I_done

datatype rounds_pc = R_start nat nat | R_join nat nat | R_exit

datatype out_line = Lock_again | Unlock_again | Value int

record counting =
  c_owner :: "nat option"
  c_depth :: nat
  global_val :: int
  c_pcs :: "nat \<Rightarrow> inc_pc"
  c_main :: rounds_pc
  c_out :: "out_line list"

definition counting_init :: counting where
  "counting_init = \<lparr>c_owner = None, c_depth = 0, global_val = 0, c_pcs = (\<lambda>_. I_none), c_main = R_start 0 0,
     c_out = []\<rparr>"

text \<open>\<open>mtx.lock()\<close> and \<open>mtx.unlock()\<close> of a recursive mutex, by thread \<open>t\<close>.\<close>

definition may_lock :: "nat \<Rightarrow> counting \<Rightarrow> bool" where
  "may_lock t s \<longleftrightarrow> c_owner s = None \<or> c_owner s = Some t"

definition rec_lock :: "nat \<Rightarrow> counting \<Rightarrow> counting" where
  "rec_lock t s = s\<lparr>c_owner := Some t, c_depth := Suc (c_depth s)\<rparr>"

definition rec_unlock :: "counting \<Rightarrow> counting" where
  "rec_unlock s = s\<lparr>c_owner := (if c_depth s = 1 then None else c_owner s), c_depth := c_depth s - 1\<rparr>"

text \<open>Where a thread of round \<open>i\<close> starts, and where it goes after its last \<open>unlock\<close> of the inner pair.\<close>

definition first_pc :: "nat \<Rightarrow> inc_pc" where
  "first_pc i = (if i = 10 then I_again else I_lock2)"

definition after_inner :: "nat \<Rightarrow> inc_pc" where
  "after_inner i = (if i = 10 then I_msg else I_done)"

fun round_of :: "rounds_pc \<Rightarrow> nat" where
  "round_of (R_start i _) = i" | "round_of (R_join i _) = i" | "round_of R_exit = 11"

inductive count_step :: "counting \<Rightarrow> counting \<Rightarrow> bool" where
  c_spawn: "c_main s = R_start i k \<Longrightarrow> i \<le> 10 \<Longrightarrow> k < 3 \<Longrightarrow>
    count_step s (s\<lparr>c_pcs := (c_pcs s)(k := first_pc i), c_main := (if k = 2 then R_join i 0 else R_start i (Suc k))\<rparr>)"
| c_join: "c_main s = R_join i k \<Longrightarrow> k < 3 \<Longrightarrow> c_pcs s k = I_done \<Longrightarrow>
    count_step s (s\<lparr>c_main := (if k = 2 then R_start (Suc i) 0 else R_join i (Suc k))\<rparr>)"
| c_exit: "c_main s = R_start i k \<Longrightarrow> \<not> i \<le> 10 \<Longrightarrow> count_step s (s\<lparr>c_main := R_exit\<rparr>)"
| c_again: "t < 3 \<Longrightarrow> c_pcs s t = I_again \<Longrightarrow>
    count_step s (s\<lparr>c_out := c_out s @ [Lock_again], c_pcs := (c_pcs s)(t := I_lock1)\<rparr>)"
| c_lock1: "t < 3 \<Longrightarrow> c_pcs s t = I_lock1 \<Longrightarrow> may_lock t s \<Longrightarrow>
    count_step s ((rec_lock t s)\<lparr>c_pcs := (c_pcs s)(t := I_lock2)\<rparr>)"
| c_lock2: "t < 3 \<Longrightarrow> c_pcs s t = I_lock2 \<Longrightarrow> may_lock t s \<Longrightarrow>
    count_step s ((rec_lock t s)\<lparr>c_pcs := (c_pcs s)(t := I_load)\<rparr>)"
| c_load: "t < 3 \<Longrightarrow> c_pcs s t = I_load \<Longrightarrow>
    count_step s (s\<lparr>c_pcs := (c_pcs s)(t := I_store (global_val s))\<rparr>)"
| c_store: "t < 3 \<Longrightarrow> c_pcs s t = I_store v \<Longrightarrow>
    count_step s (s\<lparr>global_val := v + 1, c_pcs := (c_pcs s)(t := I_print (v + 1))\<rparr>)"
| c_print: "t < 3 \<Longrightarrow> c_pcs s t = I_print v \<Longrightarrow>
    count_step s (s\<lparr>c_out := c_out s @ [Value v], c_pcs := (c_pcs s)(t := I_unlock2)\<rparr>)"
| c_unlock2: "t < 3 \<Longrightarrow> c_pcs s t = I_unlock2 \<Longrightarrow>
    count_step s ((rec_unlock s)\<lparr>c_pcs := (c_pcs s)(t := after_inner (round_of (c_main s)))\<rparr>)"
| c_msg: "t < 3 \<Longrightarrow> c_pcs s t = I_msg \<Longrightarrow>
    count_step s (s\<lparr>c_out := c_out s @ [Unlock_again], c_pcs := (c_pcs s)(t := I_unlock1)\<rparr>)"
| c_unlock1: "t < 3 \<Longrightarrow> c_pcs s t = I_unlock1 \<Longrightarrow>
    count_step s ((rec_unlock s)\<lparr>c_pcs := (c_pcs s)(t := I_done)\<rparr>)"

section \<open>The mutex\<close>

text \<open>How often a thread of round \<open>r\<close> holds the mutex.\<close>

fun holds_rec :: "nat \<Rightarrow> inc_pc \<Rightarrow> nat" where
  "holds_rec r I_lock2 = (if r = 10 then 1 else 0)"
| "holds_rec r I_load = (if r = 10 then 2 else 1)" | "holds_rec r (I_store _) = (if r = 10 then 2 else 1)"
| "holds_rec r (I_print _) = (if r = 10 then 2 else 1)" | "holds_rec r I_unlock2 = (if r = 10 then 2 else 1)"
| "holds_rec r I_msg = 1" | "holds_rec r I_unlock1 = 1" | "holds_rec r _ = 0"

definition owner_inv :: "nat \<Rightarrow> counting \<Rightarrow> bool" where
  "owner_inv r s \<longleftrightarrow> (\<forall>t < 3. c_owner s \<noteq> Some t \<longrightarrow> holds_rec r (c_pcs s t) = 0) \<and>
     (case c_owner s of None \<Rightarrow> c_depth s = 0
      | Some t \<Rightarrow> t < 3 \<and> 0 < c_depth s \<and> c_depth s = holds_rec r (c_pcs s t))"

definition idle :: "inc_pc \<Rightarrow> bool" where
  "idle p \<longleftrightarrow> p = I_none \<or> p = I_done"

fun started :: "rounds_pc \<Rightarrow> nat" where
  "started (R_start _ k) = k" | "started (R_join _ _) = 3" | "started R_exit = 0"

fun main_ok :: "counting \<Rightarrow> rounds_pc \<Rightarrow> bool" where
  "main_ok s (R_start i k) = (i \<le> 11 \<and> k \<le> 2 \<and> (i = 11 \<longrightarrow> k = 0))"
| "main_ok s (R_join i k) = (i \<le> 10 \<and> k \<le> 2 \<and> (\<forall>t < k. c_pcs s t = I_done))"
| "main_ok s R_exit = True"

definition rounds_inv :: "counting \<Rightarrow> bool" where
  "rounds_inv s \<longleftrightarrow> main_ok s (c_main s) \<and>
     (\<forall>t < 3. if t < started (c_main s) then c_pcs s t \<noteq> I_none else idle (c_pcs s t)) \<and>
     (\<forall>t < 3. c_pcs s t = I_again \<or> c_pcs s t = I_lock1 \<longrightarrow> round_of (c_main s) = 10)"

lemma less3: "(t :: nat) < 3 \<longleftrightarrow> t = 0 \<or> t = 1 \<or> t = 2"
  by auto

lemma all_less3: "(\<forall>t < (3 :: nat). P t) \<longleftrightarrow> P 0 \<and> P 1 \<and> P 2"
  by (auto simp: less3)

lemma owner_inv_keep:
  assumes "owner_inv r s" and "holds_rec r p = holds_rec r (c_pcs s t)"
    and "c_owner s' = c_owner s" "c_depth s' = c_depth s" "c_pcs s' = (c_pcs s)(t := p)"
  shows "owner_inv r s'"
proof -
  have "holds_rec r (c_pcs s' u) = holds_rec r (c_pcs s u)" for u using assms(2,5) by simp
  then show ?thesis using assms(1,3,4) by (simp add: owner_inv_def split: option.splits)
qed

lemma owner_inv_lock:
  assumes "owner_inv r s" and "may_lock t s" "t < 3" and "holds_rec r p = Suc (holds_rec r (c_pcs s t))"
  shows "owner_inv r ((rec_lock t s)\<lparr>c_pcs := (c_pcs s)(t := p)\<rparr>)"
proof -
  have "c_depth s = holds_rec r (c_pcs s t)" "u < 3 \<Longrightarrow> u \<noteq> t \<Longrightarrow> holds_rec r (c_pcs s u) = 0" for u
    using assms(1-3) by (auto simp: owner_inv_def may_lock_def)
  then show ?thesis using assms(3,4) by (simp add: owner_inv_def rec_lock_def)
qed

lemma owner_inv_unlock:
  assumes "owner_inv r s" and "t < 3" and "holds_rec r (c_pcs s t) = Suc (holds_rec r p)"
  shows "owner_inv r ((rec_unlock s)\<lparr>c_pcs := (c_pcs s)(t := p)\<rparr>)"
proof -
  have own: "c_owner s = Some t" using assms by (auto simp: owner_inv_def)
  then have "c_depth s = Suc (holds_rec r p)" "u < 3 \<Longrightarrow> u \<noteq> t \<Longrightarrow> holds_rec r (c_pcs s u) = 0" for u
    using assms(1,3) by (simp_all add: owner_inv_def)
  then show ?thesis using assms(2) own by (simp add: owner_inv_def rec_unlock_def)
qed

lemma owner_inv_other:
  assumes "owner_inv r s" "t < 3" "0 < holds_rec r (c_pcs s t)" "u < 3" "u \<noteq> t"
  shows "holds_rec r (c_pcs s u) = 0"
proof -
  have "c_owner s = Some t" using assms(1-3) by (auto simp: owner_inv_def)
  then show ?thesis using assms(1,4,5) by (simp add: owner_inv_def)
qed

lemma idle_holds: "idle p \<Longrightarrow> holds_rec r p = 0"
  by (auto simp: idle_def)

lemma owner_inv_idle:
  assumes "owner_inv r s" and "\<forall>t < 3. idle (c_pcs s t)"
  shows "owner_inv r' s"
proof -
  have z: "t < 3 \<Longrightarrow> holds_rec x (c_pcs s t) = 0" for t x using assms(2) by (simp add: idle_holds)
  then show ?thesis using assms(1) by (auto simp: owner_inv_def split: option.splits)
qed

lemma owner_inv_view:
  "c_owner t = c_owner s \<Longrightarrow> c_depth t = c_depth s \<Longrightarrow> c_pcs t = c_pcs s \<Longrightarrow> owner_inv r t = owner_inv r s"
  unfolding owner_inv_def by (simp split: option.split)

lemma first_pc_holds: "holds_rec i (first_pc i) = 0"
  by (simp add: first_pc_def)

lemma owner_inv_step:
  assumes "rounds_inv s" "owner_inv (round_of (c_main s)) s" "count_step s t"
  shows "owner_inv (round_of (c_main t)) t"
  using assms(3)
proof cases
  case (c_spawn i k)
  then have k: "idle (c_pcs s k)" using assms(1) by (auto simp: rounds_inv_def)
  have "owner_inv i t"
    by (rule owner_inv_keep [of i s "first_pc i" k])
       (use c_spawn assms(2) k in \<open>simp_all add: first_pc_holds idle_holds\<close>)
  moreover have "round_of (c_main t) = i" using c_spawn by simp
  ultimately show ?thesis by (simp only:)
next
  case (c_join i k)
  show ?thesis
  proof (cases "k = 2")
    case True
    then have "\<forall>u < 3. idle (c_pcs s u)"
      using c_join assms(1) by (auto simp: rounds_inv_def less3 idle_def)
    then have "owner_inv (Suc i) s" by (rule owner_inv_idle [OF assms(2)])
    then show ?thesis using c_join True owner_inv_view [of t s] by simp
  next
    case False
    then show ?thesis using c_join assms(2) owner_inv_view [of t s] by simp
  qed
next
  case (c_exit i k)
  then have "\<forall>u < 3. idle (c_pcs s u)" using assms(1) by (auto simp: rounds_inv_def)
  then have "owner_inv 11 s" by (rule owner_inv_idle [OF assms(2)])
  then show ?thesis using c_exit owner_inv_view [of t s] by simp
next
  case (c_lock1 u)
  then have "round_of (c_main s) = 10" using assms(1) by (simp add: rounds_inv_def)
  then show ?thesis using c_lock1 assms(2) owner_inv_lock [of 10 s u I_lock2] by (simp add: rec_lock_def)
next
  case (c_lock2 u)
  then show ?thesis using assms(2) owner_inv_lock [of "round_of (c_main s)" s u I_load] by (simp add: rec_lock_def)
next
  case (c_unlock2 u)
  then show ?thesis
    using assms(2) owner_inv_unlock [of "round_of (c_main s)" s u "after_inner (round_of (c_main s))"]
    by (simp add: rec_unlock_def after_inner_def)
next
  case (c_unlock1 u)
  then show ?thesis
    using assms(2) owner_inv_unlock [of "round_of (c_main s)" s u I_done] by (simp add: rec_unlock_def)
next
  case (c_again u)
  then show ?thesis using owner_inv_keep [OF assms(2), of I_lock1 u t] by simp
next
  case (c_load u)
  then show ?thesis using owner_inv_keep [OF assms(2), of "I_store (global_val s)" u t] by simp
next
  case (c_store u v)
  then show ?thesis using owner_inv_keep [OF assms(2), of "I_print (v + 1)" u t] by simp
next
  case (c_print u v)
  then show ?thesis using owner_inv_keep [OF assms(2), of I_unlock2 u t] by simp
next
  case (c_msg u)
  then show ?thesis using owner_inv_keep [OF assms(2), of I_unlock1 u t] by simp
qed

lemma rounds_inv_thread:
  assumes "rounds_inv s" "u < 3" "\<not> idle (c_pcs s u)" "p \<noteq> I_none"
    and "p = I_again \<or> p = I_lock1 \<Longrightarrow> round_of (c_main s) = 10"
    and "c_pcs t = (c_pcs s)(u := p)" "c_main t = c_main s"
  shows "rounds_inv t"
proof -
  have "u < started (c_main s)" using assms(1-3) by (auto simp: rounds_inv_def split: if_splits)
  moreover have "main_ok t (c_main s)"
    using assms(1,3,6) by (cases "c_main s") (auto simp: rounds_inv_def idle_def)
  ultimately show ?thesis using assms by (auto simp: rounds_inv_def)
qed

lemma rounds_inv_step:
  assumes "rounds_inv s" "count_step s t"
  shows "rounds_inv t"
  using assms(2)
proof cases
  case (c_spawn i k)
  then show ?thesis
    using assms(1) by (auto simp: rounds_inv_def all_less3 first_pc_def less3 split: if_splits)
next
  case (c_join i k)
  then show ?thesis
    using assms(1) by (auto simp: rounds_inv_def all_less3 less3 idle_def less_Suc_eq split: if_splits)
next
  case (c_exit i k)
  then show ?thesis using assms(1) by (auto simp: rounds_inv_def)
next
  case (c_again u)
  show ?thesis
    by (rule rounds_inv_thread [OF assms(1), of u I_lock1]) (use assms(1) c_again in \<open>auto simp: rounds_inv_def idle_def\<close>)
next
  case (c_unlock2 u)
  show ?thesis
    by (rule rounds_inv_thread [OF assms(1), of u "after_inner (round_of (c_main s))"])
       (use c_unlock2 in \<open>auto simp: idle_def after_inner_def rec_unlock_def split: if_splits\<close>)
qed (use assms(1) in \<open>auto intro: rounds_inv_thread simp: idle_def rec_lock_def rec_unlock_def\<close>)

section \<open>The counter and the output\<close>

fun stored :: "inc_pc \<Rightarrow> nat" where
  "stored (I_print _) = 1" | "stored I_unlock2 = 1" | "stored I_msg = 1" | "stored I_unlock1 = 1"
| "stored I_done = 1" | "stored _ = 0"

fun pending :: "inc_pc \<Rightarrow> int list" where
  "pending (I_print v) = [v]" | "pending _ = []"

fun values_of :: "out_line list \<Rightarrow> int list" where
  "values_of [] = []" | "values_of (Value v # ls) = v # values_of ls" | "values_of (_ # ls) = values_of ls"

lemma values_of_append [simp]: "values_of (xs @ ys) = values_of xs @ values_of ys"
  by (induction xs rule: values_of.induct) simp_all

definition pendings :: "(nat \<Rightarrow> inc_pc) \<Rightarrow> int list" where
  "pendings f = pending (f 0) @ pending (f 1) @ pending (f 2)"

definition value_inv :: "counting \<Rightarrow> bool" where
  "value_inv s \<longleftrightarrow>
     global_val s = int (3 * round_of (c_main s) + sum_over stored (started (c_main s)) (c_pcs s)) \<and>
     (\<forall>t < 3. \<forall>v. c_pcs s t = I_store v \<or> c_pcs s t = I_print v \<longrightarrow> v = global_val s) \<and>
     values_of (c_out s) @ pendings (c_pcs s) = [1..global_val s]"

lemma pendings_upd:
  "t < 3 \<Longrightarrow> (\<And>u. u < 3 \<Longrightarrow> u \<noteq> t \<Longrightarrow> pending (f u) = []) \<Longrightarrow> pendings (f(t := p)) = pending p"
  by (auto simp: pendings_def less3)

lemma pendings_keep: "pending p = pending (f t) \<Longrightarrow> pendings (f(t := p)) = pendings f"
  by (simp add: pendings_def)

lemma pendings_one:
  "t < 3 \<Longrightarrow> (\<And>u. u < 3 \<Longrightarrow> u \<noteq> t \<Longrightarrow> pending (f u) = []) \<Longrightarrow> pendings f = pending (f t)"
  using pendings_upd [of t f "f t"] by simp

lemma pending_holds: "holds_rec r p = 0 \<Longrightarrow> pending p = []"
  by (cases p) (auto split: if_splits)

text \<open>A step of a thread that neither stores nor prints.\<close>

lemma value_inv_keep:
  assumes "value_inv s" "rounds_inv s" "u < 3" "stored p = stored (c_pcs s u)" "pending p = pending (c_pcs s u)"
    and "\<not> idle (c_pcs s u)" "\<And>v. p = I_store v \<or> p = I_print v \<Longrightarrow> v = global_val s"
    and "c_pcs t = (c_pcs s)(u := p)" "c_main t = c_main s" "global_val t = global_val s"
    and "values_of (c_out t) = values_of (c_out s)"
  shows "value_inv t"
proof -
  have "u < started (c_main s)" using assms(2,3,6) by (auto simp: rounds_inv_def split: if_splits)
  then have "sum_over stored (started (c_main s)) (c_pcs t) = sum_over stored (started (c_main s)) (c_pcs s)"
    using sum_over_upd [of u "started (c_main s)" stored "c_pcs s" p] assms(4,8) by simp
  then show ?thesis
    using assms pendings_keep [of p "c_pcs s" u] by (auto simp: value_inv_def)
qed

lemma critical_alone:
  assumes "owner_inv r s" "t < 3" "0 < holds_rec r (c_pcs s t)" "u < 3" "u \<noteq> t"
  shows "c_pcs s u \<noteq> I_store v" "c_pcs s u \<noteq> I_print v" "pending (c_pcs s u) = []"
  using owner_inv_other [OF assms] pending_holds [of r "c_pcs s u"] by (auto split: if_splits)

lemma sum_over_less: "(\<And>i. i < n \<Longrightarrow> f i = g i) \<Longrightarrow> sum_over w n f = sum_over w n g"
  by (simp add: sum_over_def)

lemma value_inv_main:
  assumes "value_inv s" and "c_pcs t = c_pcs s" "global_val t = global_val s" "c_out t = c_out s"
    and "3 * round_of (c_main t) + sum_over stored (started (c_main t)) (c_pcs s) =
      3 * round_of (c_main s) + sum_over stored (started (c_main s)) (c_pcs s)"
  shows "value_inv t"
  using assms(1) unfolding value_inv_def assms(2-5) .

lemma value_inv_step:
  assumes "rounds_inv s" "owner_inv (round_of (c_main s)) s" "value_inv s" "count_step s t"
  shows "value_inv t"
  using assms(4)
proof cases
  case (c_spawn i k)
  have idle: "idle (c_pcs s k)" using c_spawn assms(1) by (auto simp: rounds_inv_def)
  have k: "started (c_main t) = Suc k" "round_of (c_main t) = i" using c_spawn by (auto simp: less3)
  have "stored (first_pc i) = 0" "pending (first_pc i) = []" by (simp_all add: first_pc_def)
  moreover have "pending (c_pcs s k) = []" using idle by (auto simp: idle_def)
  moreover have "sum_over stored (Suc k) ((c_pcs s)(k := p)) = sum_over stored k (c_pcs s) + stored p" for p
    by (simp add: sum_over_def)
  ultimately show ?thesis
    using assms(3) c_spawn k pendings_keep [of "first_pc i" "c_pcs s" k]
    by (auto simp: value_inv_def first_pc_def)
next
  case (c_join i k)
  have "sum_over stored 3 (c_pcs s) = 3" if "k = 2"
  proof -
    have "c_pcs s 0 = I_done" "c_pcs s 1 = I_done" "c_pcs s 2 = I_done"
      using c_join that assms(1) by (auto simp: rounds_inv_def)
    then show ?thesis by (simp add: sum_over_def numeral_3_eq_3 numeral_2_eq_2)
  qed
  moreover have "sum_over stored 0 f = 0" for f by (simp add: sum_over_def)
  ultimately show ?thesis using c_join by (intro value_inv_main [OF assms(3)]) auto
next
  case (c_exit i k)
  then have "i = 11" "k = 0" using assms(1) by (auto simp: rounds_inv_def)
  then show ?thesis using c_exit by (intro value_inv_main [OF assms(3)]) auto
next
  case (c_load u)
  then show ?thesis
    by (intro value_inv_keep [OF assms(3,1), of u "I_store (global_val s)"]) (auto simp: idle_def)
next
  case (c_store u v)
  let ?r = "round_of (c_main s)"
  have v: "v = global_val s" using c_store assms(3) by (auto simp: value_inv_def)
  have h: "0 < holds_rec ?r (c_pcs s u)" using c_store by simp
  note alone = critical_alone [OF assms(2) c_store(2) h]
  have "u < started (c_main s)" using c_store assms(1) by (auto simp: rounds_inv_def idle_def split: if_splits)
  then have "sum_over stored (started (c_main s)) (c_pcs t) = Suc (sum_over stored (started (c_main s)) (c_pcs s))"
    using sum_over_upd [of u "started (c_main s)" stored "c_pcs s" "I_print (v + 1)"] c_store by simp
  moreover have "pendings (c_pcs s) = []" "pendings (c_pcs t) = [v + 1]"
    using pendings_one [OF c_store(2) alone(3)] pendings_upd [OF c_store(2) alone(3)] c_store by simp_all
  moreover have "[1..global_val s + 1] = [1..global_val s] @ [global_val s + 1]"
    using assms(3) by (intro upto_rec2 [of 1 "global_val s + 1", simplified]) (simp add: value_inv_def)
  ultimately show ?thesis using assms(3) c_store alone(1,2) v by (auto simp: value_inv_def)
next
  case (c_print u v)
  let ?r = "round_of (c_main s)"
  have h: "0 < holds_rec ?r (c_pcs s u)" using c_print by simp
  note alone = critical_alone [OF assms(2) c_print(2) h]
  have "u < started (c_main s)" using c_print assms(1) by (auto simp: rounds_inv_def idle_def split: if_splits)
  then have "sum_over stored (started (c_main s)) (c_pcs t) = sum_over stored (started (c_main s)) (c_pcs s)"
    using sum_over_upd [of u "started (c_main s)" stored "c_pcs s" I_unlock2] c_print by simp
  moreover have "pendings (c_pcs s) = [v]" "pendings (c_pcs t) = []"
    using pendings_one [OF c_print(2) alone(3)] pendings_upd [OF c_print(2) alone(3)] c_print by simp_all
  ultimately show ?thesis using assms(3) c_print alone(1,2) by (auto simp: value_inv_def)
next
  case (c_unlock2 u)
  then show ?thesis
    by (intro value_inv_keep [OF assms(3,1), of u "after_inner (round_of (c_main s))"])
       (auto simp: idle_def after_inner_def rec_unlock_def split: if_splits)
next
  case (c_again u)
  then show ?thesis
    by (intro value_inv_keep [OF assms(3,1), of u I_lock1]) (auto simp: idle_def rec_lock_def rec_unlock_def)
next
  case (c_lock1 u)
  then show ?thesis
    by (intro value_inv_keep [OF assms(3,1), of u I_lock2]) (auto simp: idle_def rec_lock_def rec_unlock_def)
next
  case (c_lock2 u)
  then show ?thesis
    by (intro value_inv_keep [OF assms(3,1), of u I_load]) (auto simp: idle_def rec_lock_def rec_unlock_def)
next
  case (c_msg u)
  then show ?thesis
    by (intro value_inv_keep [OF assms(3,1), of u I_unlock1]) (auto simp: idle_def rec_lock_def rec_unlock_def)
next
  case (c_unlock1 u)
  then show ?thesis
    by (intro value_inv_keep [OF assms(3,1), of u I_done]) (auto simp: idle_def rec_lock_def rec_unlock_def)
qed

definition counting_inv :: "counting \<Rightarrow> bool" where
  "counting_inv s \<longleftrightarrow> rounds_inv s \<and> owner_inv (round_of (c_main s)) s \<and> value_inv s"

lemma counting_inv_init: "counting_inv counting_init"
  by (simp add: counting_inv_def counting_init_def rounds_inv_def owner_inv_def value_inv_def idle_def
      sum_over_def pendings_def)

lemma counting_inv_step: "counting_inv s \<Longrightarrow> count_step s t \<Longrightarrow> counting_inv t"
  unfolding counting_inv_def by (blast intro: rounds_inv_step owner_inv_step value_inv_step)

section \<open>Termination\<close>

fun inc_dist :: "inc_pc \<Rightarrow> nat" where
  "inc_dist I_again = 9" | "inc_dist I_lock1 = 8" | "inc_dist I_lock2 = 7" | "inc_dist I_load = 6"
| "inc_dist (I_store _) = 5" | "inc_dist (I_print _) = 4" | "inc_dist I_unlock2 = 3" | "inc_dist I_msg = 2"
| "inc_dist I_unlock1 = 1" | "inc_dist I_none = 0" | "inc_dist I_done = 0"

fun rounds_dist :: "rounds_pc \<Rightarrow> nat" where
  "rounds_dist (R_start i k) = 6 * (11 - i) - k + 1"
| "rounds_dist (R_join i k) = 6 * (11 - i) - 3 - k + 1" | "rounds_dist R_exit = 0"

definition count_dist :: "counting \<Rightarrow> nat" where
  "count_dist s = 10 * rounds_dist (c_main s) + sum_over inc_dist 3 (c_pcs s)"

lemma count_dist_thread:
  "u < 3 \<Longrightarrow> inc_dist p < inc_dist (c_pcs s u) \<Longrightarrow> c_pcs t = (c_pcs s)(u := p) \<Longrightarrow> c_main t = c_main s \<Longrightarrow>
    count_dist t < count_dist s"
  using sum_over_upd [of u 3 inc_dist "c_pcs s" p] by (simp add: count_dist_def)

lemma count_dist_step:
  assumes "rounds_inv s" "count_step s t"
  shows "count_dist t < count_dist s"
  using assms(2)
proof cases
  case (c_spawn i k)
  then have "idle (c_pcs s k)" using assms(1) by (auto simp: rounds_inv_def)
  then have "inc_dist (c_pcs s k) = 0" by (auto simp: idle_def)
  moreover have "inc_dist (first_pc i) \<le> 9" by (simp add: first_pc_def)
  moreover have "rounds_dist (c_main t) < rounds_dist (c_main s)" using c_spawn by (auto simp: less3)
  ultimately show ?thesis
    using sum_over_upd [of k 3 inc_dist "c_pcs s" "first_pc i"] c_spawn(1,4) by (simp add: count_dist_def)
next
  case (c_join i k)
  then have "i \<le> 10" using assms(1) by (auto simp: rounds_inv_def)
  then have "rounds_dist (c_main t) < rounds_dist (c_main s)" using c_join by (auto simp: less3)
  then show ?thesis using c_join(1) by (simp add: count_dist_def)
next
  case (c_exit i k)
  then show ?thesis by (simp add: count_dist_def)
next
  case (c_unlock2 u)
  then show ?thesis
    by (intro count_dist_thread [of u "after_inner (round_of (c_main s))"]) (auto simp: after_inner_def rec_unlock_def)
next
  case (c_lock1 u)
  then show ?thesis by (intro count_dist_thread [of u I_lock2]) (auto simp: rec_lock_def)
next
  case (c_lock2 u)
  then show ?thesis by (intro count_dist_thread [of u I_load]) (auto simp: rec_lock_def)
next
  case (c_unlock1 u)
  then show ?thesis by (intro count_dist_thread [of u I_done]) (auto simp: rec_unlock_def)
next
  case (c_again u)
  then show ?thesis by (intro count_dist_thread [of u I_lock1]) auto
next
  case (c_load u)
  then show ?thesis by (intro count_dist_thread [of u "I_store (global_val s)"]) auto
next
  case (c_store u v)
  then show ?thesis by (intro count_dist_thread [of u "I_print (v + 1)"]) auto
next
  case (c_print u v)
  then show ?thesis by (intro count_dist_thread [of u I_unlock2]) auto
next
  case (c_msg u)
  then show ?thesis by (intro count_dist_thread [of u I_unlock1]) auto
qed

text \<open>A thread that may lock, or does not want to, has a step.\<close>

lemma thread_moves:
  assumes "u < 3" "\<not> idle (c_pcs s u)" "c_pcs s u = I_lock1 \<or> c_pcs s u = I_lock2 \<Longrightarrow> may_lock u s"
  shows "\<exists>t. count_step s t"
proof (cases "c_pcs s u")
  case I_lock1
  then show ?thesis using assms count_step.c_lock1 by blast
next
  case I_lock2
  then show ?thesis using assms count_step.c_lock2 by blast
qed (use assms(1,2) in \<open>auto simp: idle_def intro: count_step.intros\<close>)

lemma count_progress:
  assumes "counting_inv s" "c_main s \<noteq> R_exit"
  shows "\<exists>t. count_step s t"
proof (cases "c_main s")
  case (R_start i k)
  then have "k < 3" using assms(1) by (auto simp: counting_inv_def rounds_inv_def)
  then show ?thesis using count_step.c_spawn [OF R_start] count_step.c_exit [OF R_start] by blast
next
  case (R_join i k)
  then have k: "k < 3" "c_pcs s k \<noteq> I_none" using assms(1) by (auto simp: counting_inv_def rounds_inv_def)
  show ?thesis
  proof (cases "c_pcs s k = I_done")
    case True
    then show ?thesis using count_step.c_join [OF R_join k(1)] by blast
  next
    case False
    show ?thesis
    proof (cases "c_owner s")
      case None
      then show ?thesis using k False by (intro thread_moves [of k]) (auto simp: idle_def may_lock_def)
    next
      case (Some u)
      then have "u < 3" "0 < holds_rec (round_of (c_main s)) (c_pcs s u)"
        using assms(1) by (auto simp: counting_inv_def owner_inv_def)
      then show ?thesis using Some idle_holds by (intro thread_moves [of u]) (auto simp: may_lock_def)
    qed
  qed
qed (use assms(2) in simp)

interpretation counting: terminating counting_init count_step counting_inv count_dist "\<lambda>s. c_main s = R_exit"
proof
  show "counting_inv s \<Longrightarrow> count_step s t \<Longrightarrow> count_dist t < count_dist s" for s t
    using count_dist_step by (auto simp: counting_inv_def)
  then show "\<exists>t. count_step s t \<and> count_dist t < count_dist s"
    if "counting_inv s" "c_main s \<noteq> R_exit" for s
    using that count_progress [of s] by blast
qed (auto intro: counting_inv_init counting_inv_step)

lemma count_dist_init: "count_dist counting_init = 670"
  by (simp add: count_dist_def counting_init_def sum_over_def)

lemma counting_final:
  assumes "counting_inv s" "c_main s = R_exit"
  shows "global_val s = 33 \<and> c_owner s = None \<and> values_of (c_out s) = [1..33]"
proof -
  have idle: "\<forall>t < 3. idle (c_pcs s t)" using assms by (simp add: counting_inv_def rounds_inv_def)
  then have "c_owner s = None"
    using assms idle_holds by (auto simp: counting_inv_def owner_inv_def split: option.splits)
  moreover have "pending (c_pcs s t) = []" if "t < 3" for t using idle that by (auto simp: idle_def)
  then have "pendings (c_pcs s) = []" by (simp add: pendings_def)
  moreover have "global_val s = 33" using assms by (simp add: counting_inv_def value_inv_def sum_over_def)
  ultimately show ?thesis using assms by (simp add: counting_inv_def value_inv_def)
qed

end
