(* ===== verification/Call_Once.thy ===== *)
theory Call_Once
  imports Progress
begin

text \<open>
  \<open>Reference/multi_threading/call_once.cpp\<close>: threads with the ids 1 to \<open>n\<close> (10 in \<open>main\<close>) sleep a
  thousand times and then run \<open>call_once(winner_flag, set_winner, id)\<close>. The flag is as the standard
  describes it: one call is active, a call that finds one active waits for it, a call after it
  returns.
\<close>

section \<open>State and steps\<close>

datatype once_flag = Fresh | Running nat | Finished

datatype once_pc = O_none | O_sleep nat | O_call | O_set | O_leave | O_done

datatype once_main = W_spawn nat | W_join nat | W_print | W_exit

record once_sys =
  winner_flag :: once_flag
  winner :: int
  o_pcs :: "nat \<Rightarrow> once_pc"
  o_main :: once_main
  o_out :: "int list"
  set_calls :: "int list"

text \<open>\<open>o_out\<close> holds the winners printed (the constant line before them is left out); \<open>set_calls\<close> is a ghost, the arguments of \<open>set_winner\<close> so far.\<close>

definition once_init :: once_sys where
  "once_init = \<lparr>winner_flag = Fresh, winner = 0, o_pcs = (\<lambda>_. O_none), o_main = W_spawn 0, o_out = [],
     set_calls = []\<rparr>"

definition set_winner :: "int \<Rightarrow> once_sys \<Rightarrow> once_sys" where
  "set_winner w s = s\<lparr>winner := w, set_calls := set_calls s @ [w]\<rparr>"

inductive once_step :: "nat \<Rightarrow> once_sys \<Rightarrow> once_sys \<Rightarrow> bool" for n where
  o_spawn: "o_main s = W_spawn i \<Longrightarrow> i < n \<Longrightarrow>
    once_step n s (s\<lparr>o_pcs := (o_pcs s)(i := O_sleep 0), o_main := W_spawn (Suc i)\<rparr>)"
| o_spawned: "o_main s = W_spawn i \<Longrightarrow> \<not> i < n \<Longrightarrow> once_step n s (s\<lparr>o_main := W_join 0\<rparr>)"
| o_join: "o_main s = W_join i \<Longrightarrow> i < n \<Longrightarrow> o_pcs s i = O_done \<Longrightarrow> once_step n s (s\<lparr>o_main := W_join (Suc i)\<rparr>)"
| o_joined: "o_main s = W_join i \<Longrightarrow> \<not> i < n \<Longrightarrow> once_step n s (s\<lparr>o_main := W_print\<rparr>)"
| o_print: "o_main s = W_print \<Longrightarrow> once_step n s (s\<lparr>o_out := o_out s @ [winner s], o_main := W_exit\<rparr>)"
| o_sleep: "i < n \<Longrightarrow> o_pcs s i = O_sleep k \<Longrightarrow> k < 1000 \<Longrightarrow>
    once_step n s (s\<lparr>o_pcs := (o_pcs s)(i := O_sleep (Suc k))\<rparr>)"
| o_awake: "i < n \<Longrightarrow> o_pcs s i = O_sleep k \<Longrightarrow> \<not> k < 1000 \<Longrightarrow>
    once_step n s (s\<lparr>o_pcs := (o_pcs s)(i := O_call)\<rparr>)"
| o_active: "i < n \<Longrightarrow> o_pcs s i = O_call \<Longrightarrow> winner_flag s = Fresh \<Longrightarrow>
    once_step n s (s\<lparr>winner_flag := Running i, o_pcs := (o_pcs s)(i := O_set)\<rparr>)"
| o_passive: "i < n \<Longrightarrow> o_pcs s i = O_call \<Longrightarrow> winner_flag s = Finished \<Longrightarrow>
    once_step n s (s\<lparr>o_pcs := (o_pcs s)(i := O_done)\<rparr>)"
| o_set: "i < n \<Longrightarrow> o_pcs s i = O_set \<Longrightarrow>
    once_step n s ((set_winner (int i + 1) s)\<lparr>o_pcs := (o_pcs s)(i := O_leave)\<rparr>)"
| o_leave: "i < n \<Longrightarrow> o_pcs s i = O_leave \<Longrightarrow>
    once_step n s (s\<lparr>winner_flag := Finished, o_pcs := (o_pcs s)(i := O_done)\<rparr>)"

section \<open>Invariant\<close>

fun o_spawn_count :: "nat \<Rightarrow> once_main \<Rightarrow> nat" where
  "o_spawn_count n (W_spawn k) = k" | "o_spawn_count n _ = n"

fun o_join_count :: "nat \<Rightarrow> once_main \<Rightarrow> nat" where
  "o_join_count n (W_spawn _) = 0" | "o_join_count n (W_join k) = k" | "o_join_count n _ = n"

definition main_inv :: "nat \<Rightarrow> once_sys \<Rightarrow> bool" where
  "main_inv n s \<longleftrightarrow> o_spawn_count n (o_main s) \<le> n \<and> o_join_count n (o_main s) \<le> n \<and>
     (\<forall>i < o_spawn_count n (o_main s). o_pcs s i \<noteq> O_none) \<and>
     (\<forall>i. o_spawn_count n (o_main s) \<le> i \<longrightarrow> o_pcs s i = O_none) \<and>
     (\<forall>i < o_join_count n (o_main s). o_pcs s i = O_done)"

text \<open>What a thread at \<open>p\<close> implies for the flag, and the flag for the winner.\<close>

definition flag_ok :: "once_flag \<Rightarrow> nat \<Rightarrow> once_pc \<Rightarrow> bool" where
  "flag_ok f i p \<longleftrightarrow> (p = O_set \<or> p = O_leave \<longrightarrow> f = Running i) \<and> (p = O_done \<longrightarrow> f = Finished) \<and>
     (f = Running i \<longrightarrow> p = O_set \<or> p = O_leave)"

fun winner_ok :: "nat \<Rightarrow> once_sys \<Rightarrow> once_flag \<Rightarrow> bool" where
  "winner_ok n s Fresh = (set_calls s = [])"
| "winner_ok n s (Running i) = (i < n \<and> (if o_pcs s i = O_set then set_calls s = []
     else winner s = int i + 1 \<and> set_calls s = [winner s]))"
| "winner_ok n s Finished = (1 \<le> winner s \<and> winner s \<le> int n \<and> set_calls s = [winner s])"

definition once_inv :: "nat \<Rightarrow> once_sys \<Rightarrow> bool" where
  "once_inv n s \<longleftrightarrow> main_inv n s \<and> (\<forall>i. flag_ok (winner_flag s) i (o_pcs s i)) \<and>
     winner_ok n s (winner_flag s) \<and> o_out s = (if o_main s = W_exit then [winner s] else [])"

lemma once_inv_init: "once_inv n once_init"
  by (simp add: once_inv_def once_init_def main_inv_def flag_ok_def)

lemma main_inv_thread:
  assumes "main_inv n s" "o_pcs s i \<noteq> O_none" "o_pcs s i \<noteq> O_done" "p \<noteq> O_none"
    and "o_pcs t = (o_pcs s)(i := p)" "o_main t = o_main s"
  shows "main_inv n t"
  using assms by (auto simp: main_inv_def)

lemma main_inv_step:
  assumes "main_inv n s" "once_step n s t"
  shows "main_inv n t"
  using assms(2)
proof cases
  case (o_spawn i)
  then show ?thesis using assms(1) by (auto simp: main_inv_def less_Suc_eq)
next
  case (o_join i)
  then show ?thesis using assms(1) by (auto simp: main_inv_def less_Suc_eq)
next
  case (o_sleep i k)
  then show ?thesis by (intro main_inv_thread [OF assms(1), of i "O_sleep (Suc k)"]) simp_all
next
  case (o_awake i k)
  then show ?thesis by (intro main_inv_thread [OF assms(1), of i O_call]) simp_all
next
  case (o_active i)
  then show ?thesis by (intro main_inv_thread [OF assms(1), of i O_set]) simp_all
next
  case (o_passive i)
  then show ?thesis by (intro main_inv_thread [OF assms(1), of i O_done]) simp_all
next
  case (o_set i)
  then show ?thesis by (intro main_inv_thread [OF assms(1), of i O_leave]) (simp_all add: set_winner_def)
next
  case (o_leave i)
  then show ?thesis by (intro main_inv_thread [OF assms(1), of i O_done]) simp_all
qed (use assms(1) in \<open>auto simp: main_inv_def\<close>)

text \<open>A step that leaves the flag and the winner alone.\<close>

lemma flags_keep:
  assumes "\<forall>i. flag_ok (winner_flag s) i (o_pcs s i)" "winner_ok n s (winner_flag s)"
    and "flag_ok (winner_flag s) i p" "p \<noteq> O_set" "o_pcs s i \<noteq> O_set" "o_pcs t = (o_pcs s)(i := p)"
    and "winner_flag t = winner_flag s" "winner t = winner s" "set_calls t = set_calls s"
  shows "(\<forall>i. flag_ok (winner_flag t) i (o_pcs t i)) \<and> winner_ok n t (winner_flag t)"
  using assms by (cases "winner_flag s") auto

lemma flags_step:
  assumes "main_inv n s" "\<forall>i. flag_ok (winner_flag s) i (o_pcs s i)" "winner_ok n s (winner_flag s)"
    and "once_step n s t"
  shows "(\<forall>i. flag_ok (winner_flag t) i (o_pcs t i)) \<and> winner_ok n t (winner_flag t)"
  using assms(4)
proof cases
  case (o_spawn i)
  then have "o_pcs s i = O_none" using assms(1) by (simp add: main_inv_def)
  moreover have "flag_ok (winner_flag s) i (o_pcs s i)" using assms(2) by simp
  ultimately show ?thesis
    using o_spawn by (intro flags_keep [OF assms(2,3), of i "O_sleep 0"]) (auto simp: flag_ok_def)
next
  case (o_sleep i k)
  moreover have "flag_ok (winner_flag s) i (o_pcs s i)" using assms(2) by simp
  ultimately show ?thesis
    by (intro flags_keep [OF assms(2,3), of i "O_sleep (Suc k)"]) (auto simp: flag_ok_def)
next
  case (o_awake i k)
  moreover have "flag_ok (winner_flag s) i (o_pcs s i)" using assms(2) by simp
  ultimately show ?thesis
    by (intro flags_keep [OF assms(2,3), of i O_call]) (auto simp: flag_ok_def)
next
  case (o_passive i)
  then show ?thesis
    by (intro flags_keep [OF assms(2,3), of i O_done]) (auto simp: flag_ok_def)
next
  case (o_active i)
  then show ?thesis using assms(2,3) by (auto simp: flag_ok_def)
next
  case (o_set i)
  then have run: "winner_flag s = Running i" using spec [OF assms(2), of i] by (simp add: flag_ok_def)
  have "flag_ok (winner_flag t) j (o_pcs t j)" for j
    using spec [OF assms(2), of j] run by (cases "j = i") (simp_all add: o_set flag_ok_def set_winner_def)
  then show ?thesis using assms(3) run by (simp add: o_set set_winner_def)
next
  case (o_leave i)
  then have run: "winner_flag s = Running i" using spec [OF assms(2), of i] by (simp add: flag_ok_def)
  have "flag_ok (winner_flag t) j (o_pcs t j)" for j
    using spec [OF assms(2), of j] run by (cases "j = i") (simp_all add: o_leave flag_ok_def)
  moreover have "int i + 1 \<le> int n" using o_leave(2) by simp
  ultimately show ?thesis using assms(3) run by (simp add: o_leave)
qed (use assms(2,3) in \<open>cases "winner_flag s"; simp\<close>)+

lemma once_inv_step:
  assumes "once_inv n s" "once_step n s t"
  shows "once_inv n t"
proof -
  have inv: "main_inv n s" "\<forall>i. flag_ok (winner_flag s) i (o_pcs s i)" "winner_ok n s (winner_flag s)"
    "o_out s = (if o_main s = W_exit then [winner s] else [])"
    using assms(1) by (auto simp: once_inv_def)
  have "o_out t = (if o_main t = W_exit then [winner t] else [])"
    using assms(2)
  proof cases
    case (o_set i)
    then have "o_main s \<noteq> W_exit" using inv(1) by (auto simp: main_inv_def)
    then show ?thesis using o_set inv(4) by (simp add: set_winner_def)
  qed (use inv(4) in simp_all)
  then show ?thesis
    using main_inv_step [OF inv(1) assms(2)] flags_step [OF inv(1-3) assms(2)] by (simp add: once_inv_def)
qed

section \<open>Termination\<close>

fun once_pc_dist :: "once_pc \<Rightarrow> nat" where
  "once_pc_dist O_none = 1005" | "once_pc_dist (O_sleep k) = (1000 - k) + 4" | "once_pc_dist O_call = 3"
| "once_pc_dist O_set = 2" | "once_pc_dist O_leave = 1" | "once_pc_dist O_done = 0"

fun once_main_dist :: "nat \<Rightarrow> once_main \<Rightarrow> nat" where
  "once_main_dist n (W_spawn k) = (n - k) + n + 3" | "once_main_dist n (W_join k) = (n - k) + 2"
| "once_main_dist n W_print = 1" | "once_main_dist n W_exit = 0"

definition once_dist :: "nat \<Rightarrow> once_sys \<Rightarrow> nat" where
  "once_dist n s = once_main_dist n (o_main s) + sum_over once_pc_dist n (o_pcs s)"

lemma once_dist_thread:
  "i < n \<Longrightarrow> once_pc_dist p < once_pc_dist (o_pcs s i) \<Longrightarrow> o_pcs t = (o_pcs s)(i := p) \<Longrightarrow>
    once_main_dist n (o_main t) \<le> once_main_dist n (o_main s) \<Longrightarrow> once_dist n t < once_dist n s"
  using sum_over_upd [of i n once_pc_dist "o_pcs s" p] by (simp add: once_dist_def)

lemma once_dist_step:
  assumes "main_inv n s" "once_step n s t"
  shows "once_dist n t < once_dist n s"
  using assms(2)
proof cases
  case (o_spawn i)
  then have "o_pcs s i = O_none" using assms(1) by (simp add: main_inv_def)
  then show ?thesis using o_spawn by (intro once_dist_thread [of i n "O_sleep 0"]) simp_all
next
  case (o_sleep i k)
  then show ?thesis by (intro once_dist_thread [of i n "O_sleep (Suc k)"]) simp_all
next
  case (o_awake i k)
  then show ?thesis by (intro once_dist_thread [of i n O_call]) simp_all
next
  case (o_active i)
  then show ?thesis by (intro once_dist_thread [of i n O_set]) simp_all
next
  case (o_passive i)
  then show ?thesis by (intro once_dist_thread [of i n O_done]) simp_all
next
  case (o_set i)
  then show ?thesis by (intro once_dist_thread [of i n O_leave]) (simp_all add: set_winner_def)
next
  case (o_leave i)
  then show ?thesis by (intro once_dist_thread [of i n O_done]) simp_all
qed (simp_all add: once_dist_def)

lemma once_progress:
  assumes "once_inv n s" "o_main s \<noteq> W_exit"
  shows "\<exists>t. once_step n s t"
proof (cases "o_main s")
  case (W_join k)
  show ?thesis
  proof (cases "k < n")
    case True
    then have none: "o_pcs s k \<noteq> O_none" using assms(1) W_join by (simp add: once_inv_def main_inv_def)
    show ?thesis
    proof (cases "o_pcs s k")
      case O_call
      show ?thesis
      proof (cases "winner_flag s")
        case (Running j)
        then have "j < n" "o_pcs s j = O_set \<or> o_pcs s j = O_leave"
          using assms(1) by (auto simp: once_inv_def flag_ok_def)
        then show ?thesis by (blast intro: once_step.o_set once_step.o_leave)
      qed (use True O_call in \<open>blast intro: once_step.o_active once_step.o_passive\<close>)+
    qed (use True none W_join in \<open>blast intro: once_step.intros\<close>)+
  qed (use W_join in \<open>blast intro: once_step.o_joined\<close>)
qed (use assms(2) in \<open>blast intro: once_step.intros\<close>)+

interpretation once: terminating once_init "once_step n" "once_inv n" "once_dist n" "\<lambda>s. o_main s = W_exit" for n
proof
  show "once_inv n s \<Longrightarrow> once_step n s t \<Longrightarrow> once_dist n t < once_dist n s" for s t
    using once_dist_step by (auto simp: once_inv_def)
  then show "\<exists>t. once_step n s t \<and> once_dist n t < once_dist n s"
    if "once_inv n s" "o_main s \<noteq> W_exit" for s
    using that once_progress [of n s] by blast
qed (auto intro: once_inv_init once_inv_step)

lemma once_final:
  assumes "once_inv n s" "o_main s = W_exit" "0 < n"
  shows "1 \<le> winner s \<and> winner s \<le> int n \<and> set_calls s = [winner s] \<and> o_out s = [winner s]"
proof -
  have "o_pcs s 0 = O_done" using assms by (simp add: once_inv_def main_inv_def)
  then have "winner_flag s = Finished" using assms(1) by (auto simp: once_inv_def flag_ok_def)
  then show ?thesis using assms by (simp add: once_inv_def)
qed

lemma once_dist_init: "once_dist n once_init = 1007 * n + 3"
  by (simp add: once_dist_def once_init_def sum_over_def)

end
