(* ===== verification/Scoped_Locks.thy ===== *)
theory Scoped_Locks
  imports Clib
begin

text \<open>
  \<open>Reference/multi_threading/unique_lock.cpp\<close> and \<open>lock_guard.cpp\<close>: the same counter protected by
  the two scoped locks of the library. One thread runs; locking a mutex it holds, unlocking one it
  does not hold and an overflow of \<open>count\<close> have no result (\<open>None\<close>).
\<close>

record lock_state =
  held :: bool
  counter :: int
  shown :: "int list"

definition mutex_lock :: "lock_state \<Rightarrow> lock_state option" where
  "mutex_lock s = (if held s then None else Some (s\<lparr>held := True\<rparr>))"

definition mutex_unlock :: "lock_state \<Rightarrow> lock_state option" where
  "mutex_unlock s = (if held s then Some (s\<lparr>held := False\<rparr>) else None)"

definition count_up :: "lock_state \<Rightarrow> lock_state option" where
  "count_up s = (if counter s < INT_MAX then Some (s\<lparr>counter := counter s + 1\<rparr>) else None)"

definition show_count :: "lock_state \<Rightarrow> lock_state" where
  "show_count s = s\<lparr>shown := shown s @ [counter s]\<rparr>"

section \<open>unique_lock.cpp\<close>

text \<open>A \<open>unique_lock\<close>: whether it has a mutex, and whether it holds it.\<close>

record unique_lock =
  ul_mutex :: bool
  ul_owns :: bool

definition ul_release :: "unique_lock \<Rightarrow> bool \<times> unique_lock" where
  "ul_release l = (ul_mutex l, \<lparr>ul_mutex = False, ul_owns = False\<rparr>)"

definition ul_destroy :: "unique_lock \<Rightarrow> lock_state \<Rightarrow> lock_state option" where
  "ul_destroy l s = (if ul_owns l then mutex_unlock s else Some s)"

text \<open>The argument is the pointer: \<open>False\<close> is null.\<close>

definition print_cout_and_unlock :: "bool \<Rightarrow> lock_state \<Rightarrow> lock_state option" where
  "print_cout_and_unlock p s = (if p then mutex_unlock (show_count s) else None)"

definition ul_fn :: "lock_state \<Rightarrow> lock_state option" where
  "ul_fn s = Option.bind (mutex_lock s) (\<lambda>s1.
     let lck = \<lparr>ul_mutex = True, ul_owns = True\<rparr> in
     Option.bind (count_up s1) (\<lambda>s2. case ul_release lck of (p, lck') \<Rightarrow>
       Option.bind (print_cout_and_unlock p s2) (ul_destroy lck')))"

definition ul_main :: "lock_state \<Rightarrow> lock_state option" where
  "ul_main s = Option.bind (ul_fn s) (\<lambda>s1. Option.bind (ul_fn s1) ul_fn)"

section \<open>lock_guard.cpp\<close>

definition lg_fn :: "lock_state \<Rightarrow> lock_state option" where
  "lg_fn s = Option.bind (mutex_lock s) (\<lambda>s1. Option.bind (count_up s1) (\<lambda>s2. mutex_unlock (show_count s2)))"

definition lg_main :: "lock_state \<Rightarrow> lock_state option" where
  "lg_main s = Option.bind (lg_fn s) (\<lambda>s1. Option.bind (lg_fn s1) lg_fn)"

section \<open>They are the same\<close>

lemma destroy_released: "ul_destroy (snd (ul_release l)) = Some"
  by (rule ext) (simp add: ul_destroy_def ul_release_def)

lemma fns_agree: "ul_fn s = lg_fn s"
  using destroy_released by (simp add: ul_fn_def lg_fn_def ul_release_def print_cout_and_unlock_def)

lemma mains_agree: "ul_main s = lg_main s"
  by (simp add: ul_main_def lg_main_def fns_agree [abs_def])

lemma lg_fn_counts:
  "\<not> held s \<Longrightarrow> counter s < INT_MAX \<Longrightarrow>
    lg_fn s = Some (s\<lparr>counter := counter s + 1, shown := shown s @ [counter s + 1]\<rparr>)"
  by (simp add: lg_fn_def mutex_lock_def count_up_def show_count_def mutex_unlock_def)

lemma lg_main_counts:
  "\<not> held s \<Longrightarrow> counter s + 2 < INT_MAX \<Longrightarrow> lg_main s = Some (s\<lparr>counter := counter s + 3,
    shown := shown s @ [counter s + 1, counter s + 2, counter s + 3]\<rparr>)"
  by (simp add: lg_main_def lg_fn_counts)

end
