(* ===== verification/Ascii_Convert.thy ===== *)
theory Ascii_Convert
  imports Clib
begin

unbundle bit_operations_syntax

text \<open>
  \<open>CXXPRIMER/ascii_convert.cpp\<close>: a string as the binary digits of its bytes, and back. A byte is an
  \<open>8 word\<close> where the code works on its bits; lengths and indices are C++ \<open>int\<close>s, with the overflow
  written out. Reading a string at its length gives the terminator; beyond that it is undefined.
\<close>

section \<open>Encoding\<close>

type_synonym byte = "8 word"

definition to_byte :: "char \<Rightarrow> byte" where
  "to_byte c = word_of_nat (of_char c)"

definition to_char :: "byte \<Rightarrow> char" where
  "to_char b = char_of (unat b)"

text \<open>\<open>while (mask) { result.append(1, (c & mask) ? '1' : '0'); mask >>= 1; }\<close>\<close>

function mask_loop :: "byte \<Rightarrow> byte \<Rightarrow> string \<Rightarrow> string" where
  "mask_loop c m result =
     (if m = 0 then result
      else mask_loop c (drop_bit 1 m) (result @ [if c AND m \<noteq> 0 then CHR ''1'' else CHR ''0'']))"
  by pat_completeness auto
termination
proof (relation "measure (\<lambda>(c, m, result). unat m)")
  fix m :: byte
  assume "m \<noteq> 0"
  then have "0 < unat m" by (simp add: unat_gt_0)
  moreover have "unat (drop_bit 1 m) = unat m div 2"
    using unat_div_distrib [of m 2] by (simp add: drop_bit_eq_div)
  ultimately show "((c, drop_bit 1 m, r'), (c, m, r)) \<in> measure (\<lambda>(c, m, result). unat m)" for c r r'
    by simp
qed simp

declare mask_loop.simps [simp del]

fun encode_loop :: "string \<Rightarrow> string \<Rightarrow> string" where
  "encode_loop [] result = result"
| "encode_loop (c # cs) result = encode_loop cs (mask_loop (to_byte c) 0x80 result)"

definition string_to_binary :: "string \<Rightarrow> string" where
  "string_to_binary str = encode_loop str []"

section \<open>Decoding\<close>

text \<open>\<open>str[k]\<close> of a \<open>std::string\<close>.\<close>

definition str_at :: "string \<Rightarrow> nat \<Rightarrow> fault + char" where
  "str_at str k = (if k < length str then Inr (str ! k) else if k = length str then Inr NUL else Inl Over_Read)"

text \<open>The inner loop over \<open>j\<close>, with \<open>c |= 1 << (7 - j)\<close>.\<close>

function bit_loop :: "string \<Rightarrow> nat \<Rightarrow> nat \<Rightarrow> byte \<Rightarrow> fault + byte" where
  "bit_loop str i j c =
     (if j < 8 then
        (case str_at str (i + j) of
           Inl e \<Rightarrow> Inl e
         | Inr d \<Rightarrow> bit_loop str i (Suc j) (if d = CHR ''1'' then c OR push_bit (7 - j) 1 else c))
      else Inr c)"
  by pat_completeness auto
termination by (relation "measure (\<lambda>(str, i, j, c). 8 - j)") auto

declare bit_loop.simps [simp del]

text \<open>The outer loop; \<open>i += 8\<close> overflows past \<open>INT_MAX\<close>.\<close>

function decode_loop :: "string \<Rightarrow> nat \<Rightarrow> string \<Rightarrow> fault + string" where
  "decode_loop str i result =
     (if i < length str then
        (case bit_loop str i 0 0 of
           Inl e \<Rightarrow> Inl e
         | Inr c \<Rightarrow>
             if INT_MAX < int i + 8 then Inl Int_Overflow
             else decode_loop str (i + 8) (result @ [to_char c]))
      else Inr result)"
  by pat_completeness auto
termination by (relation "measure (\<lambda>(str, i, result). length str - i)") auto

declare decode_loop.simps [simp del]

text \<open>\<open>int str_len = str.length()\<close>: the lengths that an \<open>int\<close> cannot hold are left out.\<close>

definition binary_to_string :: "string \<Rightarrow> fault + string" where
  "binary_to_string str = (if INT_MAX < int (length str) then Inl Int_Overflow else decode_loop str 0 [])"

section \<open>main\<close>

definition help_text :: string where
  "help_text = ''Usage: ascii_convert [type] [string]'' @ [LF] @ ''type:'' @ [CHR 0x09, LF, CHR 0x09] @
     ''-e '' @ [CHR 0x09] @ '' Encoding string to ascii code.'' @ [LF, CHR 0x09] @ ''-d '' @ [CHR 0x09] @
     '' Decoding ascii code to string.'' @ [LF]"

text \<open>The output and the exit status, for \<open>argv\<close> without the program's name.\<close>

definition main_convert :: "string list \<Rightarrow> fault + (string \<times> int)" where
  "main_convert args =
     (case args of
        opt # arg # _ \<Rightarrow>
          if 2 \<le> length opt \<and> opt ! 0 = CHR ''-'' then
            (if opt ! 1 = CHR ''e'' then Inr (string_to_binary arg @ [LF], 0)
             else if opt ! 1 = CHR ''d'' then
               (case binary_to_string arg of Inl e \<Rightarrow> Inl e | Inr r \<Rightarrow> Inr (r @ [LF], 0))
             else Inr ([LF], 0))
          else Inr (help_text, 1)
      | _ \<Rightarrow> Inr (help_text, 1))"

section \<open>Bits of a byte\<close>

text \<open>The digits of a byte, most significant first: what the mask loop appends.\<close>

definition byte_digits :: "byte \<Rightarrow> string" where
  "byte_digits b = map (\<lambda>k. if bit b k then CHR ''1'' else CHR ''0'') [7, 6, 5, 4, 3, 2, 1, 0]"

lemma and_single: "b AND push_bit k 1 \<noteq> 0 \<longleftrightarrow> bit b k" if "k < 8" for b :: byte
proof
  assume "b AND push_bit k 1 \<noteq> 0"
  then obtain n where "bit (b AND push_bit k 1) n" using bit_eq_iff [of "b AND push_bit k 1" 0] by auto
  then show "bit b k" by (auto simp: bit_simps)
next
  assume "bit b k"
  then have "bit (b AND push_bit k 1) k" using that by (simp add: bit_simps)
  then show "b AND push_bit k 1 \<noteq> 0" by (metis bit_0_eq bot_apply bot_bool_def)
qed

lemma mask_loop_step:
  assumes "k < 8"
  shows "mask_loop b (push_bit k 1) r =
     mask_loop b (drop_bit 1 (push_bit k 1)) (r @ [if bit b k then CHR ''1'' else CHR ''0''])"
proof -
  have "bit (push_bit k 1 :: byte) k" using assms by (simp add: bit_simps)
  then have "push_bit k 1 \<noteq> (0 :: byte)" by (metis bit_0_eq bot_apply bot_bool_def)
  then show ?thesis
    using and_single [OF assms, of b] by (subst mask_loop.simps) (auto)
qed

lemma mask_loop_digits: "mask_loop b 0x80 r = r @ byte_digits b"
  using mask_loop_step [of 7 b r] mask_loop_step [of 6 b] mask_loop_step [of 5 b] mask_loop_step [of 4 b]
    mask_loop_step [of 3 b] mask_loop_step [of 2 b] mask_loop_step [of 1 b] mask_loop_step [of 0 b]
    mask_loop.simps [of b 0]
  by (simp add: byte_digits_def)

lemma byte_digits_nth: "k < 8 \<Longrightarrow> byte_digits b ! (7 - k) = (if bit b k then CHR ''1'' else CHR ''0'')"
proof -
  assume "k < 8"
  then consider "k = 0" | "k = 1" | "k = 2" | "k = 3" | "k = 4" | "k = 5" | "k = 6" | "k = 7" by linarith
  then show ?thesis by cases (simp_all add: byte_digits_def)
qed

lemma length_byte_digits [simp]: "length (byte_digits b) = 8"
  by (simp add: byte_digits_def)

lemma to_char_byte [simp]: "to_char (to_byte c) = c"
  by (simp add: to_char_def to_byte_def unat_of_nat take_bit_eq_mod)

lemma to_byte_char [simp]: "to_byte (to_char b) = b"
proof -
  have "unat b < 256" using unsigned_less [of b] by simp
  then show ?thesis by (simp add: to_char_def to_byte_def)
qed

lemma encode_loop_digits: "encode_loop cs r = r @ concat (map (\<lambda>c. byte_digits (to_byte c)) cs)"
  by (induction cs arbitrary: r) (simp_all add: mask_loop_digits)

lemma string_to_binary_digits: "string_to_binary cs = concat (map (\<lambda>c. byte_digits (to_byte c)) cs)"
  by (simp add: string_to_binary_def encode_loop_digits)

lemma length_string_to_binary: "length (string_to_binary cs) = 8 * length cs"
  by (induction cs) (simp_all add: string_to_binary_digits)

section \<open>One byte decoded\<close>

lemma bit_loop_fits:
  assumes "i + 7 \<le> length str" and "j \<le> 8"
  shows "\<exists>w. bit_loop str i j c = Inr w \<and>
    (\<forall>k < 8. bit w k = (bit c k \<or> k < 8 - j \<and> (str @ [NUL]) ! (i + (7 - k)) = CHR ''1''))"
  using assms(2)
proof (induction "8 - j" arbitrary: j c)
  case 0
  then show ?case by (simp add: bit_loop.simps)
next
  case (Suc n)
  then have j: "j < 8" "n = 8 - Suc j" "Suc j \<le> 8" by simp_all
  let ?d = "(str @ [NUL]) ! (i + j)"
  have at: "str_at str (i + j) = Inr ?d"
    using j assms(1) by (auto simp: str_at_def nth_append)
  let ?c = "if ?d = CHR ''1'' then c OR push_bit (7 - j) 1 else c"
  obtain w where w: "bit_loop str i (Suc j) ?c = Inr w"
    "\<forall>k < 8. bit w k = (bit ?c k \<or> k < 8 - Suc j \<and> (str @ [NUL]) ! (i + (7 - k)) = CHR ''1'')"
    using Suc(1) [OF j(2,3)] by blast
  have "bit w k = (bit c k \<or> k < 8 - j \<and> (str @ [NUL]) ! (i + (7 - k)) = CHR ''1'')" if k: "k < 8" for k
  proof (cases "k = 7 - j")
    case True
    then have "7 - k = j" using j by simp
    then show ?thesis using w(2) k True j by (auto simp: bit_simps)
  next
    case False
    then show ?thesis using w(2) k j by (auto simp: bit_simps)
  qed
  then show ?case using w(1) at j by (subst bit_loop.simps) auto
qed

lemma bit_loop_short:
  "i \<le> length str \<Longrightarrow> length str < i + 7 \<Longrightarrow> j \<le> 7 \<Longrightarrow> bit_loop str i j c = Inl Over_Read"
proof (induction "7 - j" arbitrary: j c)
  case 0
  then show ?case by (subst bit_loop.simps) (simp add: str_at_def)
next
  case (Suc n)
  then show ?case by (subst bit_loop.simps) (auto simp: str_at_def)
qed

lemma bit_loop_byte:
  assumes "i + 7 \<le> length str"
  shows "\<exists>w. bit_loop str i 0 0 = Inr w \<and> (\<forall>k < 8. bit w k = ((str @ [NUL]) ! (i + (7 - k)) = CHR ''1''))"
  using bit_loop_fits [OF assms, of 0 0] by simp

lemma bit_loop_digits:
  assumes "drop i str = byte_digits b @ rest"
  shows "bit_loop str i 0 0 = Inr b"
proof -
  have "length (drop i str) = 8 + length rest" by (simp only: assms length_append length_byte_digits)
  then have len: "i + 8 \<le> length str" by simp
  have nth: "str ! (i + (7 - k)) = (if bit b k then CHR ''1'' else CHR ''0'')" if "k < 8" for k
  proof -
    have "7 - k < 8" by simp
    then have "drop i str ! (7 - k) = byte_digits b ! (7 - k)" by (simp only: assms nth_append length_byte_digits if_True)
    then show ?thesis using that len by (simp add: byte_digits_nth)
  qed
  obtain w where w: "bit_loop str i 0 0 = Inr w"
    "\<forall>k < 8. bit w k = ((str @ [NUL]) ! (i + (7 - k)) = CHR ''1'')"
    using bit_loop_byte [of i str] len by auto
  have "w = b"
  proof (rule bit_word_eqI)
    fix k
    assume "k < LENGTH(8)"
    then have k: "k < 8" "i + (7 - k) < length str" using len by simp_all
    then have "bit w k = (str ! (i + (7 - k)) = CHR ''1'')" using w(2) by (simp only: nth_append if_True)
    then show "bit w k = bit b k" using nth [OF k(1)] by simp
  qed
  then show ?thesis using w(1) by simp
qed

text \<open>Eight binary digits are the digits of the byte that is read from them.\<close>

definition binary :: "string \<Rightarrow> bool" where
  "binary ds \<longleftrightarrow> list_all (\<lambda>d. d = CHR ''0'' \<or> d = CHR ''1'') ds"

lemma bit_loop_binary:
  assumes "i + 8 \<le> length str" and "binary (drop i str)"
  shows "\<exists>w. bit_loop str i 0 0 = Inr w \<and> byte_digits w = take 8 (drop i str)"
proof -
  obtain w where w: "bit_loop str i 0 0 = Inr w"
    "\<forall>k < 8. bit w k = ((str @ [NUL]) ! (i + (7 - k)) = CHR ''1'')"
    using bit_loop_byte [of i str] assms(1) by auto
  have "byte_digits w ! m = take 8 (drop i str) ! m" if "m < 8" for m
  proof -
    have "drop i str ! m = CHR ''0'' \<or> drop i str ! m = CHR ''1''"
      using assms that by (auto simp: binary_def list_all_length)
    then have "str ! (i + m) = CHR ''0'' \<or> str ! (i + m) = CHR ''1''" using assms(1) by simp
    then show ?thesis
      using byte_digits_nth [of "7 - m" w] w(2) that assms(1) by (auto simp: nth_append)
  qed
  then have "byte_digits w = take 8 (drop i str)"
    using assms(1) by (intro nth_equalityI) simp_all
  with w(1) show ?thesis by blast
qed

section \<open>The whole string\<close>

lemma decode_digits:
  assumes "int (length str) + 7 \<le> INT_MAX"
  shows "drop i str = concat (map (\<lambda>c. byte_digits (to_byte c)) cs) \<Longrightarrow> i \<le> length str \<Longrightarrow>
    decode_loop str i r = Inr (r @ cs)"
proof (induction cs arbitrary: i r)
  case Nil
  then show ?case by (subst decode_loop.simps) simp
next
  case (Cons c cs)
  then have d: "drop i str = byte_digits (to_byte c) @ concat (map (\<lambda>c. byte_digits (to_byte c)) cs)" by simp
  have "length (drop i str) = 8 + length (concat (map (\<lambda>c. byte_digits (to_byte c)) cs))"
    by (simp only: d length_append length_byte_digits)
  then have len: "i + 8 \<le> length str" by simp
  have "drop (i + 8) str = drop 8 (drop i str)" by (simp add: add.commute)
  also have "\<dots> = concat (map (\<lambda>c. byte_digits (to_byte c)) cs)" by (simp add: d)
  finally have "decode_loop str (i + 8) (r @ [c]) = Inr ((r @ [c]) @ cs)" using len by (intro Cons.IH) simp_all
  then show ?case using len assms bit_loop_digits [OF d] by (subst decode_loop.simps) simp
qed

lemma decode_binary:
  assumes "int (length str) + 7 \<le> INT_MAX" and "binary str"
  shows "8 dvd length str - i \<Longrightarrow> i \<le> length str \<Longrightarrow>
    \<exists>cs. decode_loop str i r = Inr (r @ cs) \<and> string_to_binary cs = drop i str"
proof (induction "length str - i" arbitrary: i r rule: less_induct)
  case less
  show ?case
  proof (cases "i < length str")
    case True
    then have len: "i + 8 \<le> length str" using less.prems(1) by (auto dest: dvd_imp_le)
    have "binary (drop i str)" using assms(2) by (auto simp: binary_def list_all_iff dest: in_set_dropD)
    then obtain w where w: "bit_loop str i 0 0 = Inr w" "byte_digits w = take 8 (drop i str)"
      using bit_loop_binary len by blast
    have "8 dvd length str - i - 8" using less.prems(1) by (rule dvd_diff_nat) simp
    then have "8 dvd length str - (i + 8)" by simp
    moreover have "length str - (i + 8) < length str - i" using True by arith
    ultimately obtain cs where cs: "decode_loop str (i + 8) (r @ [to_char w]) = Inr (r @ to_char w # cs)"
      "string_to_binary cs = drop (i + 8) str"
      using less.hyps [of "i + 8" "r @ [to_char w]"] len by auto
    have "string_to_binary (to_char w # cs) = byte_digits w @ string_to_binary cs"
      by (simp add: string_to_binary_digits)
    also have "\<dots> = take 8 (drop i str) @ drop 8 (drop i str)"
      by (simp only: w(2) cs(2) drop_drop add.commute)
    also have "\<dots> = drop i str" by (rule append_take_drop_id)
    finally have "string_to_binary (to_char w # cs) = drop i str" by simp
    moreover have "decode_loop str i r = Inr (r @ (to_char w # cs))"
      using cs(1) w(1) True len assms(1) by (subst decode_loop.simps) simp
    ultimately show ?thesis by blast
  next
    case False
    then show ?thesis using less.prems(2)
      by (intro exI [of _ "[]"]) (subst decode_loop.simps, simp add: string_to_binary_digits)
  qed
qed

lemma decode_over_read:
  assumes "int (length str) + 7 \<le> INT_MAX"
  shows "i \<le> length str \<Longrightarrow> (length str - i) mod 8 \<notin> {0, 7} \<Longrightarrow> decode_loop str i r = Inl Over_Read"
proof (induction "length str - i" arbitrary: i r rule: less_induct)
  case less
  have i: "i < length str" using less.prems by (cases "i = length str") auto
  show ?case
  proof (cases "length str < i + 7")
    case True
    then show ?thesis using i by (subst decode_loop.simps) (simp add: bit_loop_short)
  next
    case False
    then obtain w where w: "bit_loop str i 0 0 = Inr w" using bit_loop_byte [of i str] by auto
    have len: "i + 8 \<le> length str" using False less.prems by (cases "length str = i + 7") auto
    have "(length str - (i + 8)) mod 8 = (length str - i) mod 8"
      using len le_mod_geq [of 8 "length str - i"] by simp
    then have "decode_loop str (i + 8) (r @ [to_char w]) = Inl Over_Read"
      using less.prems i len by (intro less.hyps) auto
    then show ?thesis using w i assms len by (subst decode_loop.simps) simp
  qed
qed

lemma decode_returns:
  assumes "int (length str) + 7 \<le> INT_MAX"
  shows "(length str - i) mod 8 \<in> {0, 7} \<Longrightarrow> \<exists>cs. decode_loop str i r = Inr cs"
proof (induction "length str - i" arbitrary: i r rule: less_induct)
  case less
  show ?case
  proof (cases "i < length str")
    case True
    have "\<not> length str - i < 7"
    proof
      assume "length str - i < 7"
      then show False using less.prems True by simp
    qed
    then have len: "i + 7 \<le> length str" by simp
    then obtain w where w: "bit_loop str i 0 0 = Inr w" using bit_loop_byte [of i str] by auto
    have "(length str - (i + 8)) mod 8 \<in> {0, 7}"
    proof (cases "length str = i + 7")
      case False
      then have "(length str - (i + 8)) mod 8 = (length str - i) mod 8"
        using len le_mod_geq [of 8 "length str - i"] by simp
      then show ?thesis using less.prems by simp
    qed simp
    moreover have "length str - (i + 8) < length str - i" using True by arith
    ultimately obtain cs where "decode_loop str (i + 8) (r @ [to_char w]) = Inr cs"
      using less.hyps [of "i + 8"] by metis
    then show ?thesis using w True len assms by (subst decode_loop.simps) simp
  next
    case False
    then show ?thesis by (subst decode_loop.simps) simp
  qed
qed

lemma binary_to_string_encoded:
  assumes "8 * int (length cs) + 7 \<le> INT_MAX"
  shows "binary_to_string (string_to_binary cs) = Inr cs"
  using decode_digits [of "string_to_binary cs" 0 cs "[]"] assms
  by (simp add: binary_to_string_def length_string_to_binary string_to_binary_digits [symmetric])

end
