(* ===== verification/Unique_Ptr.thy ===== *)
theory Unique_Ptr
  imports Prelude
begin

text \<open>
  \<open>CXXPRIMER/template_for_unique_ptr.cpp\<close>: the members of \<open>My_unique_ptr\<close> with the deleter
  \<open>IntDeleter\<close>, on a heap of \<open>int\<close> objects. Deleting an object that is not on the heap is undefined
  (\<open>None\<close>), deleting the null pointer, address 0, is allowed. \<open>operator*\<close> and the two \<open>swap\<close>s are not
  modelled: their bodies do not compile when they are used.
\<close>

section \<open>The heap and the deleter\<close>

record uheap =
  cells :: "nat \<rightharpoonup> int"
  deleter_lines :: nat

text \<open>\<open>new int(v)\<close>, at an address that the allocator chooses.\<close>

definition new_int :: "nat \<Rightarrow> int \<Rightarrow> uheap \<Rightarrow> uheap" where
  "new_int a v h = h\<lparr>cells := (cells h)(a \<mapsto> v)\<rparr>"

text \<open>\<open>IntDeleter::operator()\<close>: a line on the screen and \<open>delete\<close>.\<close>

definition int_deleter :: "nat \<Rightarrow> uheap \<Rightarrow> uheap option" where
  "int_deleter t h =
     (let h' = h\<lparr>deleter_lines := Suc (deleter_lines h)\<rparr>
      in if t = 0 then Some h'
         else if t \<in> dom (cells h) then Some (h'\<lparr>cells := (cells h)(t := None)\<rparr>) else None)"

section \<open>The members\<close>

record unique_ptr =
  ptr :: nat

definition up_default :: unique_ptr where
  "up_default = \<lparr>ptr = 0\<rparr>"

definition up_from :: "nat \<Rightarrow> unique_ptr" where
  "up_from t = \<lparr>ptr = t\<rparr>"

definition up_destroy :: "unique_ptr \<Rightarrow> uheap \<Rightarrow> (unique_ptr \<times> uheap) option" where
  "up_destroy u h = map_option (\<lambda>h'. (u\<lparr>ptr := 0\<rparr>, h')) (int_deleter (ptr u) h)"

text \<open>\<open>operator=(nullptr_t)\<close> only returns \<open>*this\<close>.\<close>

definition up_assign_null :: "unique_ptr \<Rightarrow> unique_ptr" where
  "up_assign_null u = u"

definition up_bool :: "unique_ptr \<Rightarrow> bool" where
  "up_bool u \<longleftrightarrow> ptr u = 0"

definition up_get :: "unique_ptr \<Rightarrow> nat" where
  "up_get u = ptr u"

definition up_release :: "unique_ptr \<Rightarrow> nat \<times> unique_ptr" where
  "up_release u = (ptr u, u\<lparr>ptr := 0\<rparr>)"

definition up_reset :: "unique_ptr \<Rightarrow> uheap \<Rightarrow> (unique_ptr \<times> uheap) option" where
  "up_reset u h = map_option (\<lambda>h'. (u\<lparr>ptr := 0\<rparr>, h')) (int_deleter (ptr u) h)"

definition up_reset_to :: "nat \<Rightarrow> unique_ptr \<Rightarrow> uheap \<Rightarrow> (unique_ptr \<times> uheap) option" where
  "up_reset_to q u h =
     (let save = ptr u; u' = u\<lparr>ptr := q\<rparr> in map_option (\<lambda>h'. (u', h')) (int_deleter save h))"

definition up_reset_null :: "unique_ptr \<Rightarrow> uheap \<Rightarrow> (unique_ptr \<times> uheap) option" where
  "up_reset_null u h =
     (let save = ptr u; u' = u\<lparr>ptr := 0\<rparr> in map_option (\<lambda>h'. (u', h')) (int_deleter save h))"

text \<open>\<open>main\<close>: two pointers, destroyed in the reverse order at its end.\<close>

definition unique_ptr_main :: "nat \<Rightarrow> nat \<Rightarrow> uheap \<Rightarrow> uheap option" where
  "unique_ptr_main a b h =
     (let h1 = new_int a 12 h; t = up_from a; h2 = new_int b 13 h1; t1 = up_from b
      in case up_destroy t1 h2 of None \<Rightarrow> None
         | Some (_, h3) \<Rightarrow> map_option snd (up_destroy t h3))"

section \<open>Clients\<close>

text \<open>
  A client with any number of \<open>My_unique_ptr\<close> variables, by name, and of raw pointers. Its operations
  are the members, and \<open>new\<close>; \<open>loose\<close> are the raw pointers it still has to give away or delete.
\<close>

datatype up_op =
    New nat int | Make nat nat | Destroy nat | Assign_null nat | Release nat | Reset nat | Reset_to nat nat
  | Reset_null nat

record client =
  up_vars :: "nat \<rightharpoonup> unique_ptr"
  uheap_of :: uheap
  loose :: "nat set"

fun on_var :: "(unique_ptr \<Rightarrow> uheap \<Rightarrow> (unique_ptr \<times> uheap) option) \<Rightarrow> nat \<Rightarrow> client \<Rightarrow> client option" where
  "on_var f x c = (case up_vars c x of None \<Rightarrow> None
     | Some u \<Rightarrow> map_option (\<lambda>(u', h'). c\<lparr>up_vars := (up_vars c)(x \<mapsto> u'), uheap_of := h'\<rparr>) (f u (uheap_of c)))"

fun run_op :: "up_op \<Rightarrow> client \<Rightarrow> client option" where
  "run_op (New a v) c = Some (c\<lparr>uheap_of := new_int a v (uheap_of c), loose := insert a (loose c)\<rparr>)"
| "run_op (Make x p) c = Some (c\<lparr>up_vars := (up_vars c)(x \<mapsto> up_from p), loose := loose c - {p}\<rparr>)"
| "run_op (Destroy x) c =
     map_option (\<lambda>c'. c'\<lparr>up_vars := (up_vars c')(x := None)\<rparr>) (on_var up_destroy x c)"
| "run_op (Assign_null x) c = on_var (\<lambda>u h. Some (up_assign_null u, h)) x c"
| "run_op (Release x) c = (case up_vars c x of None \<Rightarrow> None
     | Some u \<Rightarrow> (case up_release u of (p, u') \<Rightarrow>
         Some (c\<lparr>up_vars := (up_vars c)(x \<mapsto> u'), loose := (if p = 0 then loose c else insert p (loose c))\<rparr>)))"
| "run_op (Reset x) c = on_var up_reset x c"
| "run_op (Reset_to x q) c = map_option (\<lambda>c'. c'\<lparr>loose := loose c - {q}\<rparr>) (on_var (up_reset_to q) x c)"
| "run_op (Reset_null x) c = on_var up_reset_null x c"

text \<open>
  The rules a client has to keep: a fresh address from the allocator, a new name for a new
  variable, an existing variable for a member, and only null or a loose pointer handed over.
\<close>

fun legal :: "up_op \<Rightarrow> client \<Rightarrow> bool" where
  "legal (New a v) c = (a \<noteq> 0 \<and> a \<notin> dom (cells (uheap_of c)))"
| "legal (Make x p) c = (x \<notin> dom (up_vars c) \<and> (p = 0 \<or> p \<in> loose c))"
| "legal (Reset_to x q) c = (x \<in> dom (up_vars c) \<and> (q = 0 \<or> q \<in> loose c))"
| "legal (Destroy x) c = (x \<in> dom (up_vars c))" | "legal (Assign_null x) c = (x \<in> dom (up_vars c))"
| "legal (Release x) c = (x \<in> dom (up_vars c))" | "legal (Reset x) c = (x \<in> dom (up_vars c))"
| "legal (Reset_null x) c = (x \<in> dom (up_vars c))"

fun run_up :: "up_op list \<Rightarrow> client \<Rightarrow> client option" where
  "run_up [] c = Some c"
| "run_up (p # ps) c = (case run_op p c of None \<Rightarrow> None | Some c' \<Rightarrow> run_up ps c')"

fun all_legal :: "up_op list \<Rightarrow> client \<Rightarrow> bool" where
  "all_legal [] c = True"
| "all_legal (p # ps) c = (legal p c \<and> (case run_op p c of None \<Rightarrow> True | Some c' \<Rightarrow> all_legal ps c'))"

section \<open>Ownership\<close>

fun var_owns :: "unique_ptr option \<Rightarrow> nat set" where
  "var_owns None = {}" | "var_owns (Some u) = {ptr u} - {0}"

definition owners :: "client \<Rightarrow> nat \<Rightarrow> nat set" where
  "owners c x = var_owns (up_vars c x)"

text \<open>The objects \<open>D\<close> are divided between the client's loose pointers \<open>L\<close> and the variables.\<close>

definition divided :: "nat set \<Rightarrow> nat set \<Rightarrow> (nat \<Rightarrow> nat set) \<Rightarrow> bool" where
  "divided D L f \<longleftrightarrow> 0 \<notin> D \<and> D = L \<union> (\<Union>x. f x) \<and> (\<forall>x. L \<inter> f x = {}) \<and> (\<forall>x y. x \<noteq> y \<longrightarrow> f x \<inter> f y = {})"

definition ownership :: "client \<Rightarrow> bool" where
  "ownership c \<longleftrightarrow> divided (dom (cells (uheap_of c))) (loose c) (owners c)"

definition no_client :: client where
  "no_client = \<lparr>up_vars = Map.empty, uheap_of = \<lparr>cells = Map.empty, deleter_lines = 0\<rparr>, loose = {}\<rparr>"

lemma ownership_init: "ownership no_client"
  by (simp add: ownership_def divided_def no_client_def owners_def)

lemma UN_upd: "(\<Union>y. (f(x := A)) y) = A \<union> (\<Union>y \<in> - {x}. f y)"
  by auto

lemma UN_split: "(\<Union>y. f y) = f x \<union> (\<Union>y \<in> - {x}. f y)"
  by auto

lemma dividedD:
  assumes "divided D L f"
  shows "0 \<notin> D" "D = L \<union> (\<Union>x. f x)" "L \<inter> f x = {}" "x \<noteq> y \<Longrightarrow> f x \<inter> f y = {}"
  using assms unfolding divided_def by blast+

lemma dividedI:
  assumes "0 \<notin> D" "D = L \<union> (\<Union>x. f x)" "\<And>x. L \<inter> f x = {}" "\<And>x y. x \<noteq> y \<Longrightarrow> f x \<inter> f y = {}"
  shows "divided D L f"
  using assms unfolding divided_def by blast

text \<open>A variable takes over loose objects and deletes its own; or it lets its object loose.\<close>

lemma divided_take:
  assumes "divided D L f" "Q \<subseteq> L"
  shows "divided (D - f x) (L - Q) (f(x := Q))"
proof (rule dividedI)
  show "0 \<notin> D - f x" using dividedD(1) [OF assms(1)] by blast
  have "f x \<inter> f y = {}" if "y \<in> - {x}" for y using dividedD(4) [OF assms(1), of x y] that by simp
  then have "f x \<inter> (\<Union>y \<in> - {x}. f y) = {}" by blast
  moreover have "D = L \<union> (f x \<union> (\<Union>y \<in> - {x}. f y))" using dividedD(2) [OF assms(1)] UN_split [of f x] by argo
  ultimately show "D - f x = (L - Q) \<union> (\<Union>y. (f(x := Q)) y)"
    unfolding UN_upd using assms(2) dividedD(3) [OF assms(1), of x] by blast
  have Q: "Q \<inter> f y = {}" for y using assms(2) dividedD(3) [OF assms(1), of y] by blast
  show "(L - Q) \<inter> (f(x := Q)) y = {}" for y using dividedD(3) [OF assms(1), of y] by auto
  show "(f(x := Q)) y \<inter> (f(x := Q)) z = {}" if "y \<noteq> z" for y z
    using Q [of y] Q [of z] dividedD(4) [OF assms(1) that] that by (auto split: if_splits)
qed

lemma divided_release:
  assumes "divided D L f"
  shows "divided D (L \<union> f x) (f(x := {}))"
proof (rule dividedI)
  show "0 \<notin> D" by (rule dividedD(1) [OF assms])
  show "D = L \<union> f x \<union> (\<Union>y. (f(x := {})) y)"
    unfolding UN_upd using dividedD(2) [OF assms] UN_split [of f x] by blast
  show "(L \<union> f x) \<inter> (f(x := {})) y = {}" for y
    using dividedD(3) [OF assms, of y] dividedD(4) [OF assms, of x y] by auto
  show "(f(x := {})) y \<inter> (f(x := {})) z = {}" if "y \<noteq> z" for y z
    using dividedD(4) [OF assms that] by auto
qed

lemma divided_new:
  assumes "divided D L f" "a \<noteq> 0" "a \<notin> D"
  shows "divided (insert a D) (insert a L) f"
proof (rule dividedI)
  show "0 \<notin> insert a D" using dividedD(1) [OF assms(1)] assms(2) by simp
  show "insert a D = insert a L \<union> (\<Union>x. f x)" using dividedD(2) [OF assms(1)] by simp
  show "insert a L \<inter> f x = {}" for x
    using dividedD(2) [OF assms(1)] dividedD(3) [OF assms(1), of x] assms(3) by blast
  show "x \<noteq> y \<Longrightarrow> f x \<inter> f y = {}" for x y by (rule dividedD(4) [OF assms(1)])
qed

lemma owners_upd:
  "owners (c\<lparr>up_vars := (up_vars c)(x := v)\<rparr>) = (owners c)(x := var_owns v)"
  by (rule ext) (simp add: owners_def)

lemma ownershipI:
  assumes "divided D L f" "dom (cells (uheap_of c)) = D" "loose c = L" "\<And>x. var_owns (up_vars c x) = f x"
  shows "ownership c"
proof -
  have "owners c = f" using assms(4) by (auto simp: owners_def)
  then show ?thesis using assms(1-3) by (simp add: ownership_def)
qed

lemma int_deleter_owned:
  assumes "ownership c" "up_vars c x = Some u"
  shows "\<exists>h. int_deleter (ptr u) (uheap_of c) = Some h \<and>
    dom (cells h) = dom (cells (uheap_of c)) - owners c x"
proof (cases "ptr u = 0")
  case False
  then have "ptr u \<in> owners c x" using assms(2) by (simp add: owners_def)
  then have "ptr u \<in> dom (cells (uheap_of c))" using assms(1) by (auto simp: ownership_def divided_def)
  then show ?thesis using assms(2) False by (auto simp: int_deleter_def owners_def)
qed (use assms(2) in \<open>simp add: int_deleter_def owners_def\<close>)

text \<open>The members that delete the old pointer and take \<open>q\<close>, as one.\<close>

lemma on_var_takes:
  assumes "ownership c" "x \<in> dom (up_vars c)" "q = 0 \<or> q \<in> loose c"
    and "\<And>u h. f u h = map_option (\<lambda>h'. (u\<lparr>ptr := q\<rparr>, h')) (int_deleter (ptr u) h)"
  shows "\<exists>c'. on_var f x c = Some c' \<and> loose c' = loose c \<and> ownership (c'\<lparr>loose := loose c - {q}\<rparr>) \<and>
    up_vars c' = (up_vars c)(x \<mapsto> the (up_vars c x)\<lparr>ptr := q\<rparr>)"
proof -
  obtain u where u: "up_vars c x = Some u" using assms(2) by blast
  obtain h where h: "int_deleter (ptr u) (uheap_of c) = Some h"
    "dom (cells h) = dom (cells (uheap_of c)) - owners c x"
    using int_deleter_owned [OF assms(1) u] by blast
  have l0: "0 \<notin> loose c" using assms(1) by (auto simp: ownership_def divided_def)
  have "divided (dom (cells (uheap_of c)) - owners c x) (loose c - ({q} - {0})) ((owners c)(x := {q} - {0}))"
    using assms(1,3) by (intro divided_take) (auto simp: ownership_def)
  then have "ownership (c\<lparr>up_vars := (up_vars c)(x \<mapsto> u\<lparr>ptr := q\<rparr>), uheap_of := h, loose := loose c - {q}\<rparr>)"
    by (rule ownershipI) (use h l0 in \<open>auto simp: owners_def\<close>)
  then show ?thesis using u h(1) by (simp add: assms(4))
qed

lemma run_op_owned:
  assumes "ownership c" "legal p c"
  shows "\<exists>c'. run_op p c = Some c' \<and> ownership c'"
proof -
  have zero: "loose c - {0} = loose c" using assms(1) by (auto simp: ownership_def divided_def)
  have takes_null: "\<exists>c'. on_var f x c = Some c' \<and> ownership c' \<and>
      up_vars c' = (up_vars c)(x \<mapsto> the (up_vars c x)\<lparr>ptr := 0\<rparr>)"
    if "x \<in> dom (up_vars c)" "\<And>u h. f u h = map_option (\<lambda>h'. (u\<lparr>ptr := 0\<rparr>, h')) (int_deleter (ptr u) h)" for f x
    using on_var_takes [OF assms(1) that(1) _ that(2)] zero by (metis client.surjective client.update_convs(3))
  show ?thesis
  proof (cases p)
    case (New a v)
    have "divided (insert a (dom (cells (uheap_of c)))) (insert a (loose c)) (owners c)"
      using assms New by (intro divided_new) (auto simp: ownership_def)
    then have "ownership (c\<lparr>uheap_of := new_int a v (uheap_of c), loose := insert a (loose c)\<rparr>)"
      by (rule ownershipI) (simp_all add: new_int_def owners_def)
    then show ?thesis using New by simp
  next
    case (Make x q)
    then have x: "owners c x = {}" "q = 0 \<or> q \<in> loose c" using assms(2) by (auto simp: owners_def domIff)
    have "divided (dom (cells (uheap_of c)) - owners c x) (loose c - ({q} - {0})) ((owners c)(x := {q} - {0}))"
      using assms(1) x(2) by (intro divided_take) (auto simp: ownership_def)
    then have "ownership (c\<lparr>up_vars := (up_vars c)(x \<mapsto> up_from q), loose := loose c - {q}\<rparr>)"
      by (rule ownershipI) (use x zero in \<open>auto simp: owners_def up_from_def\<close>)
    then show ?thesis using Make by simp
  next
    case (Destroy x)
    obtain c' where c': "on_var up_destroy x c = Some c'" "ownership c'"
      "up_vars c' = (up_vars c)(x \<mapsto> the (up_vars c x)\<lparr>ptr := 0\<rparr>)"
      using takes_null [of x up_destroy] Destroy assms(2) by (auto simp: up_destroy_def)
    have "divided (dom (cells (uheap_of c'))) (loose c') (owners c')" using c'(2) by (simp add: ownership_def)
    then have "ownership (c'\<lparr>up_vars := (up_vars c')(x := None)\<rparr>)"
      by (rule ownershipI) (use c'(3) in \<open>auto simp: owners_def\<close>)
    then show ?thesis using Destroy c'(1) by simp
  next
    case (Assign_null x)
    then show ?thesis using assms by (auto simp: up_assign_null_def fun_upd_idem)
  next
    case (Release x)
    then obtain u where u: "up_vars c x = Some u" using assms(2) by auto
    have "divided (dom (cells (uheap_of c))) (loose c \<union> owners c x) ((owners c)(x := {}))"
      using assms(1) by (intro divided_release) (simp add: ownership_def)
    then have "ownership (c\<lparr>up_vars := (up_vars c)(x \<mapsto> u\<lparr>ptr := 0\<rparr>),
        loose := (if ptr u = 0 then loose c else insert (ptr u) (loose c))\<rparr>)"
      by (rule ownershipI) (use u in \<open>auto simp: owners_def\<close>)
    then show ?thesis using Release u by (simp add: up_release_def)
  next
    case (Reset x)
    then show ?thesis using takes_null [of x up_reset] assms(2) by (auto simp: up_reset_def)
  next
    case (Reset_to x q)
    then show ?thesis
      using on_var_takes [OF assms(1), of x q "up_reset_to q"] assms(2) by (auto simp: up_reset_to_def Let_def)
  next
    case (Reset_null x)
    then show ?thesis using takes_null [of x up_reset_null] assms(2) by (auto simp: up_reset_null_def Let_def)
  qed
qed

lemma run_up_owned:
  "ownership c \<Longrightarrow> all_legal ps c \<Longrightarrow> \<exists>c'. run_up ps c = Some c' \<and> ownership c'"
proof (induction ps arbitrary: c)
  case (Cons p ps)
  then show ?case using run_op_owned [of c p] by (auto split: option.splits)
qed simp

section \<open>Resetting a pointer to itself\<close>

lemma self_reset:
  assumes "ptr u \<noteq> 0" "ptr u \<in> dom (cells h)"
  shows "\<exists>h'. up_reset_to (ptr u) u h = Some (u, h') \<and> ptr u \<notin> dom (cells h') \<and> up_destroy u h' = None"
  using assms by (auto simp: up_reset_to_def up_destroy_def int_deleter_def Let_def)

lemma unique_ptr_main_returns:
  assumes "a \<noteq> 0" "b \<noteq> 0" "a \<noteq> b" "a \<notin> dom (cells h)" "b \<notin> dom (cells h)"
  shows "unique_ptr_main a b h = Some (h\<lparr>deleter_lines := deleter_lines h + 2\<rparr>)"
proof -
  have "(cells h)(a := None) = cells h" "(cells h)(b := None, a := None) = cells h" "(cells h)(a := None, b := None) = cells h"
    using assms(4,5) by (auto simp: fun_eq_iff domIff)
  then show ?thesis
    using assms(1-3)
    by (simp add: unique_ptr_main_def new_int_def up_from_def up_destroy_def int_deleter_def Let_def fun_upd_twist)
qed

end
