(* ===== verification/Shared_Ptr.thy ===== *)
theory Shared_Ptr
  imports Clib "HOL-Library.Word"
begin

text \<open>
  \<open>CXXPRIMER/template_for_shared_ptr.cpp\<close>: the members of \<open>My_shared_ptr<int>\<close>, on a heap of objects, of
  the counters they share (\<open>size_t\<close>, 64 bits) and of a screen. Using a deleted counter, deleting an object
  twice and calling the \<open>void *\<close> deleter are errors; the last one is an error of the compiler, of which only
  the place where it is reached is shown. Not modelled: the default constructor (two initialisers for
  \<open>ref_count\<close>), \<open>unique\<close> (compares the pointer with 1), \<open>operator*\<close> and the two \<open>swap\<close>s, whose bodies no
  compiler accepts.
\<close>

section \<open>The heap\<close>

datatype sp_error = Counter_Deleted | Object_Deleted | Not_A_Function

record sp_heap =
  objects :: "nat \<rightharpoonup> int"
  counters :: "nat \<rightharpoonup> 64 word"
  sp_screen :: "string list"

definition sp_line :: "string \<Rightarrow> sp_heap \<Rightarrow> sp_heap" where
  "sp_line l h = h\<lparr>sp_screen := sp_screen h @ [l]\<rparr>"

text \<open>\<open>delete\<close> of an \<open>int\<close>: nothing for the null pointer, address 0.\<close>

definition delete_object :: "nat \<Rightarrow> sp_heap \<Rightarrow> sp_error + sp_heap" where
  "delete_object p h =
     (if p = 0 then Inr h
      else if p \<in> dom (objects h) then Inr (h\<lparr>objects := (objects h)(p := None)\<rparr>) else Inl Object_Deleted)"

section \<open>The members\<close>

record shared_ptr =
  object_ptr :: nat
  ref_count :: nat
  deleter :: nat

text \<open>The constructors from a pointer, with a counter at the new address \<open>r\<close>, and with a copy of the
  function at the new address \<open>d\<close>.\<close>

definition sp_from :: "nat \<Rightarrow> nat \<Rightarrow> sp_heap \<Rightarrow> shared_ptr \<times> sp_heap" where
  "sp_from t r h = (\<lparr>object_ptr = t, ref_count = r, deleter = 0\<rparr>, h\<lparr>counters := (counters h)(r \<mapsto> 1)\<rparr>)"

definition sp_from_fn :: "nat \<Rightarrow> nat \<Rightarrow> nat \<Rightarrow> sp_heap \<Rightarrow> shared_ptr \<times> sp_heap" where
  "sp_from_fn t r d h =
     (\<lparr>object_ptr = t, ref_count = r, deleter = d\<rparr>, sp_line ''Here'' (h\<lparr>counters := (counters h)(r \<mapsto> 1)\<rparr>))"

text \<open>\<open>++*ref_count\<close>, which wraps around.\<close>

definition ref_up :: "nat \<Rightarrow> sp_heap \<Rightarrow> sp_error + sp_heap" where
  "ref_up r h = (case counters h r of None \<Rightarrow> Inl Counter_Deleted
     | Some n \<Rightarrow> Inr (h\<lparr>counters := (counters h)(r \<mapsto> n + 1)\<rparr>))"

definition sp_copy :: "shared_ptr \<Rightarrow> sp_heap \<Rightarrow> sp_error + (shared_ptr \<times> sp_heap)" where
  "sp_copy other h = (case ref_up (ref_count other) h of Inl e \<Rightarrow> Inl e
     | Inr h' \<Rightarrow> Inr (\<lparr>object_ptr = object_ptr other, ref_count = ref_count other, deleter = deleter other\<rparr>,
                    sp_line ''copy constructor'' h'))"

definition sp_copy_fn :: "shared_ptr \<Rightarrow> nat \<Rightarrow> sp_heap \<Rightarrow> sp_error + (shared_ptr \<times> sp_heap)" where
  "sp_copy_fn b d h = (case ref_up (ref_count b) (sp_line ''Here'' h) of Inl e \<Rightarrow> Inl e
     | Inr h' \<Rightarrow> Inr (\<lparr>object_ptr = object_ptr b, ref_count = ref_count b, deleter = d\<rparr>, h'))"

definition reduce_ref :: "shared_ptr \<Rightarrow> sp_heap \<Rightarrow> sp_error + sp_heap" where
  "reduce_ref u h = (case counters h (ref_count u) of None \<Rightarrow> Inl Counter_Deleted
     | Some n \<Rightarrow> (let h' = h\<lparr>counters := (counters h)(ref_count u \<mapsto> n - 1)\<rparr>
         in if n - 1 = 0
            then if deleter u = 0 then delete_object (object_ptr u) (sp_line ''delete ptr'' h') else Inl Not_A_Function
            else Inr h'))"

text \<open>The destructor reads the counter before it reduces it.\<close>

definition sp_destroy :: "shared_ptr \<Rightarrow> sp_heap \<Rightarrow> sp_error + sp_heap" where
  "sp_destroy u h = (case counters h (ref_count u) of None \<Rightarrow> Inl Counter_Deleted
     | Some left \<Rightarrow> (case reduce_ref u h of Inl e \<Rightarrow> Inl e
         | Inr h' \<Rightarrow> Inr (if left = 1
             then sp_line ''delete ref_count'' (h'\<lparr>counters := (counters h')(ref_count u := None)\<rparr>) else h')))"

text \<open>
  \<open>operator=\<close>: the pointer and the heap after it, and whether a \<open>return\<close> was reached. The counter that
  the two pointers share from now on is not increased.
\<close>

definition sp_assign :: "shared_ptr \<Rightarrow> shared_ptr \<Rightarrow> sp_heap \<Rightarrow> sp_error + (bool \<times> shared_ptr \<times> sp_heap)" where
  "sp_assign u other h =
     (if ref_count other = ref_count u then Inr (True, u, h)
      else case reduce_ref u h of Inl e \<Rightarrow> Inl e
        | Inr h' \<Rightarrow> Inr (False, u\<lparr>ref_count := ref_count other, object_ptr := object_ptr other, deleter := deleter other\<rparr>, h'))"

definition sp_bool :: "shared_ptr \<Rightarrow> bool" where
  "sp_bool u \<longleftrightarrow> object_ptr u = 0"

definition sp_get :: "shared_ptr \<Rightarrow> nat" where
  "sp_get u = object_ptr u"

definition use_count :: "shared_ptr \<Rightarrow> sp_heap \<Rightarrow> sp_error + 64 word" where
  "use_count u h = (case counters h (ref_count u) of None \<Rightarrow> Inl Counter_Deleted | Some n \<Rightarrow> Inr n)"

text \<open>The two deleters of the file, as functions.\<close>

definition sp_int_deleter :: "nat \<Rightarrow> sp_heap \<Rightarrow> sp_error + sp_heap" where
  "sp_int_deleter t h = delete_object t (sp_line ''IntDeleter'' h)"

definition lambda_deleter :: "nat \<Rightarrow> sp_heap \<Rightarrow> sp_error + sp_heap" where
  "lambda_deleter p h = map_sum id (sp_line ''lambda deleter'') (delete_object p h)"

text \<open>\<open>main\<close>, up to the call of the deleter in the destructor of \<open>t1\<close>.\<close>

definition shared_ptr_main :: "nat \<Rightarrow> nat \<Rightarrow> nat \<Rightarrow> sp_heap \<Rightarrow> sp_error + sp_heap" where
  "shared_ptr_main a r d h =
     (case sp_from_fn a r d (h\<lparr>objects := (objects h)(a \<mapsto> 12)\<rparr>) of (t1, h1) \<Rightarrow>
       (case use_count t1 h1 of Inl e \<Rightarrow> Inl e
        | Inr n \<Rightarrow> sp_destroy t1 (sp_line (''t1: '' @ dec_nat (unat n)) h1)))"

section \<open>Clients\<close>

text \<open>
  A client with variables of the class, by name: \<open>Share_new x a v r\<close> is \<open>My_shared_ptr<int> x(new int(v))\<close>
  with the new object at \<open>a\<close> and its counter at \<open>r\<close>; \<open>Share_new_fn\<close> and \<open>Share_fn\<close> are the constructors with
  a deleter, whose copy is at \<open>d\<close>.
\<close>

datatype sp_op = Share_new nat nat int nat | Share_new_fn nat nat int nat nat | Share nat nat | Share_fn nat nat nat
  | Drop nat | Assign nat nat

record sp_client =
  sp_vars :: "nat \<rightharpoonup> shared_ptr"
  sp_store :: sp_heap

fun run_sp_op :: "sp_op \<Rightarrow> sp_client \<Rightarrow> (sp_error + sp_client) option" where
  "run_sp_op (Share_new x a v r) c =
     (case sp_from a r ((sp_store c)\<lparr>objects := (objects (sp_store c))(a \<mapsto> v)\<rparr>) of (u, h) \<Rightarrow>
       Some (Inr (c\<lparr>sp_vars := (sp_vars c)(x \<mapsto> u), sp_store := h\<rparr>)))"
| "run_sp_op (Share_new_fn x a v r d) c =
     (case sp_from_fn a r d ((sp_store c)\<lparr>objects := (objects (sp_store c))(a \<mapsto> v)\<rparr>) of (u, h) \<Rightarrow>
       Some (Inr (c\<lparr>sp_vars := (sp_vars c)(x \<mapsto> u), sp_store := h\<rparr>)))"
| "run_sp_op (Share_fn x y d) c = map_option (\<lambda>v. case sp_copy_fn v d (sp_store c) of Inl e \<Rightarrow> Inl e
     | Inr (u, h) \<Rightarrow> Inr (c\<lparr>sp_vars := (sp_vars c)(x \<mapsto> u), sp_store := h\<rparr>)) (sp_vars c y)"
| "run_sp_op (Share x y) c = map_option (\<lambda>v. case sp_copy v (sp_store c) of Inl e \<Rightarrow> Inl e
     | Inr (u, h) \<Rightarrow> Inr (c\<lparr>sp_vars := (sp_vars c)(x \<mapsto> u), sp_store := h\<rparr>)) (sp_vars c y)"
| "run_sp_op (Drop x) c = map_option (\<lambda>u. case sp_destroy u (sp_store c) of Inl e \<Rightarrow> Inl e
     | Inr h \<Rightarrow> Inr (c\<lparr>sp_vars := (sp_vars c)(x := None), sp_store := h\<rparr>)) (sp_vars c x)"
| "run_sp_op (Assign x y) c = (case (sp_vars c x, sp_vars c y) of
     (Some u, Some v) \<Rightarrow> Some (case sp_assign u v (sp_store c) of Inl e \<Rightarrow> Inl e
       | Inr (_, u', h) \<Rightarrow> Inr (c\<lparr>sp_vars := (sp_vars c)(x \<mapsto> u'), sp_store := h\<rparr>))
     | _ \<Rightarrow> None)"

fun run_sp :: "sp_op list \<Rightarrow> sp_client \<Rightarrow> (sp_error + sp_client) option" where
  "run_sp [] c = Some (Inr c)"
| "run_sp (p # ps) c = (case run_sp_op p c of Some (Inr c') \<Rightarrow> run_sp ps c' | r \<Rightarrow> r)"

text \<open>
  The allocator gives out fresh addresses, never 0, a new variable has a new name, and a variable is assigned only
  one that already shares its counter. There are fewer than \<open>2 ^ 64\<close> variables.
\<close>

fun sp_legal :: "sp_op \<Rightarrow> sp_client \<Rightarrow> bool" where
  "sp_legal (Share_new x a v r) c \<longleftrightarrow> x \<notin> dom (sp_vars c) \<and> a \<noteq> 0 \<and> a \<notin> dom (objects (sp_store c)) \<and>
     r \<notin> dom (counters (sp_store c)) \<and> card (dom (sp_vars c)) < 2 ^ 64 - 1"
| "sp_legal (Share_new_fn x a v r d) c \<longleftrightarrow> d \<noteq> 0 \<and> x \<notin> dom (sp_vars c) \<and> a \<noteq> 0 \<and> a \<notin> dom (objects (sp_store c)) \<and>
     r \<notin> dom (counters (sp_store c)) \<and> card (dom (sp_vars c)) < 2 ^ 64 - 1"
| "sp_legal (Share_fn x y d) c \<longleftrightarrow>
     d \<noteq> 0 \<and> x \<notin> dom (sp_vars c) \<and> y \<in> dom (sp_vars c) \<and> card (dom (sp_vars c)) < 2 ^ 64 - 1"
| "sp_legal (Share x y) c \<longleftrightarrow> x \<notin> dom (sp_vars c) \<and> y \<in> dom (sp_vars c) \<and> card (dom (sp_vars c)) < 2 ^ 64 - 1"
| "sp_legal (Drop x) c \<longleftrightarrow> x \<in> dom (sp_vars c)"
| "sp_legal (Assign x y) c \<longleftrightarrow> (case (sp_vars c x, sp_vars c y) of
     (Some u, Some v) \<Rightarrow> ref_count v = ref_count u | _ \<Rightarrow> False)"

fun all_sp_legal :: "sp_op list \<Rightarrow> sp_client \<Rightarrow> bool" where
  "all_sp_legal [] c \<longleftrightarrow> True"
| "all_sp_legal (p # ps) c \<longleftrightarrow> sp_legal p c \<and> (case run_sp_op p c of Some (Inr c') \<Rightarrow> all_sp_legal ps c' | _ \<Rightarrow> True)"

definition no_sp_client :: sp_client where
  "no_sp_client = \<lparr>sp_vars = Map.empty, sp_store = \<lparr>objects = Map.empty, counters = Map.empty, sp_screen = []\<rparr>\<rparr>"

section \<open>The counters count\<close>

definition sharers :: "(nat \<rightharpoonup> shared_ptr) \<Rightarrow> nat \<Rightarrow> nat set" where
  "sharers V r = {x. \<exists>u. V x = Some u \<and> ref_count u = r}"

definition tallied :: "(nat \<rightharpoonup> shared_ptr) \<Rightarrow> (nat \<rightharpoonup> 64 word) \<Rightarrow> bool" where
  "tallied V C \<longleftrightarrow> finite (dom V) \<and> card (dom V) < 2 ^ 64 \<and>
     (\<forall>r. C r = (if sharers V r = {} then None else Some (of_nat (card (sharers V r)))))"

text \<open>One counter for each object, and no object but those a variable points to.\<close>

definition paired :: "(nat \<rightharpoonup> shared_ptr) \<Rightarrow> nat set \<Rightarrow> bool" where
  "paired V D \<longleftrightarrow> (\<forall>x u. V x = Some u \<longrightarrow> object_ptr u \<noteq> 0) \<and>
     (\<forall>x u y v. V x = Some u \<longrightarrow> V y = Some v \<longrightarrow> (ref_count u = ref_count v \<longleftrightarrow> object_ptr u = object_ptr v)) \<and>
     D = object_ptr ` ran V"

definition sp_inv :: "sp_client \<Rightarrow> bool" where
  "sp_inv c \<longleftrightarrow> tallied (sp_vars c) (counters (sp_store c)) \<and> paired (sp_vars c) (dom (objects (sp_store c)))"

lemma sp_inv_init: "sp_inv no_sp_client"
  by (simp add: sp_inv_def tallied_def paired_def sharers_def no_sp_client_def)

lemma sharers_sub: "sharers V r \<subseteq> dom V"
  by (auto simp: sharers_def)

lemma sharers_finite: "finite (dom V) \<Longrightarrow> finite (sharers V r)"
  by (rule finite_subset [OF sharers_sub])

lemma sharers_new:
  "V x = None \<Longrightarrow> sharers (V(x \<mapsto> u)) r = (if r = ref_count u then insert x (sharers V r) else sharers V r)"
  by (auto simp: sharers_def)

lemma sharers_drop:
  "V x = Some u \<Longrightarrow> sharers (V(x := None)) r = (if r = ref_count u then sharers V r - {x} else sharers V r)"
  by (auto simp: sharers_def)

lemma sharers_in: "V x = Some u \<Longrightarrow> x \<in> sharers V (ref_count u)"
  by (auto simp: sharers_def)

lemma talliedD:
  assumes "tallied V C"
  shows "finite (dom V)" "card (dom V) < 2 ^ 64"
    and "V x = Some u \<Longrightarrow> C (ref_count u) = Some (of_nat (card (sharers V (ref_count u))))"
    and "r \<notin> dom C \<Longrightarrow> sharers V r = {}"
    and "0 < card (sharers V (ref_count u)) \<longleftrightarrow> sharers V (ref_count u) \<noteq> {}"
  using assms sharers_in [of V x u] sharers_finite [of V "ref_count u"]
  by (auto simp: tallied_def card_gt_0_iff split: if_splits)

lemma tallied_dom:
  assumes "tallied V C"
  shows "dom C = ref_count ` ran V"
  using assms by (auto simp: tallied_def sharers_def ran_def dom_def image_iff split: if_splits)

text \<open>A counter is below \<open>2 ^ 64\<close>, so it is the number of its sharers.\<close>

lemma sharers_card:
  assumes "tallied V C"
  shows "card (sharers V r) < 2 ^ 64"
  using card_mono [OF talliedD(1) [OF assms] sharers_sub, of r] talliedD(2) [OF assms] by simp

lemma counter_value:
  assumes "tallied V C"
  shows "unat (of_nat (card (sharers V r)) :: 64 word) = card (sharers V r)"
  using sharers_card [OF assms, of r] by (simp add: unat_of_nat take_bit_eq_mod)

lemma tallied_up:
  assumes "tallied V C" "V x = None" "card (dom V) < 2 ^ 64 - 1"
    and "C' = C(ref_count u \<mapsto> of_nat (Suc (card (sharers V (ref_count u)))))"
  shows "tallied (V(x \<mapsto> u)) C'"
proof -
  have x: "x \<notin> sharers V r" for r using assms(2) by (auto simp: sharers_def)
  have f: "finite (sharers V r)" for r by (rule sharers_finite [OF talliedD(1) [OF assms(1)]])
  have "finite (dom (V(x \<mapsto> u)))" "card (dom (V(x \<mapsto> u))) < 2 ^ 64"
    using talliedD(1) [OF assms(1)] assms(2,3) by (auto simp: card_insert_if)
  moreover have "C' r = (if sharers (V(x \<mapsto> u)) r = {} then None else Some (of_nat (card (sharers (V(x \<mapsto> u)) r))))" for r
    using assms(1) x [of r] f [of r] unfolding sharers_new [of V x u r, OF assms(2)]
    by (auto simp: assms(4) tallied_def)
  ultimately show ?thesis by (simp only: tallied_def) blast
qed

lemma tallied_down:
  assumes "tallied V C" "V x = Some u"
    and "C' = C(ref_count u := (if card (sharers V (ref_count u)) = 1 then None
      else Some (of_nat (card (sharers V (ref_count u))) - 1)))"
  shows "tallied (V(x := None)) C'"
proof -
  let ?S = "sharers V (ref_count u)"
  have f: "finite ?S" by (rule sharers_finite [OF talliedD(1) [OF assms(1)]])
  have x: "x \<in> ?S" using assms(2) by (rule sharers_in)
  have c: "card ?S = Suc (card (?S - {x}))" by (rule card.remove [OF f x])
  have "finite (dom (V(x := None)))" "card (dom (V(x := None))) < 2 ^ 64"
    using talliedD(1) [OF assms(1)] le_less_trans [OF card_Diff1_le talliedD(2) [OF assms(1)], of x] by simp_all
  moreover have "C' r = (if sharers (V(x := None)) r = {} then None else Some (of_nat (card (sharers (V(x := None)) r))))" for r
  proof (cases "r = ref_count u")
    case True
    have "?S - {x} = {} \<longleftrightarrow> card ?S = 1" using c f by simp
    moreover have "(of_nat (card ?S) :: 64 word) - 1 = of_nat (card (?S - {x}))" using c by simp
    ultimately show ?thesis using True by (simp add: assms(3) sharers_drop [of V x u, OF assms(2)])
  next
    case False
    then show ?thesis using assms(1) by (simp add: assms(3) tallied_def sharers_drop [of V x u, OF assms(2)])
  qed
  ultimately show ?thesis by (simp only: tallied_def) blast
qed

lemma paired_new:
  assumes "paired V D" "V x = None" "object_ptr u \<noteq> 0"
    and "\<And>y v. V y = Some v \<Longrightarrow> ref_count u = ref_count v \<longleftrightarrow> object_ptr u = object_ptr v"
  shows "paired (V(x \<mapsto> u)) (insert (object_ptr u) D)"
  unfolding paired_def
proof (intro conjI)
  show "\<forall>y v. (V(x \<mapsto> u)) y = Some v \<longrightarrow> object_ptr v \<noteq> 0"
    using assms(1,3) unfolding paired_def by auto
  show "\<forall>y v z w. (V(x \<mapsto> u)) y = Some v \<longrightarrow> (V(x \<mapsto> u)) z = Some w \<longrightarrow>
      (ref_count v = ref_count w \<longleftrightarrow> object_ptr v = object_ptr w)"
    using assms(1,4) unfolding paired_def by (auto split: if_splits) metis+
  show "insert (object_ptr u) D = object_ptr ` ran (V(x \<mapsto> u))"
    using assms(1,2) unfolding paired_def by simp
qed

lemma paired_drop:
  assumes "paired V D" "V x = Some u"
  shows "paired (V(x := None)) (if sharers V (ref_count u) = {x} then D - {object_ptr u} else D)"
proof -
  have D: "D = object_ptr ` ran V" and one: "\<And>y v. V y = Some v \<Longrightarrow> ref_count v = ref_count u \<longleftrightarrow> object_ptr v = object_ptr u"
    using assms unfolding paired_def by metis+
  have last: "sharers V (ref_count u) = {x} \<longleftrightarrow> (\<forall>y v. V y = Some v \<and> object_ptr v = object_ptr u \<longrightarrow> y = x)"
    using assms(2) one unfolding sharers_def by auto
  have im: "p \<in> object_ptr ` ran W \<longleftrightarrow> (\<exists>y v. W y = Some v \<and> object_ptr v = p)" for p W
    by (auto simp: ran_def)
  have "p \<in> object_ptr ` ran (V(x := None)) \<longleftrightarrow>
      p \<in> (if sharers V (ref_count u) = {x} then D - {object_ptr u} else D)" for p
  proof (cases "p = object_ptr u")
    case True
    then show ?thesis using assms(2) last by (auto simp: D im)
  next
    case False
    then show ?thesis using assms(2) by (auto simp: D im) (metis option.inject)
  qed
  then have "object_ptr ` ran (V(x := None)) = (if sharers V (ref_count u) = {x} then D - {object_ptr u} else D)"
    by blast
  then show ?thesis using assms(1) unfolding paired_def by (auto split: if_splits)
qed

text \<open>
  The members keep the invariant, and no use of them is an error but the last destructor of an object with
  a deleter.
\<close>

lemma shared_inv:
  assumes "sp_inv c" "sp_vars c y = Some v" "x \<notin> dom (sp_vars c)" "card (dom (sp_vars c)) < 2 ^ 64 - 1"
    and "ref_count u = ref_count v" "object_ptr u = object_ptr v"
    and "counters h = (counters (sp_store c))(ref_count v \<mapsto> of_nat (card (sharers (sp_vars c) (ref_count v))) + 1)"
    and "objects h = objects (sp_store c)"
  shows "sp_inv (c\<lparr>sp_vars := (sp_vars c)(x \<mapsto> u), sp_store := h\<rparr>)"
proof -
  let ?V = "sp_vars c" and ?D = "dom (objects (sp_store c))"
  have cn: "tallied ?V (counters (sp_store c))" and pr: "paired ?V ?D" using assms(1) by (simp_all add: sp_inv_def)
  have x: "?V x = None" using assms(3) by (simp add: domIff)
  have "tallied (?V(x \<mapsto> u)) (counters h)"
    by (rule tallied_up [OF cn x assms(4)]) (simp add: assms(5,7) add.commute)
  moreover have "paired (?V(x \<mapsto> u)) (insert (object_ptr u) ?D)"
    using pr assms(2,5,6) by (intro paired_new [OF pr x]) (auto simp: paired_def)
  moreover have "insert (object_ptr u) ?D = ?D"
    using pr assms(2,6) by (auto simp: paired_def ran_def)
  ultimately show ?thesis using assms(8) by (simp add: sp_inv_def)
qed

lemma sp_copies_shared:
  assumes "sp_inv c" "sp_vars c y = Some u" "x \<notin> dom (sp_vars c)" "card (dom (sp_vars c)) < 2 ^ 64 - 1"
  shows "\<exists>h. sp_copy u (sp_store c) = Inr (u, h) \<and> sp_inv (c\<lparr>sp_vars := (sp_vars c)(x \<mapsto> u), sp_store := h\<rparr>)"
    and "\<exists>h. sp_copy_fn u d (sp_store c) = Inr (u\<lparr>deleter := d\<rparr>, h) \<and>
      sp_inv (c\<lparr>sp_vars := (sp_vars c)(x \<mapsto> u\<lparr>deleter := d\<rparr>), sp_store := h\<rparr>)"
proof -
  have "tallied (sp_vars c) (counters (sp_store c))" using assms(1) by (simp add: sp_inv_def)
  then have C: "counters (sp_store c) (ref_count u) = Some (of_nat (card (sharers (sp_vars c) (ref_count u))))"
    using assms(2) by (rule talliedD)
  show "\<exists>h. sp_copy u (sp_store c) = Inr (u, h) \<and> sp_inv (c\<lparr>sp_vars := (sp_vars c)(x \<mapsto> u), sp_store := h\<rparr>)"
    using C by (auto simp: sp_copy_def ref_up_def sp_line_def intro: shared_inv [OF assms])
  show "\<exists>h. sp_copy_fn u d (sp_store c) = Inr (u\<lparr>deleter := d\<rparr>, h) \<and>
      sp_inv (c\<lparr>sp_vars := (sp_vars c)(x \<mapsto> u\<lparr>deleter := d\<rparr>), sp_store := h\<rparr>)"
    using C by (auto simp: sp_copy_fn_def ref_up_def sp_line_def intro!: shared_inv [OF assms])
qed

lemma sp_destroy_shared:
  assumes "sp_inv c" "sp_vars c x = Some u" "deleter u = 0 \<or> sharers (sp_vars c) (ref_count u) \<noteq> {x}"
  shows "\<exists>h. sp_destroy u (sp_store c) = Inr h \<and> sp_inv (c\<lparr>sp_vars := (sp_vars c)(x := None), sp_store := h\<rparr>)"
proof -
  let ?V = "sp_vars c" and ?C = "counters (sp_store c)" and ?D = "dom (objects (sp_store c))"
  let ?n = "card (sharers ?V (ref_count u))"
  have cn: "tallied ?V ?C" and pr: "paired ?V ?D" using assms(1) by (simp_all add: sp_inv_def)
  have C: "?C (ref_count u) = Some (of_nat ?n)" using cn assms(2) by (rule talliedD)
  have d: "object_ptr u \<noteq> 0" "object_ptr u \<in> ?D" using pr assms(2) by (auto simp: paired_def ran_def)
  have xin: "x \<in> sharers ?V (ref_count u)" using assms(2) by (rule sharers_in)
  have one: "(of_nat ?n :: 64 word) = 1 \<longleftrightarrow> ?n = 1"
    using counter_value [OF cn, of "ref_count u"] by (metis of_nat_1 unsigned_1)
  have last: "sharers ?V (ref_count u) = {x} \<longleftrightarrow> ?n = 1"
    using xin by (auto simp: card_1_singleton_iff)
  note down = tallied_down [of ?V ?C x u, OF cn assms(2)]
  note drop = paired_drop [of ?V ?D x u, OF pr assms(2)]
  show ?thesis
  proof (cases "?n = 1")
    case True
    have "tallied (?V(x := None)) (?C(ref_count u := None))" by (rule down) (simp only: True simp_thms if_True)
    moreover have "paired (?V(x := None)) (?D - {object_ptr u})" using drop by (simp only: last True simp_thms if_True)
    moreover have "deleter u = 0" using assms(3) last True by blast
    ultimately show ?thesis
      using C True d
      by (simp add: sp_destroy_def reduce_ref_def delete_object_def sp_inv_def sp_line_def Let_def domIff)
  next
    case False
    then have "(of_nat ?n :: 64 word) - 1 \<noteq> 0" using one by simp
    moreover have "tallied (?V(x := None)) (?C(ref_count u \<mapsto> of_nat ?n - 1))"
      by (rule down) (simp only: False if_False)
    moreover have "paired (?V(x := None)) ?D" using drop by (simp only: last False if_False)
    ultimately show ?thesis
      using C one False by (simp add: sp_destroy_def reduce_ref_def sp_inv_def Let_def)
  qed
qed

lemma sp_destroy_stops:
  assumes "sp_inv c" "sp_vars c x = Some u" "deleter u \<noteq> 0" "sharers (sp_vars c) (ref_count u) = {x}"
  shows "sp_destroy u (sp_store c) = Inl Not_A_Function"
proof -
  have "tallied (sp_vars c) (counters (sp_store c))" using assms(1) by (simp add: sp_inv_def)
  from talliedD(3) [OF this assms(2)] have "counters (sp_store c) (ref_count u) = Some 1" using assms(4) by simp
  then show ?thesis using assms(3) by (simp add: sp_destroy_def reduce_ref_def)
qed

text \<open>The last destructor of an object with a deleter.\<close>

definition calls_deleter :: "sp_op \<Rightarrow> sp_client \<Rightarrow> bool" where
  "calls_deleter p c \<longleftrightarrow> (\<exists>x u. p = Drop x \<and> sp_vars c x = Some u \<and> deleter u \<noteq> 0 \<and> sharers (sp_vars c) (ref_count u) = {x})"

lemma made_inv:
  assumes "sp_inv c" "x \<notin> dom (sp_vars c)" "a \<noteq> 0" "a \<notin> dom (objects (sp_store c))" "r \<notin> dom (counters (sp_store c))"
    and "card (dom (sp_vars c)) < 2 ^ 64 - 1" "object_ptr u = a" "ref_count u = r"
    and "counters h = (counters (sp_store c))(r \<mapsto> 1)" "objects h = (objects (sp_store c))(a \<mapsto> v)"
  shows "sp_inv (c\<lparr>sp_vars := (sp_vars c)(x \<mapsto> u), sp_store := h\<rparr>)"
proof -
  have cn: "tallied (sp_vars c) (counters (sp_store c))" and pr: "paired (sp_vars c) (dom (objects (sp_store c)))"
    using assms(1) by (simp_all add: sp_inv_def)
  have x: "sp_vars c x = None" using assms(2) by (simp add: domIff)
  have none: "sharers (sp_vars c) r = {}" by (rule talliedD(4) [OF cn assms(5)])
  have "tallied ((sp_vars c)(x \<mapsto> u)) (counters h)"
    by (rule tallied_up [OF cn x assms(6)]) (simp add: none assms(8,9))
  moreover have "paired ((sp_vars c)(x \<mapsto> u)) (insert (object_ptr u) (dom (objects (sp_store c))))"
  proof (rule paired_new [OF pr x])
    show "object_ptr u \<noteq> 0" using assms(3,7) by simp
    fix y w
    assume y: "sp_vars c y = Some w"
    then have "ref_count w \<noteq> ref_count u" using none assms(8) by (auto simp: sharers_def)
    moreover have "object_ptr w \<in> dom (objects (sp_store c))" using pr y unfolding paired_def by (metis imageI ranI)
    then have "object_ptr w \<noteq> object_ptr u" using assms(4,7) by metis
    ultimately show "ref_count u = ref_count w \<longleftrightarrow> object_ptr u = object_ptr w" by simp
  qed
  ultimately show ?thesis using assms(7,10) by (simp add: sp_inv_def)
qed

lemma run_sp_op_shared:
  assumes "sp_inv c" "sp_legal p c"
  shows "calls_deleter p c \<Longrightarrow> run_sp_op p c = Some (Inl Not_A_Function)"
    and "\<not> calls_deleter p c \<Longrightarrow> \<exists>c'. run_sp_op p c = Some (Inr c') \<and> sp_inv c'"
proof -
  show "run_sp_op p c = Some (Inl Not_A_Function)" if "calls_deleter p c"
    using that sp_destroy_stops [OF assms(1)] by (auto simp: calls_deleter_def)
  assume ok: "\<not> calls_deleter p c"
  show "\<exists>c'. run_sp_op p c = Some (Inr c') \<and> sp_inv c'"
  proof (cases p)
    case (Share_new x a v r)
    then show ?thesis using assms(2) by (auto simp: sp_from_def intro!: made_inv [OF assms(1), where a = a and r = r and v = v])
  next
    case (Share_new_fn x a v r d)
    then show ?thesis using assms(2) by (auto simp: sp_from_fn_def sp_line_def intro!: made_inv [OF assms(1), where a = a and r = r and v = v])
  next
    case (Share x y)
    then show ?thesis using sp_copies_shared(1) [OF assms(1), of y _ x] assms(2) by fastforce
  next
    case (Share_fn x y d)
    then show ?thesis using sp_copies_shared(2) [OF assms(1), of y _ x d] assms(2) by fastforce
  next
    case (Drop x)
    then obtain u where u: "sp_vars c x = Some u" using assms(2) by auto
    then have "deleter u = 0 \<or> sharers (sp_vars c) (ref_count u) \<noteq> {x}" using ok Drop by (auto simp: calls_deleter_def)
    then show ?thesis using sp_destroy_shared [OF assms(1) u] Drop u by fastforce
  next
    case (Assign x y)
    then show ?thesis
      using assms by (auto simp: sp_assign_def fun_upd_idem split: option.splits)
  qed
qed

text \<open>A legal run goes on to its end or to the first call of a deleter.\<close>

lemma run_sp_shared:
  "sp_inv c \<Longrightarrow> all_sp_legal ps c \<Longrightarrow> \<exists>qs c'. run_sp qs c = Some (Inr c') \<and> sp_inv c' \<and>
     (qs = ps \<or> (\<exists>p rest. ps = qs @ p # rest \<and> calls_deleter p c' \<and> run_sp ps c = Some (Inl Not_A_Function)))"
proof (induction ps arbitrary: c)
  case Nil
  then show ?case by (intro exI [of _ "[]"]) simp
next
  case (Cons p ps)
  have l: "sp_legal p c" using Cons.prems(2) by simp
  show ?case
  proof (cases "calls_deleter p c")
    case True
    then show ?thesis
      using run_sp_op_shared(1) [OF Cons.prems(1) l] Cons.prems(1) by (intro exI [of _ "[]"] exI [of _ c]) simp
  next
    case False
    then obtain d where d: "run_sp_op p c = Some (Inr d)" "sp_inv d" using run_sp_op_shared(2) [OF Cons.prems(1) l] by blast
    then obtain qs e where "run_sp qs d = Some (Inr e)" "sp_inv e"
      "qs = ps \<or> (\<exists>p rest. ps = qs @ p # rest \<and> calls_deleter p e \<and> run_sp ps d = Some (Inl Not_A_Function))"
      using Cons.IH [of d] Cons.prems(2) by auto
    then show ?thesis using d by (intro exI [of _ "p # qs"] exI [of _ e]) auto
  qed
qed

text \<open>Without the constructors with a deleter there is none to call.\<close>

fun plain_op :: "sp_op \<Rightarrow> bool" where
  "plain_op (Share_new_fn _ _ _ _ _) = False" | "plain_op (Share_fn _ _ _) = False" | "plain_op _ = True"

lemma plain_no_deleter:
  "list_all plain_op ps \<Longrightarrow> run_sp ps c = Some (Inr c') \<Longrightarrow> \<forall>x u. sp_vars c x = Some u \<longrightarrow> deleter u = 0 \<Longrightarrow>
     sp_vars c' x = Some u \<Longrightarrow> deleter u = 0"
proof (induction ps arbitrary: c)
  case (Cons p ps)
  obtain d where d: "run_sp_op p c = Some (Inr d)" "run_sp ps d = Some (Inr c')"
    using Cons.prems(2) by (auto split: option.splits sum.splits)
  have "\<forall>x u. sp_vars d x = Some u \<longrightarrow> deleter u = 0"
  proof (cases p)
    case (Drop x)
    then obtain v h where "d = c\<lparr>sp_vars := (sp_vars c)(x := None), sp_store := h\<rparr>"
      using d(1) by (cases "sp_destroy (the (sp_vars c x)) (sp_store c)") auto
    then show ?thesis using Cons.prems(3) by simp
  qed (use d(1) Cons.prems(1,3) in \<open>auto simp: sp_from_def sp_copy_def sp_assign_def split: sum.splits option.splits if_splits\<close>)
  then show ?case using Cons.IH [OF _ d(2)] Cons.prems(1,4) by simp
qed simp

section \<open>Where they do not\<close>

text \<open>
  Assigning a pointer to another object: the counter of the assigned object stays at 1 although two pointers
  share it, so that the destructors of both end in a use of the deleted counter.
\<close>

definition assign_main :: "nat \<Rightarrow> nat \<Rightarrow> nat \<Rightarrow> nat \<Rightarrow> sp_op list" where
  "assign_main a r b s = [Share_new 0 a 12 r, Share_new 1 b 13 s, Assign 0 1, Drop 1, Drop 0]"

lemma assign_main_fails:
  assumes "a \<noteq> 0" "b \<noteq> 0" "a \<noteq> b" "r \<noteq> s"
  shows "run_sp (assign_main a r b s) no_sp_client = Some (Inl Counter_Deleted)"
  using assms
  by (simp add: assign_main_def no_sp_client_def sp_from_def sp_assign_def reduce_ref_def sp_destroy_def
      delete_object_def sp_line_def Let_def domIff split: sum.split)

lemma assign_no_return:
  "sp_assign u v h = Inr (b, u', h') \<Longrightarrow> b \<longleftrightarrow> ref_count v = ref_count u"
  by (auto simp: sp_assign_def split: sum.splits if_splits)

text \<open>The program of the file stops at the call of the deleter, whatever the heap.\<close>

lemma shared_ptr_main_stops: "d \<noteq> 0 \<Longrightarrow> shared_ptr_main a r d h = Inl Not_A_Function"
  by (simp add: shared_ptr_main_def sp_from_fn_def use_count_def sp_destroy_def reduce_ref_def sp_line_def Let_def)

text \<open>\<open>operator bool\<close> is true for the null pointer only.\<close>

lemma sp_bool_null: "sp_bool u \<longleftrightarrow> sp_get u = 0"
  by (simp add: sp_bool_def sp_get_def)

end
