(* ===== verification/Sort_Unique.thy ===== *)
theory Sort_Unique
  imports Clib "HOL-Library.List_Lexorder" "HOL-Library.Char_ord"
begin

text \<open>
  \<open>Reference/algorithm/iterator.cpp\<close>: lines are read up to an empty one, sorted, and adjacent equal
  ones removed with \<open>std::unique\<close> and \<open>erase\<close>. Strings are compared as \<open>less<string>\<close> does, byte by
  byte. What \<open>std::unique\<close> leaves behind its result is unspecified: the argument \<open>junk\<close>.
\<close>

text \<open>\<open>while (getline(cin, str)) { if (str.size() == 0) break; vec.push_back(str); }\<close>\<close>

fun read_lines :: "string list \<Rightarrow> string list" where
  "read_lines [] = []"
| "read_lines (str # rest) = (if length str = 0 then [] else str # read_lines rest)"

text \<open>\<open>print\<close> of a vector, up to the end of the line.\<close>

fun print_vec :: "string list \<Rightarrow> string" where
  "print_vec [] = ''end'' @ [LF]"
| "print_vec (v # vs) = v @ '' '' @ print_vec vs"

definition std_unique :: "(string list \<Rightarrow> string list) \<Rightarrow> string list \<Rightarrow> string list \<times> nat" where
  "std_unique junk vec =
     (let kept = remdups_adj vec in (kept @ take (length vec - length kept) (junk vec), length kept))"

definition sort_unique_fn :: "(string list \<Rightarrow> string list) \<Rightarrow> string list \<Rightarrow> string" where
  "sort_unique_fn junk input =
     (let vec = read_lines input; sorted_vec = sort vec
      in case std_unique junk sorted_vec of (vec', unique_end) \<Rightarrow>
        ''Your input is: '' @ print_vec vec @ print_vec vec' @ print_vec (take unique_end vec'))"

lemma distinct_remdups_adj: "sorted xs \<Longrightarrow> distinct (remdups_adj xs)" for xs :: "'a :: linorder list"
  by (induction xs rule: remdups_adj.induct) auto

lemma remdups_adj_sort: "remdups_adj (sort xs) = sorted_list_of_set (set xs)" for xs :: "'a :: linorder list"
  using sorted_list_of_set.idem_if_sorted_distinct [of "remdups_adj (sort xs)"]
  by (simp add: distinct_remdups_adj)

lemma read_lines_takeWhile: "read_lines input = takeWhile (\<lambda>l. l \<noteq> []) input"
  by (induction input) simp_all

text \<open>What is printed last does not depend on the junk, nor on the order or repetition of the lines.\<close>

lemma sort_unique_prints:
  "sort_unique_fn junk input = ''Your input is: '' @ print_vec (read_lines input) @
     print_vec (fst (std_unique junk (sort (read_lines input)))) @
     print_vec (sorted_list_of_set (set (read_lines input)))"
  by (simp add: sort_unique_fn_def std_unique_def Let_def remdups_adj_sort)

end
