(* ===== verification/Lambda_Filter.thy ===== *)
theory Lambda_Filter
  imports Sort_Unique "HOL-Library.Multiset"
begin

text \<open>
  \<open>CXXPRIMER/lambda_and_bind.cpp\<close>: a list sorted with a comparison from large to small and printed
  without three of its values, and the same choice made with a bound function. \<open>std::sort\<close> on numbers has
  one result, the sorted list.
\<close>

definition kept :: "int \<Rightarrow> int \<Rightarrow> int \<Rightarrow> int \<Rightarrow> bool" where
  "kept a b c val \<longleftrightarrow> val \<noteq> a \<and> val \<noteq> b \<and> val \<noteq> c"

text \<open>\<open>std::sort\<close> with \<open>a > b\<close>.\<close>

definition sort_desc :: "int list \<Rightarrow> int list" where
  "sort_desc xs = rev (sort xs)"

definition numbers :: "int list" where
  "numbers = [0, 1, 2, 23, 324, 435, 435, 657, 67, 3345, 43]"

text \<open>The first part of \<open>lambda\<close>: \<open>except_a0\<close>, \<open>except_a1\<close> and \<open>except_a2\<close> are 0, 1 and 2.\<close>

definition print_kept_desc :: "int \<Rightarrow> int \<Rightarrow> int \<Rightarrow> int list \<Rightarrow> int list" where
  "print_kept_desc a0 a1 a2 xs = filter (kept a0 a1 a2) (sort_desc xs)"

text \<open>The counter \<open>f\<close> has its own copy of \<open>v1\<close>, made before \<open>v1\<close> is set to 0.\<close>

definition captured_counter :: "int \<Rightarrow> int" where
  "captured_counter v1 = (let copy = v1 in copy + 1)"

definition lambda_fn :: "int list" where
  "lambda_fn = print_kept_desc 0 1 2 numbers @ [captured_counter 42]"

definition filter_fn :: "int \<Rightarrow> int \<Rightarrow> int \<Rightarrow> int \<Rightarrow> int list" where
  "filter_fn val a b c = (if val \<noteq> a \<and> val \<noteq> b \<and> val \<noteq> c then [val] else [])"

text \<open>\<open>bind(f, _1, 43, 2, 0)\<close> called for each number.\<close>

definition bind_fn :: "int list \<Rightarrow> int list" where
  "bind_fn xs = concat (map (\<lambda>val. filter_fn val 43 2 0) xs)"

definition lambda_main :: "int list" where
  "lambda_main = lambda_fn @ bind_fn numbers"

lemma concat_filter_fn: "concat (map (\<lambda>val. filter_fn val a b c) xs) = filter (kept a b c) xs"
  by (induction xs) (simp_all add: filter_fn_def kept_def)

text \<open>Both print the same values for the same three exceptions; the lambda from large to small.\<close>

lemma print_kept_desc_spec:
  "sorted (rev (print_kept_desc a b c xs)) \<and> mset (print_kept_desc a b c xs) = mset (filter (kept a b c) xs)"
  by (simp add: print_kept_desc_def sort_desc_def rev_filter sorted_wrt_filter)

lemma bind_fn_spec: "bind_fn xs = filter (kept 43 2 0) xs"
  by (simp add: bind_fn_def concat_filter_fn)

lemma lambda_main_prints:
  "lambda_main = [3345, 657, 435, 435, 324, 67, 43, 23, 43, 1, 23, 324, 435, 435, 657, 67, 3345]"
  by code_simp

end
