(* ===== verification/Pool_Server.thy ===== *)
theory Pool_Server
  imports Stats_Conc Progress "HOL-Library.Multiset"
begin

text \<open>
  The whole servers whose workers take their connections from \<open>accept\<close>, under every schedule. A worker
  takes the next connection from the backlog of its socket, waits for the request, reads the counter of
  requests for \<open>/statistics\<close>, calls \<open>write_code\<close> for its one reply (\<open>Process_Handling\<close>, \<open>Request_Handling\<close>)
  and goes on to the end of \<open>do_call\<close>; the steps on the counters are those of \<open>Stats_Conc\<close>. The clients
  \<open>conns\<close> connect in their order, each at any time and to any of the sockets; one that is refused has not
  connected yet. An interrupted \<open>accept\<close> is no step, because it is repeated; \<open>accept\<close> and the \<open>fork\<close> or
  \<open>pthread_create\<close> after it are one step.

  Three kinds of clients are trouble. One for which \<open>silent\<close> holds never completes its request and does not
  go away: its worker waits in \<open>recv\<close> for ever, because there is no time limit. One for which \<open>endless\<close>
  holds asks for a script that never lets its worker go (\<open>waitpid\<close> in the clean-up, see
  \<open>stop_never_escalates\<close>). One for which \<open>leaves\<close> holds may go away, and SIGPIPE, which nobody handles, may then
  kill the child that sends to it (outside the protected parts, which send nothing).
\<close>

section \<open>The four servers\<close>

text \<open>
  They differ in \<open>write_code\<close>, which gives the semaphore back or not; in the workers, which end after their
  connection (one child or thread is made for each) or go back to \<open>accept\<close>; in \<open>/statistics\<close>, for which
  \<open>multi_server.c\<close> reads the counter without the semaphore (one read, no step here); and in the sockets: one for
  all, or one for each worker on the same port (\<open>SO_REUSEPORT\<close>). In the servers with threads, which run no
  scripts, the clients stay: there SIGPIPE would end the whole server.
\<close>

record pool_conf =
  gives_back :: bool
  one_shot :: bool
  locked_read :: bool
  socket_of :: "nat \<Rightarrow> nat"
  leaves :: "nat \<Rightarrow> bool"
  silent :: "nat \<Rightarrow> bool"
  endless :: "nat \<Rightarrow> bool"

definition forking :: "(nat \<Rightarrow> bool) \<Rightarrow> (nat \<Rightarrow> bool) \<Rightarrow> (nat \<Rightarrow> bool) \<Rightarrow> pool_conf" where
  "forking L S K = \<lparr>gives_back = True, one_shot = True, locked_read = False, socket_of = (\<lambda>_. 0),
     leaves = L, silent = S, endless = K\<rparr>"

definition pre_forked :: "(nat \<Rightarrow> bool) \<Rightarrow> (nat \<Rightarrow> bool) \<Rightarrow> (nat \<Rightarrow> bool) \<Rightarrow> pool_conf" where
  "pre_forked L S K = \<lparr>gives_back = True, one_shot = False, locked_read = True, socket_of = (\<lambda>t. t),
     leaves = L, silent = S, endless = K\<rparr>"

definition thread_each :: "(nat \<Rightarrow> bool) \<Rightarrow> pool_conf" where
  "thread_each S = \<lparr>gives_back = False, one_shot = True, locked_read = True, socket_of = (\<lambda>_. 0),
     leaves = (\<lambda>_. False), silent = S, endless = (\<lambda>_. False)\<rparr>"

definition pre_created :: "(nat \<Rightarrow> bool) \<Rightarrow> pool_conf" where
  "pre_created S = \<lparr>gives_back = False, one_shot = False, locked_read = True, socket_of = (\<lambda>_. 0),
     leaves = (\<lambda>_. False), silent = S, endless = (\<lambda>_. False)\<rparr>"

lemmas pool_confs = forking_def pre_forked_def thread_each_def pre_created_def

section \<open>The workers\<close>

text \<open>Waiting in \<open>accept\<close>; with a connection, before and after the locked read; after \<open>write_code\<close>; ended or killed.\<close>

datatype job = In_accept | Has_request nat | Has_read nat | Replying nat | Ended

record pool_sys =
  coming :: "nat list"
  unaccepted :: "(nat \<times> nat) list"
  taken :: "nat list"
  finished :: "nat list"
  lost :: "nat list"
  reset :: "nat list"
  pjobs :: "nat \<Rightarrow> job"
  pw :: wsys

definition pool_init :: "nat list \<Rightarrow> pool_sys" where
  "pool_init conns = \<lparr>coming = conns, unaccepted = [], taken = [], finished = [], lost = [], reset = [],
     pjobs = (\<lambda>_. In_accept), pw = wsys_init\<rparr>"

text \<open>
  When the request is there, the counter is read at most once for a connection, before \<open>write_code\<close>.
\<close>

fun may_start :: "pool_conf \<Rightarrow> job \<Rightarrow> wpc \<Rightarrow> bool" where
  "may_start C (Has_request x) p = (\<not> silent C x \<and> (p = R_wait \<longrightarrow> locked_read C))"
| "may_start C (Has_read _) p = (p \<noteq> R_wait)"
| "may_start C _ _ = False"

fun after_read :: "job \<Rightarrow> job" where
  "after_read (Has_request x) = Has_read x" | "after_read j = j"

fun after_code :: "job \<Rightarrow> job" where
  "after_code (Has_request x) = Replying x" | "after_code (Has_read x) = Replying x" | "after_code j = j"

definition job_after :: "wpc \<Rightarrow> wpc \<Rightarrow> job \<Rightarrow> job" where
  "job_after p p' j =
     (case p of W_idle \<Rightarrow> if p' = R_wait then after_read j else j | W_post _ \<Rightarrow> after_code j | _ \<Rightarrow> j)"

fun job_conns :: "job \<Rightarrow> nat list" where
  "job_conns (Has_request x) = [x]" | "job_conns (Has_read x) = [x]" | "job_conns (Replying x) = [x]"
| "job_conns _ = []"

text \<open>
  With a worker of a pool its socket goes: nobody connects to it any more, and the clients in its backlog
  are reset. The parent only waits for its children; it does not replace one.
\<close>

definition own_backlog :: "pool_conf \<Rightarrow> nat \<Rightarrow> nat \<times> nat \<Rightarrow> bool" where
  "own_backlog C t p \<longleftrightarrow> \<not> one_shot C \<and> fst p = socket_of C t"

inductive pool_step :: "pool_conf \<Rightarrow> nat \<Rightarrow> pool_sys \<Rightarrow> pool_sys \<Rightarrow> bool" for C n where
  pl_connect: "coming s = x # xs \<Longrightarrow> t < n \<Longrightarrow> one_shot C \<or> pjobs s t \<noteq> Ended \<Longrightarrow>
    pool_step C n s (s\<lparr>coming := xs, unaccepted := unaccepted s @ [(socket_of C t, x)]\<rparr>)"
| pl_accept: "t < n \<Longrightarrow> pjobs s t = In_accept \<Longrightarrow> unaccepted s = xs @ (socket_of C t, x) # ys \<Longrightarrow>
    socket_of C t \<notin> fst ` set xs \<Longrightarrow>
    pool_step C n s
      (s\<lparr>unaccepted := xs @ ys, taken := taken s @ [x], pjobs := (pjobs s)(t := Has_request x)\<rparr>)"
| pl_count: "wstep (gives_back C) n (pw s) w \<Longrightarrow> t < n \<Longrightarrow> wpcs w t \<noteq> wpcs (pw s) t \<Longrightarrow>
    wpcs (pw s) t = W_idle \<longrightarrow> may_start C (pjobs s t) (wpcs w t) \<Longrightarrow>
    pool_step C n s
      (s\<lparr>pw := w, pjobs := (pjobs s)(t := job_after (wpcs (pw s) t) (wpcs w t) (pjobs s t))\<rparr>)"
| pl_replied: "t < n \<Longrightarrow> pjobs s t = Replying x \<Longrightarrow> \<not> endless C x \<Longrightarrow>
    pool_step C n s
      (s\<lparr>finished := finished s @ [x], pjobs := (pjobs s)(t := (if one_shot C then Ended else In_accept))\<rparr>)"
| pl_killed: "t < n \<Longrightarrow> job_conns (pjobs s t) = [x] \<Longrightarrow> leaves C x \<Longrightarrow> wpcs (pw s) t = W_idle \<Longrightarrow>
    \<not> (pjobs s t = Has_request x \<and> silent C x) \<Longrightarrow>
    pool_step C n s
      (s\<lparr>lost := lost s @ [x], pjobs := (pjobs s)(t := Ended),
         reset := reset s @ map snd (filter (own_backlog C t) (unaccepted s)),
         unaccepted := filter (\<lambda>p. \<not> own_backlog C t p) (unaccepted s)\<rparr>)"

section \<open>One step of one worker\<close>

fun wnext :: "wpc \<Rightarrow> wpc \<Rightarrow> bool" where
  "wnext W_idle p \<longleftrightarrow> p = R_wait \<or> (\<exists>c. p = W_wait c)"
| "wnext (W_wait c) p \<longleftrightarrow> p = W_load c"
| "wnext (W_load c) p \<longleftrightarrow> (\<exists>x. p = W_store c x)"
| "wnext (W_store c _) p \<longleftrightarrow> p = W_cload c"
| "wnext (W_cload c) p \<longleftrightarrow> p = W_post c \<or> (\<exists>v. p = W_cstore c v)"
| "wnext (W_cstore c _) p \<longleftrightarrow> p = W_post c"
| "wnext (W_post _) p \<longleftrightarrow> p = W_idle"
| "wnext R_wait p \<longleftrightarrow> p = R_read"
| "wnext R_read p \<longleftrightarrow> p = R_post"
| "wnext R_post p \<longleftrightarrow> p = W_idle"

fun done_by :: "wpc \<Rightarrow> int list" where
  "done_by (W_post c) = [c]" | "done_by _ = []"

lemma wstep_local:
  assumes "wstep posts n s w" "wpcs w t \<noteq> wpcs s t"
  shows "wpcs w = (wpcs s)(t := wpcs w t)" and "wnext (wpcs s t) (wpcs w t)"
    and "done_log w = done_log s @ done_by (wpcs s t)"
proof -
  have "wpcs w = (wpcs s)(t := wpcs w t) \<and> wnext (wpcs s t) (wpcs w t) \<and> done_log w = done_log s @ done_by (wpcs s t)"
    using assms by cases (auto split: if_splits)
  then show "wpcs w = (wpcs s)(t := wpcs w t)" "wnext (wpcs s t) (wpcs w t)"
    "done_log w = done_log s @ done_by (wpcs s t)" by blast+
qed

text \<open>The worker in the protected part can go on, as long as the counters are below the limit.\<close>

lemma section_can_move:
  assumes r: "wreach posts n s" and d: "int (length (done_log s)) < INT_MAX"
    and u: "u < n" "in_section (wpcs s u) = 1"
  shows "\<exists>w. wstep posts n s w \<and> wpcs w u \<noteq> wpcs s u"
proof -
  obtain st where st: "count_all (done_log s) init_statistics = Some st" "in_flight (wpcs s u) st (wshm s)"
    using count_inv_flight [OF wreach_count_inv [OF r] u] by blast
  have req: "requests st = int (length (done_log s))"
    using count_all_requests [OF st(1)] by (simp add: init_statistics_def)
  have si: "stats_inv st" by (rule count_all_inv [OF st(1) stats_inv_init])
  show ?thesis
  proof (cases "wpcs s u")
    case (W_load c)
    show ?thesis by (rule exI, rule conjI, rule wstep.w_load [OF u(1) W_load]) (simp add: W_load)
  next
    case (W_store c x)
    then have i: "incr x = Some (x + 1)" using st(2) d req by (simp add: incr_def)
    show ?thesis by (rule exI, rule conjI, rule wstep.w_store [OF u(1) W_store i]) (simp add: W_store)
  next
    case (W_cload c)
    show ?thesis
    proof (cases "class_get c (wshm s)")
      case None
      show ?thesis by (rule exI, rule conjI, rule wstep.w_default [OF u(1) W_cload None]) (simp add: W_cload)
    next
      case (Some v)
      show ?thesis by (rule exI, rule conjI, rule wstep.w_cload [OF u(1) W_cload Some]) (simp add: W_cload)
    qed
  next
    case (W_cstore c v)
    then have "v < INT_MAX" using st(2) si d req
      by (auto simp: stats_inv_def class_sum_def class_get_def Let_def split: if_splits)
    then have i: "incr v = Some (v + 1)" by (simp add: incr_def)
    show ?thesis by (rule exI, rule conjI, rule wstep.w_cstore [OF u(1) W_cstore i]) (simp add: W_cstore)
  next
    case (W_post c)
    show ?thesis by (rule exI, rule conjI, rule wstep.w_post [OF u(1) W_post]) (simp add: W_post)
  next
    case R_read
    show ?thesis by (rule exI, rule conjI, rule wstep.r_read [OF u(1) R_read]) (simp add: R_read)
  next
    case R_post
    show ?thesis by (rule exI, rule conjI, rule wstep.r_post [OF u(1) R_post]) (simp add: R_post)
  qed (use u(2) in auto)
qed

section \<open>The connections\<close>

fun job_ok :: "job \<Rightarrow> wpc \<Rightarrow> bool" where
  "job_ok (Has_request _) p \<longleftrightarrow> p \<notin> {R_wait, R_read, R_post}"
| "job_ok (Has_read _) p \<longleftrightarrow> True"
| "job_ok _ p \<longleftrightarrow> p = W_idle"

definition used :: "job \<Rightarrow> nat" where
  "used j = (if j = In_accept then 0 else 1)"

definition ended :: "job \<Rightarrow> nat" where
  "ended j = (if j = Ended then 1 else 0)"

fun replying :: "job \<Rightarrow> nat" where
  "replying (Replying _) = 1" | "replying _ = 0"

text \<open>A worker is made for each connection and not used again; in a pool only those that were killed have ended.\<close>

definition used_ok :: "pool_conf \<Rightarrow> nat \<Rightarrow> pool_sys \<Rightarrow> bool" where
  "used_ok C n s \<longleftrightarrow>
     (if one_shot C then sum_over used n (pjobs s) = length (taken s) else sum_over ended n (pjobs s) = length (lost s))"

text \<open>Whose socket a waiting client is at still accepts.\<close>

definition sockets_ok :: "pool_conf \<Rightarrow> nat \<Rightarrow> pool_sys \<Rightarrow> bool" where
  "sockets_ok C n s \<longleftrightarrow>
     (\<forall>p \<in> set (unaccepted s). \<exists>t < n. socket_of C t = fst p \<and> (one_shot C \<or> pjobs s t \<noteq> Ended))"

text \<open>Only replies are counted, and at most one for each connection.\<close>

definition replies_ok :: "nat \<Rightarrow> pool_sys \<Rightarrow> bool" where
  "replies_ok n s \<longleftrightarrow> length (finished s) + sum_over replying n (pjobs s) \<le> length (done_log (pw s)) \<and>
     length (done_log (pw s)) \<le> length (finished s) + sum_over replying n (pjobs s) + length (lost s)"

text \<open>Every client is waiting, in the hands of one worker, answered or lost.\<close>

definition pool_inv :: "nat list \<Rightarrow> pool_conf \<Rightarrow> nat \<Rightarrow> pool_sys \<Rightarrow> bool" where
  "pool_inv conns C n s \<longleftrightarrow> wreach (gives_back C) n (pw s) \<and>
     mset conns = mset (taken s) + mset (map snd (unaccepted s)) + mset (reset s) + mset (coming s) \<and>
     mset (taken s) = sum_over (\<lambda>j. mset (job_conns j)) n (pjobs s) + mset (finished s) + mset (lost s) \<and>
     (\<forall>x \<in> set (lost s). leaves C x) \<and> (one_shot C \<or> lost s = [] \<longrightarrow> reset s = []) \<and>
     (\<forall>t. job_ok (pjobs s t) (wpcs (pw s) t)) \<and> used_ok C n s \<and> sockets_ok C n s \<and> replies_ok n s"

lemma pool_invD:
  assumes "pool_inv conns C n s"
  shows "wreach (gives_back C) n (pw s)"
    and "mset conns = mset (taken s) + mset (map snd (unaccepted s)) + mset (reset s) + mset (coming s)"
    and "mset (taken s) = sum_over (\<lambda>j. mset (job_conns j)) n (pjobs s) + mset (finished s) + mset (lost s)"
    and "x \<in> set (lost s) \<Longrightarrow> leaves C x" and "one_shot C \<or> lost s = [] \<Longrightarrow> reset s = []"
    and "job_ok (pjobs s t) (wpcs (pw s) t)" and "used_ok C n s" and "sockets_ok C n s" and "replies_ok n s"
  using assms by (auto simp: pool_inv_def)

lemma job_idle:
  assumes "pool_inv conns C n s" "pjobs s t \<in> {In_accept, Ended} \<or> replying (pjobs s t) = 1"
  shows "wpcs (pw s) t = W_idle"
  using pool_invD(6) [OF assms(1), of t] assms(2) by (cases "pjobs s t") auto

lemma pool_inv_init: "pool_inv conns C n (pool_init conns)"
  by (simp add: pool_inv_def pool_init_def sum_over_def wreach.wr_start used_ok_def used_def ended_def sockets_ok_def replies_ok_def)
    (simp add: wsys_init_def)

lemma job_after_ok:
  assumes "job_ok j p" "wnext p p'" "p = W_idle \<longrightarrow> may_start C j p'"
  shows "job_ok (job_after p p' j) p'" and "job_conns (job_after p p' j) = job_conns j"
    and "used (job_after p p' j) = used j" and "ended (job_after p p' j) = ended j"
    and "replying (job_after p p' j) = replying j + length (done_by p)"
    and "job_after p p' j = Ended \<longleftrightarrow> j = Ended"
  using assms by (cases j; cases p; auto simp: job_after_def used_def ended_def)+

text \<open>One worker \<open>t\<close> gets the job \<open>j\<close>: what is left to show of the invariant.\<close>

lemma pool_inv_job:
  assumes inv: "pool_inv conns C n s" and t: "t < n" and s': "pjobs s' = (pjobs s)(t := j)"
    and w: "wreach (gives_back C) n (pw s')" and pcs: "wpcs (pw s') = (wpcs (pw s))(t := p)" and ok: "job_ok j p"
    and conns: "mset conns = mset (taken s') + mset (map snd (unaccepted s')) + mset (reset s') + mset (coming s')"
    and busy: "mset (taken s') + mset (job_conns (pjobs s t)) + mset (finished s) + mset (lost s) =
      mset (taken s) + mset (job_conns j) + mset (finished s') + mset (lost s')"
    and lost: "\<forall>x \<in> set (lost s'). leaves C x" and reset: "one_shot C \<or> lost s' = [] \<longrightarrow> reset s' = []"
    and used: "one_shot C \<Longrightarrow> length (taken s') + used (pjobs s t) = length (taken s) + used j"
    and ended: "\<not> one_shot C \<Longrightarrow> length (lost s') + ended (pjobs s t) = length (lost s) + ended j"
    and sockets: "sockets_ok C n s'"
    and done_lo: "length (finished s') + replying j + length (done_log (pw s)) \<le>
      length (finished s) + replying (pjobs s t) + length (done_log (pw s'))"
    and done_hi: "length (done_log (pw s')) + length (finished s) + replying (pjobs s t) + length (lost s) \<le>
      length (done_log (pw s)) + length (finished s') + replying j + length (lost s')"
  shows "pool_inv conns C n s'"
proof -
  note upd = sum_over_upd [OF t, of _ "pjobs s" j]
  let ?B = "\<lambda>f. sum_over (\<lambda>j. mset (job_conns j)) n f"
  have "mset (taken s') = ?B (pjobs s') + mset (finished s') + mset (lost s')"
  proof -
    have "mset (taken s') + (mset (job_conns (pjobs s t)) + mset (finished s) + mset (lost s) + ?B (pjobs s)) =
        (?B (pjobs s') + mset (finished s') + mset (lost s')) +
        (mset (job_conns (pjobs s t)) + mset (finished s) + mset (lost s) + ?B (pjobs s))"
    proof -
      have "mset (taken s') + (mset (job_conns (pjobs s t)) + mset (finished s) + mset (lost s) + ?B (pjobs s)) =
          mset (taken s) + mset (job_conns j) + mset (finished s') + mset (lost s') + ?B (pjobs s)"
        using busy by (simp add: ac_simps)
      also have "\<dots> = ?B (pjobs s) + mset (finished s) + mset (lost s) + (?B (pjobs s) + mset (job_conns j)) +
          mset (finished s') + mset (lost s')"
        by (simp add: pool_invD(3) [OF inv] ac_simps)
      also have "?B (pjobs s) + mset (job_conns j) = ?B (pjobs s') + mset (job_conns (pjobs s t))"
        using upd [of "\<lambda>j. mset (job_conns j)"] s' by simp
      finally show ?thesis by (simp add: ac_simps)
    qed
    then show ?thesis by (rule add_right_imp_eq)
  qed
  moreover have "job_ok (pjobs s' u) (wpcs (pw s') u)" for u
    using pool_invD(6) [OF inv, of u] ok by (simp add: s' pcs)
  moreover have "used_ok C n s'"
    using pool_invD(7) [OF inv] used ended upd [of used] upd [of Pool_Server.ended] s'
    by (auto simp: used_ok_def split: if_splits)
  moreover have "replies_ok n s'"
    using pool_invD(9) [OF inv] done_lo done_hi upd [of replying] s' by (simp add: replies_ok_def)
  ultimately show ?thesis using w conns lost reset sockets by (simp add: pool_inv_def)
qed

lemma sockets_job:
  assumes "sockets_ok C n s" "set (unaccepted s') \<subseteq> set (unaccepted s)" "pjobs s' = (pjobs s)(t := j)"
    and "one_shot C \<or> (j = Ended \<longleftrightarrow> pjobs s t = Ended)"
  shows "sockets_ok C n s'"
  unfolding sockets_ok_def
proof
  fix p
  assume "p \<in> set (unaccepted s')"
  then obtain u where u: "u < n" "socket_of C u = fst p" "one_shot C \<or> pjobs s u \<noteq> Ended"
    using assms(1,2) unfolding sockets_ok_def by blast
  then have "one_shot C \<or> pjobs s' u \<noteq> Ended" using assms(3,4) by auto
  then show "\<exists>t < n. socket_of C t = fst p \<and> (one_shot C \<or> pjobs s' t \<noteq> Ended)" using u by blast
qed

lemma sockets_killed:
  assumes "sockets_ok C n s" "unaccepted s' = filter (\<lambda>p. \<not> own_backlog C t p) (unaccepted s)" "pjobs s' = (pjobs s)(t := Ended)"
  shows "sockets_ok C n s'"
  unfolding sockets_ok_def
proof
  fix p
  assume "p \<in> set (unaccepted s')"
  then have p: "p \<in> set (unaccepted s)" "one_shot C \<or> fst p \<noteq> socket_of C t" by (auto simp: assms(2) own_backlog_def)
  then obtain u where u: "u < n" "socket_of C u = fst p" "one_shot C \<or> pjobs s u \<noteq> Ended"
    using assms(1) unfolding sockets_ok_def by blast
  then have "one_shot C \<or> pjobs s' u \<noteq> Ended" using p(2) assms(3) by auto
  then show "\<exists>t < n. socket_of C t = fst p \<and> (one_shot C \<or> pjobs s' t \<noteq> Ended)" using u by blast
qed

lemma mset_map_filter:
  "mset (map f xs) = mset (map f (filter P xs)) + mset (map f (filter (\<lambda>x. \<not> P x) xs))"
  by (induction xs) simp_all

lemma job_conns_one: "job_conns j = [x] \<Longrightarrow> used j = 1 \<and> ended j = 0 \<and> replying j \<le> 1"
  by (cases j) (simp_all add: used_def ended_def)

lemma pool_step_inv:
  assumes inv: "pool_inv conns C n s" and "pool_step C n s s'"
  shows "pool_inv conns C n s'"
  using assms(2)
proof cases
  case (pl_connect x xs t)
  then have "sockets_ok C n s'" using pool_invD(8) [OF inv] by (auto simp: sockets_ok_def)
  then show ?thesis
    using inv pl_connect by (simp add: pool_inv_def used_ok_def replies_ok_def)
next
  case (pl_accept t xs x ys)
  have "sockets_ok C n s'" if "\<not> one_shot C \<or> True"
    by (rule sockets_job [OF pool_invD(8) [OF inv], of _ t "Has_request x"]) (use pl_accept in auto)
  moreover have "wpcs (pw s) t = W_idle" by (rule job_idle [OF inv]) (simp add: pl_accept)
  ultimately show ?thesis
    using pl_accept pool_invD [OF inv]
    by (intro pool_inv_job [OF inv pl_accept(2), where j = "Has_request x" and p = W_idle])
       (auto simp: used_def ended_def fun_upd_idem)
next
  case (pl_count w t)
  note loc = wstep_local [OF pl_count(2,4)]
  note after = job_after_ok [OF pool_invD(6) [OF inv, of t] loc(2) pl_count(5)]
  let ?j = "job_after (wpcs (pw s) t) (wpcs w t) (pjobs s t)"
  have "wreach (gives_back C) n w" using pool_invD(1) [OF inv] pl_count(2) by (rule wreach.wr_step)
  moreover have "sockets_ok C n s'"
    by (rule sockets_job [OF pool_invD(8) [OF inv], of _ t ?j]) (use pl_count after(6) in simp_all)
  ultimately show ?thesis
    using pool_invD [OF inv] pl_count(1) after(1-5) loc(1,3)
    by (intro pool_inv_job [OF inv pl_count(3), where j = ?j and p = "wpcs w t"]) simp_all
next
  case (pl_replied t x)
  let ?j = "if one_shot C then Ended else In_accept"
  have "sockets_ok C n s'"
    by (rule sockets_job [OF pool_invD(8) [OF inv], of _ t ?j]) (use pl_replied in auto)
  moreover have "wpcs (pw s) t = W_idle" by (rule job_idle [OF inv]) (simp add: pl_replied)
  ultimately show ?thesis
    using pl_replied pool_invD [OF inv]
    by (intro pool_inv_job [OF inv pl_replied(2), where j = ?j and p = W_idle])
       (auto simp: used_def ended_def fun_upd_idem)
next
  case (pl_killed t x)
  note split = mset_map_filter [of snd "unaccepted s" "own_backlog C t"]
  have "mset conns = mset (taken s') + mset (map snd (unaccepted s')) + mset (reset s') + mset (coming s')"
    using pool_invD(2) [OF inv] pl_killed(1) split by (simp add: ac_simps)
  moreover have "one_shot C \<longrightarrow> reset s' = []"
    using pool_invD(5) [OF inv] pl_killed(1) by (simp add: own_backlog_def)
  moreover have "sockets_ok C n s'"
    by (rule sockets_killed [OF pool_invD(8) [OF inv], of _ t]) (use pl_killed in simp_all)
  ultimately show ?thesis
    using pl_killed pool_invD(1,4) [OF inv] job_conns_one [OF pl_killed(3)]
    by (intro pool_inv_job [OF inv pl_killed(2), where j = Ended and p = W_idle])
       (auto simp: used_def ended_def fun_upd_idem)
qed

lemma pool_reach_inv: "(pool_step C n)\<^sup>*\<^sup>* (pool_init conns) s \<Longrightarrow> pool_inv conns C n s"
  by (induction rule: rtranclp_induct) (auto intro: pool_inv_init pool_step_inv)

section \<open>Every schedule ends\<close>

fun prank :: "job \<times> wpc \<Rightarrow> nat" where
  "prank (In_accept, _) = 0" | "prank (Ended, _) = 0" | "prank (Replying _, _) = 1"
| "prank (Has_request _, W_idle) = 12"
| "prank (_, R_wait) = 11" | "prank (_, R_read) = 10" | "prank (_, R_post) = 9" | "prank (_, W_idle) = 8"
| "prank (_, W_wait _) = 7" | "prank (_, W_load _) = 6" | "prank (_, W_store _ _) = 5" | "prank (_, W_cload _) = 4"
| "prank (_, W_cstore _ _) = 3" | "prank (_, W_post _) = 2"

definition pool_dist :: "nat \<Rightarrow> pool_sys \<Rightarrow> nat" where
  "pool_dist n s = 14 * length (coming s) + 13 * length (unaccepted s) +
     sum_over prank n (\<lambda>t. (pjobs s t, wpcs (pw s) t))"

text \<open>A worker that a client holds up; the last state of a run.\<close>

fun held_up :: "pool_conf \<Rightarrow> job \<Rightarrow> bool" where
  "held_up C (Has_request x) = silent C x" | "held_up C (Replying x) = endless C x" | "held_up C _ = False"

lemma held_up_conns: "held_up C j \<Longrightarrow> job_conns j \<noteq> []"
  by (cases j) auto

definition hung :: "pool_conf \<Rightarrow> pool_sys \<Rightarrow> nat \<Rightarrow> bool" where
  "hung C s t \<longleftrightarrow> held_up C (pjobs s t) \<and> wpcs (pw s) t = W_idle"

definition pool_final :: "pool_conf \<Rightarrow> nat \<Rightarrow> pool_sys \<Rightarrow> bool" where
  "pool_final C n s \<longleftrightarrow> coming s = [] \<and> (\<forall>t < n. job_conns (pjobs s t) = [] \<or> hung C s t) \<and>
     (\<forall>p \<in> set (unaccepted s). \<forall>t < n. socket_of C t = fst p \<longrightarrow> pjobs s t \<noteq> In_accept)"

lemma prank_nearer:
  assumes "job_ok j p" "wnext p p'" "p = W_idle \<longrightarrow> may_start C j p'"
  shows "prank (job_after p p' j, p') < prank (j, p)"
  using assms by (cases j; cases p; auto simp: job_after_def)

lemma pool_dist_upd:
  assumes "t < n" "pjobs s' = (pjobs s)(t := j)" "wpcs (pw s') = (wpcs (pw s))(t := p)"
  shows "sum_over prank n (\<lambda>t. (pjobs s' t, wpcs (pw s') t)) + prank (pjobs s t, wpcs (pw s) t) =
    sum_over prank n (\<lambda>t. (pjobs s t, wpcs (pw s) t)) + prank (j, p)"
proof -
  have "(\<lambda>t. (pjobs s' t, wpcs (pw s') t)) = (\<lambda>t. (pjobs s t, wpcs (pw s) t))(t := (j, p))"
    by (auto simp: assms(2,3))
  then show ?thesis using sum_over_upd [OF assms(1), of prank "\<lambda>t. (pjobs s t, wpcs (pw s) t)" "(j, p)"] by simp
qed

lemma pool_step_nearer:
  assumes inv: "pool_inv conns C n s" and "pool_step C n s s'"
  shows "pool_dist n s' < pool_dist n s"
  using assms(2)
proof cases
  case (pl_connect x xs t)
  then show ?thesis by (simp add: pool_dist_def)
next
  case (pl_accept t xs x ys)
  have "wpcs (pw s) t = W_idle" by (rule job_idle [OF inv]) (simp add: pl_accept)
  then show ?thesis
    using pool_dist_upd [of t n s' s "Has_request x" W_idle] pl_accept by (simp add: pool_dist_def fun_upd_idem)
next
  case (pl_count w t)
  note loc = wstep_local [OF pl_count(2,4)]
  from prank_nearer [OF pool_invD(6) [OF inv, of t] loc(2) pl_count(5)] show ?thesis
    using pool_dist_upd [OF pl_count(3), of s' s "job_after (wpcs (pw s) t) (wpcs w t) (pjobs s t)" "wpcs w t"] pl_count(1) loc(1)
    by (simp add: pool_dist_def)
next
  case (pl_replied t x)
  then show ?thesis
    using pool_dist_upd [OF pl_replied(2), of s' s "if one_shot C then Ended else In_accept" "wpcs (pw s) t"]
    by (auto simp: pool_dist_def fun_upd_idem split: if_splits)
next
  case (pl_killed t x)
  have "0 < prank (pjobs s t, W_idle)" using pl_killed(3) by (cases "pjobs s t") auto
  then have "sum_over prank n (\<lambda>t. (pjobs s' t, wpcs (pw s') t)) < sum_over prank n (\<lambda>t. (pjobs s t, wpcs (pw s) t))"
    using pool_dist_upd [OF pl_killed(2), of s' s Ended W_idle] pl_killed by (simp add: fun_upd_idem)
  moreover have "length (unaccepted s') \<le> length (unaccepted s)" and "length (coming s') = length (coming s)" by (simp_all add: pl_killed(1))
  ultimately show ?thesis unfolding pool_dist_def by linarith
qed

text \<open>
  There are workers for all clients: one for each client, all at one socket, or at least one that comes
  back and that no client can kill.
\<close>

definition enough_workers :: "pool_conf \<Rightarrow> nat \<Rightarrow> nat list \<Rightarrow> bool" where
  "enough_workers C n conns \<longleftrightarrow>
     (if one_shot C then length conns \<le> n \<and> (\<forall>t. socket_of C t = socket_of C 0)
      else length (filter (leaves C) conns) < n)"

lemma taken_le:
  assumes "pool_inv conns C n s"
  shows "length (taken s) + length (unaccepted s) + length (reset s) + length (coming s) = length conns"
  using pool_invD(2) [OF assms] by (metis length_map size_mset size_union)

lemma taken_size:
  assumes "pool_inv conns C n s"
  shows "length (taken s) = size (sum_over (\<lambda>j. mset (job_conns j)) n (pjobs s)) + length (finished s) + length (lost s)"
  using pool_invD(3) [OF assms] by (metis size_mset size_union)

lemma lost_le:
  assumes "pool_inv conns C n s"
  shows "length (lost s) \<le> length (filter (leaves C) conns)"
proof -
  have "mset (lost s) \<subseteq># mset conns" using pool_invD(2,3) [OF assms] by (simp add: ac_simps)
  then have "filter_mset (leaves C) (mset (lost s)) \<subseteq># filter_mset (leaves C) (mset conns)"
    by (rule multiset_filter_mono)
  moreover have "filter (leaves C) (lost s) = lost s" using pool_invD(4) [OF assms] by simp
  ultimately show ?thesis by (metis mset_filter size_mset size_mset_mono)
qed

lemma ended_count: "sum_over ended n f = card {t \<in> {..<n}. f t = Ended}"
  by (simp add: sum_over_def ended_def sum.If_cases Int_def)

text \<open>A pool with such a worker never loses its last one.\<close>

lemma pool_survivor:
  assumes "pool_inv conns C n s" "enough_workers C n conns" "\<not> one_shot C"
  shows "\<exists>t < n. pjobs s t \<noteq> Ended"
proof (rule ccontr)
  assume "\<not> ?thesis"
  then have "sum_over ended n (pjobs s) = n" by (simp add: sum_over_def ended_def)
  then show False
    using lost_le [OF assms(1)] pool_invD(7) [OF assms(1)] assms(2,3) by (simp add: used_ok_def enough_workers_def)
qed

text \<open>As long as somebody waits for a server with one worker for each client, a worker is free.\<close>

lemma some_accepts:
  assumes inv: "pool_inv conns C n s" and "enough_workers C n conns" and "unaccepted s \<noteq> []" and "one_shot C"
  shows "\<exists>t < n. pjobs s t = In_accept"
proof (rule ccontr)
  assume "\<not> (\<exists>t < n. pjobs s t = In_accept)"
  then have "sum_over used n (pjobs s) = n" by (simp add: sum_over_def used_def)
  then show False
    using pool_invD(7) [OF inv] taken_le [OF inv] assms(2-4)
    by (cases "unaccepted s") (simp_all add: used_ok_def enough_workers_def)
qed

text \<open>With a semaphore that is given back, nobody waits for it for ever.\<close>

lemma size_sum_over: "size (sum_over (\<lambda>j. mset (w j)) n f) = sum_over (\<lambda>j. length (w j)) n f"
  by (simp add: sum_over_def)

lemma replying_less:
  assumes "t < n" "job_conns (f t) \<noteq> []" "replying (f t) = 0"
  shows "sum_over replying n f < sum_over (\<lambda>j. length (job_conns j)) n f"
proof -
  have "replying j \<le> length (job_conns j)" for j by (cases j) auto
  moreover have "replying (f t) < length (job_conns (f t))" using assms(2,3) by simp
  ultimately show ?thesis unfolding sum_over_def using assms(1) by (intro sum_strict_mono_ex1) blast+
qed

lemma busy_can_step:
  assumes inv: "pool_inv conns C n s" and C: "gives_back C" and t: "t < n" "job_conns (pjobs s t) \<noteq> []"
    and free: "\<not> hung C s t" and "int (length conns) \<le> INT_MAX"
  shows "\<exists>s'. pool_step C n s s'"
proof (cases "replying (pjobs s t)")
  case (Suc k)
  then obtain x where x: "pjobs s t = Replying x" by (cases "pjobs s t") auto
  moreover have "wpcs (pw s) t = W_idle" by (rule job_idle [OF inv]) (simp add: x)
  ultimately show ?thesis using pool_step.pl_replied [OF t(1) x, of C] free by (auto simp: hung_def)
next
  case 0
  have r: "wreach True n (pw s)" using pool_invD(1) [OF inv] C by simp
  have move: ?thesis
    if "wstep True n (pw s) w" "t < n" "wpcs w t \<noteq> wpcs (pw s) t" "wpcs (pw s) t = W_idle \<longrightarrow> may_start C (pjobs s t) (wpcs w t)" for w t
    using pool_step.pl_count [of C n s w t] that C by auto
  have d: "int (length (done_log (pw s))) < INT_MAX"
    using replying_less [of t n "pjobs s", OF t 0] pool_invD(9) [OF inv] taken_size [OF inv] taken_le [OF inv] assms(6)
    by (simp add: replies_ok_def size_sum_over)
  show ?thesis
  proof (cases "sum_over in_section n (wpcs (pw s)) = 0")
    case False
    then obtain u where u: "u < n" "in_section (wpcs (pw s) u) \<noteq> 0" by (auto simp: sum_over_zero)
    then have "in_section (wpcs (pw s) u) = 1" using in_section_le [of "wpcs (pw s) u"] by simp
    then obtain w where "wstep True n (pw s) w" "wpcs w u \<noteq> wpcs (pw s) u" using section_can_move [OF r d u(1)] by blast
    then show ?thesis using u by (intro move [of w u]) auto
  next
    case True
    then have sem: "wsem (pw s) = Suc 0" using wreach_balance [OF r] by (simp add: sem_balance_def)
    have out: "in_section (wpcs (pw s) t) = 0" using True t(1) by (simp add: sum_over_zero)
    show ?thesis
    proof (cases "wpcs (pw s) t")
      case W_idle
      show ?thesis
        by (rule move [OF wstep.w_begin [OF t(1) W_idle, of _ 200] t(1)]) (use W_idle t(2) 0 free in \<open>cases "pjobs s t"; simp add: hung_def\<close>)+
    next
      case (W_wait c)
      show ?thesis by (rule move [OF wstep.w_wait [OF t(1) W_wait sem] t(1)]) (simp_all add: W_wait)
    next
      case R_wait
      show ?thesis by (rule move [OF wstep.r_wait [OF t(1) R_wait sem] t(1)]) (simp_all add: R_wait)
    qed (use out in auto)
  qed
qed

lemma pool_can_step:
  assumes inv: "pool_inv conns C n s" and "\<not> pool_final C n s" and "gives_back C" and workers: "enough_workers C n conns"
    and "int (length conns) \<le> INT_MAX"
  shows "\<exists>s'. pool_step C n s s'"
proof -
  consider t where "t < n" "job_conns (pjobs s t) \<noteq> []" "\<not> hung C s t"
    | p t where "p \<in> set (unaccepted s)" "t < n" "socket_of C t = fst p" "pjobs s t = In_accept"
    | x xs where "coming s = x # xs"
    using assms(2) unfolding pool_final_def by (cases "coming s") blast+
  then show ?thesis
  proof cases
    case 1
    then show ?thesis using busy_can_step [OF inv assms(3) _ _ _ assms(5)] by blast
  next
    case 2
    then obtain xs q ys where "unaccepted s = xs @ q # ys" "fst q = fst p" "\<forall>r \<in> set xs. fst r \<noteq> fst p"
      using split_list_first_prop [of "unaccepted s" "\<lambda>r. fst r = fst p"] by blast
    then show ?thesis
      using pool_step.pl_accept [of t n s xs C "snd q" ys] 2 by (cases q) force
  next
    case 3
    have "\<exists>t < n. one_shot C \<or> pjobs s t \<noteq> Ended"
    proof (cases "one_shot C")
      case True
      then have "0 < n" using 3 workers taken_le [OF inv] by (simp add: enough_workers_def)
      then show ?thesis using True by blast
    qed (use pool_survivor [OF inv workers] in blast)
    then show ?thesis using pool_step.pl_connect [OF 3] by blast
  qed
qed

interpretation pool: terminating "pool_init conns" "pool_step C n" "pool_inv conns C n" "pool_dist n"
  "\<lambda>s. pool_final C n s \<or> \<not> gives_back C \<or> \<not> enough_workers C n conns \<or> INT_MAX < int (length conns)" for conns C n
proof
  show "pool_inv conns C n s \<Longrightarrow> pool_step C n s t \<Longrightarrow> pool_dist n t < pool_dist n s" for s t
    by (rule pool_step_nearer)
  then show "\<exists>t. pool_step C n s t \<and> pool_dist n t < pool_dist n s"
    if "pool_inv conns C n s"
      "\<not> (pool_final C n s \<or> \<not> gives_back C \<or> \<not> enough_workers C n conns \<or> INT_MAX < int (length conns))" for s
    using that pool_can_step [of conns C n s] by auto
qed (auto intro: pool_inv_init pool_step_inv)

lemma pool_dist_init: "pool_dist n (pool_init conns) = 14 * length conns"
  by (simp add: pool_dist_def pool_init_def sum_over_def)

text \<open>
  At the end every client is answered, holds up a worker, is lost with one, was reset with the socket it
  waited at, or waits at a socket whose worker is held up.
\<close>

lemma pool_final_answered:
  assumes inv: "pool_inv conns C n s" and final: "pool_final C n s"
  shows "mset conns = mset (finished s) + sum_over (\<lambda>j. mset (job_conns j)) n (pjobs s) + mset (lost s) + mset (reset s) +
      mset (map snd (unaccepted s))"
    and "t < n \<Longrightarrow> x \<in> set (job_conns (pjobs s t)) \<Longrightarrow> silent C x \<or> endless C x"
    and "requests (wshm (pw s)) = int (length (done_log (pw s)))"
    and "length (finished s) \<le> length (done_log (pw s))"
    and "length (done_log (pw s)) \<le>
      length (finished s) + sum_over (\<lambda>j. length (job_conns j)) n (pjobs s) + length (lost s)"
proof -
  have rest: "held_up C (pjobs s t) \<and> wpcs (pw s) t = W_idle \<or> pjobs s t = In_accept \<or> pjobs s t = Ended" if "t < n" for t
    using final that unfolding pool_final_def hung_def by (metis job.exhaust job_conns.simps(1-3) list.distinct(1))
  then have "in_section (wpcs (pw s) t) = 0" if "t < n" for t
    using job_idle [OF inv, of t] that by fastforce
  then have quiet: "sum_over in_section n (wpcs (pw s)) = 0" by (simp add: sum_over_zero)
  show "mset conns = mset (finished s) + sum_over (\<lambda>j. mset (job_conns j)) n (pjobs s) + mset (lost s) + mset (reset s) +
      mset (map snd (unaccepted s))"
    using pool_invD(2,3) [OF inv] final by (simp add: pool_final_def ac_simps)
  show "silent C x \<or> endless C x" if "t < n" "x \<in> set (job_conns (pjobs s t))"
    using rest [OF that(1)] that(2) by (cases "pjobs s t") auto
  have "replying j \<le> length (job_conns j)" for j by (cases j) auto
  then have "sum_over replying n (pjobs s) \<le> sum_over (\<lambda>j. length (job_conns j)) n (pjobs s)"
    unfolding sum_over_def by (rule sum_mono)
  then show "length (finished s) \<le> length (done_log (pw s))"
    and "length (done_log (pw s)) \<le>
      length (finished s) + sum_over (\<lambda>j. length (job_conns j)) n (pjobs s) + length (lost s)"
    using pool_invD(9) [OF inv] by (simp_all add: replies_ok_def)
  have "count_all (done_log (pw s)) init_statistics = Some (wshm (pw s))"
    by (rule count_inv_rest [OF wreach_count_inv [OF pool_invD(1) [OF inv]] quiet])
  then show "requests (wshm (pw s)) = int (length (done_log (pw s)))"
    using count_all_requests [of "done_log (pw s)"] by (simp add: init_statistics_def)
qed

text \<open>Who still waits: nobody if there is a worker for each client, else clients at the socket of a held-up worker.\<close>

lemma pool_final_waiting:
  assumes inv: "pool_inv conns C n s" and final: "pool_final C n s" and "enough_workers C n conns"
  shows "one_shot C \<Longrightarrow> unaccepted s = []"
    and "p \<in> set (unaccepted s) \<Longrightarrow> \<exists>t < n. socket_of C t = fst p \<and> hung C s t"
proof -
  show one: "unaccepted s = []" if "one_shot C"
  proof (rule ccontr)
    assume ne: "unaccepted s \<noteq> []"
    from some_accepts [OF inv assms(3) ne that] obtain t where "t < n" "pjobs s t = In_accept" by blast
    moreover have "socket_of C t = fst (hd (unaccepted s))"
      using pool_invD(8) [OF inv] ne assms(3) that unfolding sockets_ok_def enough_workers_def by (metis hd_in_set)
    ultimately show False using final ne by (auto simp: pool_final_def)
  qed
  assume p: "p \<in> set (unaccepted s)"
  then obtain t where t: "t < n" "socket_of C t = fst p" "one_shot C \<or> pjobs s t \<noteq> Ended"
    using pool_invD(8) [OF inv] unfolding sockets_ok_def by blast
  moreover have "\<not> one_shot C" using one p by auto
  moreover have "pjobs s t \<noteq> In_accept" using final p t by (simp add: pool_final_def)
  ultimately have "job_conns (pjobs s t) \<noteq> []" by (cases "pjobs s t") auto
  then show "\<exists>t < n. socket_of C t = fst p \<and> hung C s t" using final t by (auto simp: pool_final_def)
qed

text \<open>If no client is trouble, everybody is answered, and counted once.\<close>

lemma pool_final_stay:
  assumes inv: "pool_inv conns C n s" and final: "pool_final C n s" and "enough_workers C n conns"
    and good: "\<forall>x \<in> set conns. \<not> leaves C x \<and> \<not> silent C x \<and> \<not> endless C x"
  shows "mset (finished s) = mset conns" and "requests (wshm (pw s)) = int (length conns)"
proof -
  note parts = pool_final_answered [OF inv final]
  have sub: "set conns = set (finished s) \<union> set_mset (sum_over (\<lambda>j. mset (job_conns j)) n (pjobs s)) \<union> set (lost s) \<union>
      set (reset s) \<union> snd ` set (unaccepted s)"
    using arg_cong [OF parts(1), of set_mset] by simp
  have "job_conns (pjobs s t) = []" if "t < n" for t
  proof (rule ccontr)
    assume "job_conns (pjobs s t) \<noteq> []"
    then obtain x where x: "x \<in> set (job_conns (pjobs s t))" by (cases "job_conns (pjobs s t)") auto
    then have "x \<in> set_mset (sum_over (\<lambda>j. mset (job_conns j)) n (pjobs s))"
      using that by (auto simp: sum_over_def set_mset_sum)
    then show False using parts(2) [OF that x] good sub by blast
  qed
  then have held: "sum_over (\<lambda>j. mset (job_conns j)) n (pjobs s) = {#}" "sum_over (\<lambda>j. length (job_conns j)) n (pjobs s) = 0"
    and free: "\<And>t. t < n \<Longrightarrow> \<not> hung C s t"
    using held_up_conns by (auto simp: sum_over_def hung_def)
  moreover have l: "lost s = []" using pool_invD(4) [OF inv] good sub by (cases "lost s") auto
  moreover have "unaccepted s = []"
    using pool_final_waiting(2) [OF inv final assms(3)] free by (cases "unaccepted s") auto
  ultimately show f: "mset (finished s) = mset conns" and "requests (wshm (pw s)) = int (length conns)"
    using parts(1,3-5) pool_invD(5) [OF inv] mset_eq_length [of "finished s" conns] by auto
qed

section \<open>A pool does not replace its workers\<close>

text \<open>
  In the pre-forked pool each lost client costs one child. When there are as many as children, no step is
  left, whoever is still to come.
\<close>

lemma pool_workers_lost:
  assumes "(pool_step C n)\<^sup>*\<^sup>* (pool_init conns) s" and "\<not> one_shot C"
  shows "card {t \<in> {..<n}. pjobs s t = Ended} = length (lost s)"
    and "length (lost s) = n \<Longrightarrow> gives_back C \<Longrightarrow> \<not> pool_step C n s s'"
proof -
  have inv: "pool_inv conns C n s" by (rule pool_reach_inv [OF assms(1)])
  show c: "card {t \<in> {..<n}. pjobs s t = Ended} = length (lost s)"
    using pool_invD(7) [OF inv] assms(2) by (simp add: used_ok_def ended_count)
  assume "length (lost s) = n" "gives_back C"
  then have "{t \<in> {..<n}. pjobs s t = Ended} = {..<n}" using c by (intro card_subset_eq) auto
  then have e: "pjobs s t = Ended" if "t < n" for t using that by blast
  then have "unaccepted s = []" using pool_invD(8) [OF inv] assms(2) by (cases "unaccepted s") (auto simp: sockets_ok_def)
  then show "\<not> pool_step C n s s'"
    using e job_idle [OF inv] assms(2) by (auto elim!: pool_step.cases)
qed

section \<open>The servers that do not give the semaphore back\<close>

text \<open>Whatever the schedule, one call of \<open>write_code\<close> returns at most, and one more client is taken for each thread.\<close>

lemma pool_stalls:
  assumes "(pool_step C n)\<^sup>*\<^sup>* (pool_init conns) s" and "\<not> gives_back C" and "\<forall>x. \<not> leaves C x"
  shows "length (done_log (pw s)) \<le> 1" and "length (finished s) + sum_over replying n (pjobs s) \<le> length (done_log (pw s))"
    and "length (taken s) \<le> n + 1"
proof -
  have inv: "pool_inv conns C n s" by (rule pool_reach_inv [OF assms(1)])
  show f: "length (done_log (pw s)) \<le> 1"
    using done_once [of n "pw s"] pool_invD(1) [OF inv] assms(2) by simp
  show r: "length (finished s) + sum_over replying n (pjobs s) \<le> length (done_log (pw s))"
    using pool_invD(9) [OF inv] by (simp add: replies_ok_def)
  have "length (job_conns j) \<le> 1" for j by (cases j) auto
  then have "sum_over (\<lambda>j. length (job_conns j)) n (pjobs s) \<le> n"
    unfolding sum_over_def by (rule order_trans [OF sum_mono [of _ _ "\<lambda>_. 1"]]) auto
  moreover have "lost s = []" using pool_invD(4) [OF inv] assms(3) by (cases "lost s") auto
  ultimately show "length (taken s) \<le> n + 1"
    using f r taken_size [OF inv] by (simp add: size_sum_over)
qed

end
