(* ===== verification/Pool_Run.thy ===== *)
theory Pool_Run
  imports Examples Pool_Server
begin

text \<open>
  A run of ten steps of each of the servers of \<open>Pool_Server\<close>, with two workers: the first client connects
  and is taken, answered and counted by worker 0; and one of three steps of a pool with one child, which a
  client that leaves stops for good.
\<close>

definition ex_pool :: "nat list \<Rightarrow> nat list \<Rightarrow> job \<Rightarrow> wsys \<Rightarrow> pool_sys" where
  "ex_pool cs done j w =
     \<lparr>coming = cs, unaccepted = [], taken = [7], finished = done, lost = [], reset = [], pjobs = (\<lambda>_. In_accept)(0 := j), pw = w\<rparr>"

lemma ex_pool_step:
  assumes "(pool_step C 2 ^^ k) i (ex_pool cs [] (Has_request 7) w)" and "wstep (gives_back C) 2 w v"
    and "wpcs v 0 \<noteq> wpcs w 0" and "wpcs v 0 \<noteq> R_wait" and "\<not> silent C 7"
    and "j = job_after (wpcs w 0) (wpcs v 0) (Has_request 7)"
  shows "(pool_step C 2 ^^ Suc k) i (ex_pool cs [] j v)"
proof -
  have "pool_step C 2 (ex_pool cs [] (Has_request 7) w) (ex_pool cs [] j v)"
    using pool_step.pl_count [of C 2 "ex_pool cs [] (Has_request 7) w" v 0] assms(2-6) by (simp add: ex_pool_def)
  with assms(1) show ?thesis by (rule relpowp_Suc_I)
qed

lemma ex_pool_replied:
  assumes "\<not> endless C 7" and "(pool_step C 2 ^^ k) i (ex_pool cs [] (Replying 7) w)"
  shows "(pool_step C 2 ^^ Suc k) i (ex_pool cs [7] (if one_shot C then Ended else In_accept) w)"
proof -
  have "pool_step C 2 (ex_pool cs [] (Replying 7) w) (ex_pool cs [7] (if one_shot C then Ended else In_accept) w)"
    using pool_step.pl_replied [of 0 2 "ex_pool cs [] (Replying 7) w" 7 C] assms(1) by (simp add: ex_pool_def)
  with assms(2) show ?thesis by (rule relpowp_Suc_I)
qed

lemma ex_pool_taken:
  "(pool_step C 2 ^^ 2) (pool_init (7 # cs)) (ex_pool cs [] (Has_request 7) wsys_init)"
proof -
  let ?a = "(pool_init (7 # cs))\<lparr>coming := cs, unaccepted := [(socket_of C 0, 7)]\<rparr>"
  have "pool_step C 2 (pool_init (7 # cs)) ?a"
    using pool_step.pl_connect [of "pool_init (7 # cs)" 7 cs 0 2 C] by (simp add: pool_init_def)
  moreover have "pool_step C 2 ?a (ex_pool cs [] (Has_request 7) wsys_init)"
    using pool_step.pl_accept [of 0 2 ?a "[]" C 7 "[]"] by (simp add: pool_init_def ex_pool_def)
  ultimately show ?thesis by (auto simp: numeral_2_eq_2)
qed

lemma ex_pool_served:
  assumes good: "\<not> silent C 7" "\<not> endless C 7"
  shows "(pool_step C 2 ^^ 10) (pool_init (7 # cs)) (ex_pool cs [7] (if one_shot C then Ended else In_accept) (ex_w1 (gives_back C)))"
proof -
  let ?p = "gives_back C"
  let ?s0 = wsys_init
  let ?s1 = "?s0\<lparr>wpcs := (wpcs ?s0)(0 := W_wait 200)\<rparr>"
  have r1: "(pool_step C 2 ^^ Suc 2) (pool_init (7 # cs)) (ex_pool cs [] (Has_request 7) ?s1)"
    by (rule ex_pool_step [OF ex_pool_taken wstep.w_begin]) (simp_all add: good wsys_init_def job_after_def)
  let ?s2 = "?s1\<lparr>wsem := 0, wpcs := (wpcs ?s1)(0 := W_load 200)\<rparr>"
  have r2: "(pool_step C 2 ^^ Suc (Suc 2)) (pool_init (7 # cs)) (ex_pool cs [] (Has_request 7) ?s2)"
    by (rule ex_pool_step [OF r1 wstep.w_wait]) (simp_all add: good wsys_init_def job_after_def)
  let ?s3 = "?s2\<lparr>wpcs := (wpcs ?s2)(0 := W_store 200 (requests (wshm ?s2)))\<rparr>"
  have r3: "(pool_step C 2 ^^ Suc (Suc (Suc 2))) (pool_init (7 # cs)) (ex_pool cs [] (Has_request 7) ?s3)"
    by (rule ex_pool_step [OF r2 wstep.w_load]) (simp_all add: good wsys_init_def job_after_def)
  let ?s4 = "?s3\<lparr>wshm := (wshm ?s3)\<lparr>requests := 1\<rparr>, wpcs := (wpcs ?s3)(0 := W_cload 200)\<rparr>"
  have r4: "(pool_step C 2 ^^ Suc (Suc (Suc (Suc 2)))) (pool_init (7 # cs)) (ex_pool cs [] (Has_request 7) ?s4)"
    by (rule ex_pool_step [OF r3 wstep.w_store [where r = 0 and c = 200]])
       (simp_all add: good wsys_init_def job_after_def init_statistics_def incr_def INT_MAX_def)
  let ?s5 = "?s4\<lparr>wpcs := (wpcs ?s4)(0 := W_cstore 200 0)\<rparr>"
  have r5: "(pool_step C 2 ^^ Suc (Suc (Suc (Suc (Suc 2))))) (pool_init (7 # cs)) (ex_pool cs [] (Has_request 7) ?s5)"
    by (rule ex_pool_step [OF r4 wstep.w_cload]) (simp_all add: good wsys_init_def job_after_def init_statistics_def class_get_def)
  let ?s6 = "?s5\<lparr>wshm := class_set 200 1 (wshm ?s5), wpcs := (wpcs ?s5)(0 := W_post 200)\<rparr>"
  have r6: "(pool_step C 2 ^^ Suc (Suc (Suc (Suc (Suc (Suc 2)))))) (pool_init (7 # cs)) (ex_pool cs [] (Has_request 7) ?s6)"
    by (rule ex_pool_step [OF r5 wstep.w_cstore [where v = 0]]) (simp_all add: good wsys_init_def job_after_def incr_def INT_MAX_def)
  let ?s7 = "?s6\<lparr>wsem := (if ?p then Suc (wsem ?s6) else wsem ?s6), wpcs := (wpcs ?s6)(0 := W_idle), done_log := done_log ?s6 @ [200]\<rparr>"
  have r7: "(pool_step C 2 ^^ Suc (Suc (Suc (Suc (Suc (Suc (Suc 2))))))) (pool_init (7 # cs))
      (ex_pool cs [] (Replying 7) ?s7)"
    by (rule ex_pool_step [OF r6 wstep.w_post]) (simp_all add: good wsys_init_def job_after_def)
  note r8 = ex_pool_replied [OF good(2) r7]
  have shm: "class_set 200 1 (init_statistics\<lparr>requests := 1\<rparr>) = counted 200 init_statistics"
    by (simp add: class_set_def counted_def count_code_def incr_def INT_MAX_def init_statistics_def)
  have "?s7 = ex_w1 ?p"
    by (cases ?p) (simp_all add: ex_w1_def wsys_init_def shm [symmetric] fun_upd_idem)
  moreover have "Suc (Suc (Suc (Suc (Suc (Suc (Suc (Suc 2))))))) = (10 :: nat)" by simp
  ultimately show ?thesis using r8 by (simp only:)
qed

lemma ex_pool_simps [simp]: "finished (ex_pool cs d j w) = d" "pw (ex_pool cs d j w) = w" "taken (ex_pool cs d j w) = [7]"
  by (simp_all add: ex_pool_def)

definition ex_all_killed :: "nat list \<Rightarrow> pool_sys" where
  "ex_all_killed cs =
     \<lparr>coming = cs, unaccepted = [], taken = [7], finished = [], lost = [7], reset = [],
      pjobs = (\<lambda>_. In_accept)(0 := Ended), pw = wsys_init\<rparr>"

lemma ex_pool_killed:
  assumes "L 7" and "\<not> S 7"
  shows "(pool_step (pre_forked L S K) 1)\<^sup>*\<^sup>* (pool_init (7 # cs)) (ex_all_killed cs)"
proof -
  let ?C = "pre_forked L S K"
  let ?a = "(pool_init (7 # cs))\<lparr>coming := cs, unaccepted := [(0, 7)]\<rparr>"
  let ?b = "?a\<lparr>unaccepted := [], taken := [7], pjobs := (\<lambda>_. In_accept)(0 := Has_request 7)\<rparr>"
  have "pool_step ?C 1 (pool_init (7 # cs)) ?a"
    using pool_step.pl_connect [of "pool_init (7 # cs)" 7 cs 0 1 ?C] by (simp add: pool_init_def pre_forked_def)
  moreover have "pool_step ?C 1 ?a ?b"
    using pool_step.pl_accept [of 0 1 ?a "[]" ?C 7 "[]"] by (simp add: pool_init_def pre_forked_def)
  moreover have "pool_step ?C 1 ?b (ex_all_killed cs)"
    using pool_step.pl_killed [of 0 1 ?b 7 ?C] assms
    by (simp add: pool_init_def pre_forked_def ex_all_killed_def wsys_init_def)
  ultimately show ?thesis by (meson rtranclp.rtrancl_into_rtrancl rtranclp.rtrancl_refl)
qed

text \<open>Nobody who is still to come is served.\<close>

lemma ex_pool_killed_final: "L 7 \<Longrightarrow> \<not> S 7 \<Longrightarrow> \<not> pool_step (pre_forked L S K) 1 (ex_all_killed cs) s"
  using pool_workers_lost(2) [OF ex_pool_killed] by (simp add: pre_forked_def ex_all_killed_def)

end
