(* ===== verification/Class_Tables.thy ===== *)
theory Class_Tables
  imports Clib
begin

text \<open>
  Inheritance in the samples, on tables of classes: which base subobjects an object has, which conversions
  and \<open>dynamic_cast\<close>s succeed (\<open>test.cpp\<close>, \<open>M_EXX/1.cpp\<close>, \<open>M_EXX/2.cpp\<close>, \<open>virtual_inherit2.cpp\<close>), which member
  function a call names and which one runs (\<open>virtual_overload.cpp\<close>, \<open>E_CXX/33.cpp\<close>, \<open>template/\<close>).
  All bases are public.
\<close>

section \<open>Subobjects\<close>

record class_decl =
  direct_bases :: "(bool \<times> string) list"
  methods :: "(string \<times> nat) list"
  usings :: "(string \<times> string) list"

type_synonym class_table = "string \<Rightarrow> class_decl"

definition leaf :: class_decl where
  "leaf = \<lparr>direct_bases = [], methods = [], usings = []\<rparr>"

definition inherits :: "(bool \<times> string) list \<Rightarrow> class_decl" where
  "inherits bs = leaf\<lparr>direct_bases := bs\<rparr>"

text \<open>
  A subobject is the path from the whole object, or from a virtual base, which is there once. The first
  argument bounds the depth of the table.
\<close>

definition base_paths :: "class_table \<Rightarrow> string list \<Rightarrow> string list list" where
  "base_paths T p = map (\<lambda>(v, b). if v then [b] else p @ [b]) (direct_bases (T (last p)))"

fun subobjects :: "nat \<Rightarrow> class_table \<Rightarrow> string list \<Rightarrow> string list list" where
  "subobjects 0 T p = [p]"
| "subobjects (Suc n) T p = p # concat (map (subobjects n T) (base_paths T p))"

definition bases_of :: "nat \<Rightarrow> class_table \<Rightarrow> string \<Rightarrow> string \<Rightarrow> string list list" where
  "bases_of n T d b = filter (\<lambda>p. last p = b) (remdups (subobjects n T [d]))"

text \<open>A derived-to-base conversion needs exactly one subobject of the base class.\<close>

definition converts :: "nat \<Rightarrow> class_table \<Rightarrow> string \<Rightarrow> string \<Rightarrow> bool" where
  "converts n T d b \<longleftrightarrow> length (bases_of n T d b) = 1"

text \<open>
  \<open>dynamic_cast\<close> of a pointer to an object of the class \<open>d\<close> (seen as any of its bases): the subobject, or
  the null pointer; of a reference: \<open>bad_cast\<close>.
\<close>

definition cast_ptr :: "nat \<Rightarrow> class_table \<Rightarrow> string \<Rightarrow> string \<Rightarrow> string list option" where
  "cast_ptr n T d t = (case bases_of n T d t of [p] \<Rightarrow> Some p | _ \<Rightarrow> None)"

datatype cast_error = Bad_cast

definition cast_ref :: "nat \<Rightarrow> class_table \<Rightarrow> string \<Rightarrow> string \<Rightarrow> cast_error + string list" where
  "cast_ref n T d t = (case cast_ptr n T d t of None \<Rightarrow> Inl Bad_cast | Some p \<Rightarrow> Inr p)"

text \<open>Tables without cycles: a rank that goes down from a class to its bases.\<close>

definition ranked :: "(string \<Rightarrow> nat) \<Rightarrow> class_table \<Rightarrow> bool" where
  "ranked r T \<longleftrightarrow> (\<forall>c. \<forall>(v, b) \<in> set (direct_bases (T c)). r b < r c)"

lemma base_paths_last: "q \<in> set (base_paths T p) \<Longrightarrow> \<exists>v. (v, last q) \<in> set (direct_bases (T (last p)))"
  by (auto simp: base_paths_def split: if_splits)

lemma base_paths_rank: "ranked r T \<Longrightarrow> q \<in> set (base_paths T p) \<Longrightarrow> r (last q) < r (last p)"
  using base_paths_last [of q T p] by (auto simp: ranked_def)

text \<open>A bound on the depth that is large enough is as good as any other.\<close>

lemma subobjects_enough:
  assumes "ranked r T" "r (last p) \<le> n"
  shows "subobjects (n + k) T p = subobjects n T p"
  using assms(2)
proof (induction n arbitrary: p)
  case 0
  have "base_paths T p = []"
    using base_paths_rank [OF assms(1)] 0 by (metis ex_in_conv le_zero_eq not_less_zero set_empty)
  then show ?case by (cases k) simp_all
next
  case (Suc n)
  have "subobjects (n + k) T q = subobjects n T q" if "q \<in> set (base_paths T p)" for q
    using Suc.IH [of q] base_paths_rank [OF assms(1) that] Suc.prems by simp
  then have "map (subobjects (n + k) T) (base_paths T p) = map (subobjects n T) (base_paths T p)"
    by (simp only: map_eq_conv) blast
  then show ?case by (simp del: map_eq_conv)
qed

lemma subobjects_rank:
  assumes "ranked r T" "q \<in> set (subobjects n T p)"
  shows "q = p \<or> r (last q) < r (last p)"
  using assms(2)
proof (induction n arbitrary: p)
  case (Suc n)
  show ?case
  proof (cases "q = p")
    case False
    then obtain p' where p': "p' \<in> set (base_paths T p)" "q \<in> set (subobjects n T p')" using Suc.prems by auto
    then show ?thesis using Suc.IH [OF p'(2)] base_paths_rank [OF assms(1) p'(1)] by auto
  qed simp
qed simp

text \<open>A cast back to the class of the whole object gives the whole object.\<close>

lemma cast_back:
  assumes "ranked r T"
  shows "cast_ptr n T d d = Some [d]"
proof -
  have "filter (\<lambda>p. last p = d) (subobjects n T [d]) = filter (\<lambda>p. p = [d]) (subobjects n T [d])"
  proof (rule filter_cong [OF refl])
    fix q
    assume "q \<in> set (subobjects n T [d])"
    then show "last q = d \<longleftrightarrow> q = [d]" using subobjects_rank [OF assms, of q n "[d]"] by auto
  qed
  moreover have "[d] \<in> set (subobjects n T [d])" by (cases n) simp_all
  ultimately have "bases_of n T d d = filter (\<lambda>p. p = [d]) (remdups (subobjects n T [d]))"
    unfolding bases_of_def by (metis (no_types) remdups_filter)
  moreover have "filter (\<lambda>p. p = a) xs = [a]" if "distinct xs" "a \<in> set xs" for a and xs :: "string list list"
    using that by (induction xs) (auto simp: filter_empty_conv)
  ultimately have "bases_of n T d d = [[d]]" using \<open>[d] \<in> _\<close> by simp
  then show ?thesis by (simp add: cast_ptr_def)
qed

text \<open>A class that is only ever a virtual base is there once at most.\<close>

lemma virtual_base_once:
  assumes "\<forall>c v. (v, b) \<in> set (direct_bases (T c)) \<longrightarrow> v" "b \<noteq> d"
  shows "length (bases_of n T d b) \<le> 1"
proof -
  have path: "q = [b] \<or> q = p" if "q \<in> set (subobjects m T p)" "last q = b" for m q p
    using that
  proof (induction m arbitrary: p)
    case (Suc m)
    show ?case
    proof (cases "q = p")
      case False
      then obtain p' where p': "p' \<in> set (base_paths T p)" "q \<in> set (subobjects m T p')" using Suc.prems by auto
      have "p' = [b]" if "last p' = b"
        using p'(1) assms(1) that by (force simp: base_paths_def split: if_splits)
      then show ?thesis using Suc.IH [OF p'(2) Suc.prems(2)] Suc.prems(2) by auto
    qed simp
  qed simp
  have "set (bases_of n T d b) \<subseteq> {[b]}"
  proof
    fix q
    assume "q \<in> set (bases_of n T d b)"
    then have "q \<in> set (subobjects n T [d])" "last q = b" by (simp_all add: bases_of_def)
    then show "q \<in> {[b]}" using path [of q n "[d]"] assms(2) by auto
  qed
  moreover have "distinct (bases_of n T d b)" by (simp add: bases_of_def)
  ultimately show ?thesis by (metis card.empty card.insert card_mono distinct_card empty_iff finite.emptyI finite.insertI One_nat_def)
qed

section \<open>The samples with casts\<close>

text \<open>\<open>test.cpp\<close>.\<close>

definition cast_classes :: class_table where
  "cast_classes c =
     (if c = ''B'' then inherits [(False, ''A'')] else if c = ''C'' then inherits [(False, ''B'')]
      else if c = ''D'' then inherits [(False, ''B''), (False, ''A'')] else leaf)"

text \<open>
  \<open>main\<close>: the casts it makes, with the text of \<open>what\<close>, and the two conversions to \<open>A *\<close> that the compiler has
  to accept first.
\<close>

definition cast_main :: "string \<Rightarrow> string list option" where
  "cast_main what =
     (if \<not> converts 3 cast_classes ''C'' ''A'' \<or> \<not> converts 3 cast_classes ''D'' ''A'' then None
      else if cast_ptr 3 cast_classes ''B'' ''C'' \<noteq> None then None
      else case cast_ref 3 cast_classes ''B'' ''C'' of Inl Bad_cast \<Rightarrow> Some [what] | Inr _ \<Rightarrow> Some [])"

text \<open>\<open>M_EXX/1.cpp\<close> and \<open>M_EXX/2.cpp\<close>: the pointer cast succeeds, the reference cast throws.\<close>

definition mexx_classes :: class_table where
  "mexx_classes c = (if c = ''D'' then inherits [(False, ''B'')] else leaf)"

definition mexx_f :: "string \<Rightarrow> cast_error + string list" where
  "mexx_f address =
     (let pd = cast_ptr 1 mexx_classes ''D'' ''D''
      in case cast_ref 1 mexx_classes ''B'' ''D'' of Inl e \<Rightarrow> Inl e
         | Inr _ \<Rightarrow> Inr [if pd = None then ''0'' else address])"

text \<open>\<open>virtual_inherit2.cpp\<close>: only \<open>pd2 = pmi\<close> is left in \<open>main\<close>.\<close>

definition vi2_classes :: class_table where
  "vi2_classes c =
     (if c = ''Base'' then inherits [(False, ''Class'')]
      else if c = ''D1'' \<or> c = ''D2'' then inherits [(True, ''Base'')]
      else if c = ''MI'' then inherits [(False, ''D1''), (False, ''D2'')]
      else if c = ''Final'' then inherits [(False, ''MI''), (False, ''Class'')] else leaf)"

definition vi2_main :: bool where
  "vi2_main \<longleftrightarrow> converts 4 vi2_classes ''MI'' ''D2''"

lemmas class_simps = bases_of_def converts_def cast_ptr_def cast_ref_def base_paths_def inherits_def leaf_def eval_nat_numeral

text \<open>An object of \<open>D\<close> has two parts of class \<open>A\<close>: \<open>test.cpp\<close> is rejected.\<close>

lemma cast_main_rejected: "cast_main what = None" "bases_of 3 cast_classes ''D'' ''A'' = [[''D'', ''B'', ''A''], [''D'', ''A'']]"
  by (simp_all add: cast_main_def cast_classes_def class_simps)

text \<open>\<open>f\<close> never gets to its output: the exception leaves it, and \<open>main\<close> does not catch it.\<close>

lemma mexx_f_throws: "mexx_f address = Inl Bad_cast"
  by (simp add: mexx_f_def mexx_classes_def class_simps)

text \<open>The conversion of \<open>main\<close> is allowed; the one to \<open>Class *\<close> that is commented out is not.\<close>

lemma vi2_main_accepted: "vi2_main" "\<not> converts 4 vi2_classes ''Final'' ''Class''" "converts 4 vi2_classes ''MI'' ''Base''"
  by (simp_all add: vi2_main_def vi2_classes_def class_simps)

section \<open>Names and overriding\<close>

text \<open>
  The functions a name stands for in a class: those declared there, with those a using-declaration brings
  in; only if there are none, those of its bases. A function is given by its class and its number of arguments.
\<close>

definition declared :: "class_table \<Rightarrow> string \<Rightarrow> string \<Rightarrow> (string \<times> nat) list" where
  "declared T c f = map (\<lambda>(_, k). (c, k)) (filter (\<lambda>(g, _). g = f) (methods (T c)))"

fun lookup_name :: "nat \<Rightarrow> class_table \<Rightarrow> string \<Rightarrow> string \<Rightarrow> (string \<times> nat) list" where
  "lookup_name 0 T c f = declared T c f"
| "lookup_name (Suc n) T c f =
     (let own = declared T c f @ concat (map (\<lambda>(b, g). if g = f then declared T b f else []) (usings (T c)))
      in if own \<noteq> [] then own else concat (map (\<lambda>(_, b). lookup_name n T b f) (direct_bases (T c))))"

text \<open>The class whose function a call with \<open>k\<close> arguments names; the class itself comes before a used one.\<close>

definition named :: "nat \<Rightarrow> class_table \<Rightarrow> string \<Rightarrow> string \<Rightarrow> nat \<Rightarrow> string option" where
  "named n T c f k = (case filter (\<lambda>(_, j). j = k) (lookup_name n T c f) of [] \<Rightarrow> None | (b, _) # _ \<Rightarrow> Some b)"

text \<open>The class whose version of a virtual function runs for an object of the class \<open>d\<close>.\<close>

fun overrider :: "nat \<Rightarrow> class_table \<Rightarrow> string \<Rightarrow> string \<Rightarrow> nat \<Rightarrow> string option" where
  "overrider 0 T d f k = (if (f, k) \<in> set (methods (T d)) then Some d else None)"
| "overrider (Suc n) T d f k =
     (if (f, k) \<in> set (methods (T d)) then Some d
      else case direct_bases (T d) of [] \<Rightarrow> None | (_, b) # _ \<Rightarrow> overrider n T b f k)"

text \<open>\<open>virtual_overload.cpp\<close>, with the texts its functions print.\<close>

definition vo_classes :: class_table where
  "vo_classes c =
     (if c = ''A'' then leaf\<lparr>methods := [(''fn'', 0), (''fn1'', 0)]\<rparr>
      else if c = ''B'' then \<lparr>direct_bases = [(False, ''A'')], methods = [(''fn'', 1), (''fn1'', 1)],
        usings = [(''A'', ''fn'')]\<rparr> else leaf)"

definition vo_text :: "string \<Rightarrow> string \<Rightarrow> nat \<Rightarrow> string" where
  "vo_text c f k = (if f = ''fn'' then ''A::fn()'' else ''A::fn1()'')"

definition vo_call :: "string \<Rightarrow> nat \<Rightarrow> string option" where
  "vo_call f k = map_option (\<lambda>c. vo_text c f k) (named 1 vo_classes ''B'' f k)"

definition vo_main :: "string option list" where
  "vo_main = [vo_call ''fn'' 1, vo_call ''fn'' 0, vo_call ''fn1'' 1]"

text \<open>\<open>E_CXX/33.cpp\<close>.\<close>

definition hide_classes :: class_table where
  "hide_classes c =
     (if c = ''Base'' then leaf\<lparr>methods := [(''mf1'', 0), (''mf1'', 1), (''mf2'', 0), (''mf3'', 0), (''mf3'', 1),
        (''mf4'', 0), (''mf4'', 1)]\<rparr>
      else if c = ''Derived'' then \<lparr>direct_bases = [(False, ''Base'')],
        methods = [(''mf1'', 0), (''mf2'', 0), (''mf3'', 0), (''mf4'', 0)], usings = [(''Base'', ''mf4'')]\<rparr> else leaf)"

text \<open>\<open>main\<close>: \<open>d.mf1()\<close> and the call of \<open>Base::mf1(12)\<close> in it.\<close>

definition hide_main :: "string option list" where
  "hide_main = [named 1 hide_classes ''Derived'' ''mf1'' 0, named 1 hide_classes ''Base'' ''mf1'' 1]"

text \<open>The classes of \<open>template/include/template.h\<close>.\<close>

definition tpl_classes :: class_table where
  "tpl_classes c =
     (if c = ''Base'' then leaf\<lparr>methods := [(''test'', 1), (''g'', 0)]\<rparr>
      else if c = ''Base_derived'' then \<lparr>direct_bases = [(False, ''Base'')], methods = [(''fn'', 0), (''g'', 0)],
        usings = [(''Base'', ''g'')]\<rparr>
      else if c = ''Base_derived_two'' then \<lparr>direct_bases = [(False, ''Base_derived'')], methods = [(''g'', 0)], usings = []\<rparr>
      else leaf)"

text \<open>\<open>g\<close> prints the name of its class.\<close>

definition tpl_g :: "string \<Rightarrow> string list" where
  "tpl_g d = (case overrider 2 tpl_classes d ''g'' 0 of None \<Rightarrow> [] | Some c \<Rightarrow> [c])"

definition tpl_fn :: "string \<Rightarrow> string list" where
  "tpl_fn d = [''Base_derived<T, VT>::fn() -> sizof(a): '' @ dec_nat 1] @ tpl_g d @ tpl_g d @ [''Base'']"

definition tpl_extern_fn :: "string list" where
  "tpl_extern_fn = [''extern_fn()'']"

definition tpl_foo :: "string \<Rightarrow> string list" where
  "tpl_foo type_name = [''foo<'' @ type_name @ ''>(T*)'']"

definition tpl_val :: nat where
  "tpl_val = 101"

definition tpl_fn_friend :: "string list" where
  "tpl_fn_friend = [''fn_friend A.val: '' @ dec_nat tpl_val]"

definition tpl_fn_friend_1 :: "string list" where
  "tpl_fn_friend_1 = [''fn_friend_1 A.val: '' @ dec_nat tpl_val]"

text \<open>\<open>template/src/main.cpp\<close>; what \<open>typeid\<close> calls the type is an argument.\<close>

definition tpl_main :: "string \<Rightarrow> string list" where
  "tpl_main char_name = tpl_foo char_name @ tpl_extern_fn @ tpl_fn_friend @ tpl_fn_friend_1 @
     tpl_g ''Base_derived_two'' @ tpl_fn ''Base_derived_two''"

lemmas name_simps = named_def declared_def leaf_def eval_nat_numeral

lemma vo_main_prints:
  "vo_main = [Some ''A::fn()'', Some ''A::fn()'', Some ''A::fn1()'']" "vo_call ''fn1'' 0 = None"
  by (simp_all add: vo_main_def vo_call_def vo_classes_def vo_text_def name_simps)

text \<open>A function that is hidden cannot be named; one that a using-declaration brings back can.\<close>

lemma hide_main_calls:
  "hide_main = [Some ''Derived'', Some ''Base'']" "named 1 hide_classes ''Derived'' ''mf1'' 1 = None"
  "named 1 hide_classes ''Derived'' ''mf3'' 1 = None" "named 1 hide_classes ''Derived'' ''mf4'' 1 = Some ''Base''"
  by (simp_all add: hide_main_def hide_classes_def name_simps)

lemma tpl_numbers: "dec_nat 1 = ''1''" "dec_nat 101 = ''101''"
  by code_simp+

lemma tpl_main_prints:
  "tpl_main cn = [''foo<'' @ cn @ ''>(T*)'', ''extern_fn()'', ''fn_friend A.val: 101'', ''fn_friend_1 A.val: 101'',
     ''Base_derived_two'', ''Base_derived<T, VT>::fn() -> sizof(a): 1'', ''Base_derived_two'', ''Base_derived_two'', ''Base'']"
  by (simp add: tpl_main_def tpl_foo_def tpl_extern_fn_def tpl_fn_friend_def tpl_fn_friend_1_def tpl_val_def tpl_g_def
      tpl_fn_def tpl_classes_def leaf_def tpl_numbers numeral_2_eq_2 del: dec_nat.simps One_nat_def)

text \<open>A name declared in a class hides all others; a used name adds those of the base.\<close>

lemma declared_hides:
  "declared T c f \<noteq> [] \<Longrightarrow> usings (T c) = [] \<Longrightarrow> lookup_name n T c f = declared T c f"
  by (cases n) (simp_all add: Let_def)

end
