(* ===== verification/Deduction.thy ===== *)
theory Deduction
  imports Clib
begin

text \<open>
  Template argument deduction, reference collapsing and the choice between overloaded templates, as the
  samples use them: \<open>template_argument_deduction/\<close> (\<open>right_reference.cpp\<close>, \<open>left_reference.cpp\<close>, \<open>move.cpp\<close>,
  \<open>forward.cpp\<close>), \<open>template_overload.cpp\<close>, \<open>template_4.cpp\<close> and the \<open>decltype\<close>s of \<open>CXXPRIMER/test.cpp\<close>.
\<close>

section \<open>Types and expressions\<close>

datatype cty = Int_ty | Char_ty | Class_ty string | Const_of cty | Pointer_to cty | Lref cty | Rref cty

fun no_ref :: "cty \<Rightarrow> cty" where
  "no_ref (Lref t) = t" | "no_ref (Rref t) = t" | "no_ref t = t"

fun no_const :: "cty \<Rightarrow> cty" where
  "no_const (Const_of t) = t" | "no_const t = t"

fun is_ref :: "cty \<Rightarrow> bool" where
  "is_ref (Lref _) = True" | "is_ref (Rref _) = True" | "is_ref _ = False"

fun is_const :: "cty \<Rightarrow> bool" where
  "is_const (Const_of _) = True" | "is_const _ = False"

definition add_const :: "cty \<Rightarrow> cty" where
  "add_const t = (if is_const t \<or> is_ref t then t else Const_of t)"

text \<open>Collapsing: \<open>T &\<close> and \<open>T &&\<close> where \<open>T\<close> may be a reference already.\<close>

definition add_lref :: "cty \<Rightarrow> cty" where
  "add_lref t = Lref (no_ref t)"

definition add_rref :: "cty \<Rightarrow> cty" where
  "add_rref t = (if is_ref t then t else Rref t)"

text \<open>An expression has a type without reference, and is an lvalue or not.\<close>

record expr =
  lvalue :: bool
  ety :: cty

definition variable :: "cty \<Rightarrow> expr" where
  "variable t = \<lparr>lvalue = True, ety = no_ref t\<rparr>"

definition rvalue :: "cty \<Rightarrow> expr" where
  "rvalue t = \<lparr>lvalue = False, ety = t\<rparr>"

definition std_move :: "expr \<Rightarrow> expr" where
  "std_move e = e\<lparr>lvalue := False\<rparr>"

text \<open>The call of a function that returns \<open>t\<close>; \<open>decltype\<close> of an expression that is no name.\<close>

fun is_class :: "cty \<Rightarrow> bool" where
  "is_class (Class_ty _) = True" | "is_class (Const_of t) = is_class t" | "is_class _ = False"

fun call_of :: "cty \<Rightarrow> expr" where
  "call_of (Lref t) = \<lparr>lvalue = True, ety = t\<rparr>"
| "call_of (Rref t) = \<lparr>lvalue = False, ety = t\<rparr>"
| "call_of t = \<lparr>lvalue = False, ety = (if is_class t then t else no_const t)\<rparr>"

fun decltype_call :: "cty \<Rightarrow> cty" where
  "decltype_call (Lref t) = Lref t"
| "decltype_call (Rref t) = Rref t"
| "decltype_call t = (if is_class t then t else no_const t)"

definition decltype_lvalue :: "cty \<Rightarrow> cty" where
  "decltype_lvalue t = Lref (no_ref t)"

text \<open>What a reference may be initialised with, for the types of the samples (no conversions).\<close>

fun binds :: "cty \<Rightarrow> expr \<Rightarrow> bool" where
  "binds (Lref t) e \<longleftrightarrow> no_const t = no_const (ety e) \<and> (is_const (ety e) \<longrightarrow> is_const t) \<and> (lvalue e \<or> is_const t)"
| "binds (Rref t) e \<longleftrightarrow> no_const t = no_const (ety e) \<and> (is_const (ety e) \<longrightarrow> is_const t) \<and> \<not> lvalue e"
| "binds t e \<longleftrightarrow> no_const t = no_const (ety e)"

section \<open>Deduction\<close>

text \<open>The forms of parameter: \<open>T\<close>, \<open>T &\<close>, \<open>const T &\<close>, \<open>T &&\<close>, \<open>const T &&\<close>, \<open>T *\<close>, \<open>const T *\<close>.\<close>

datatype param = P_value | P_lref | P_clref | P_forward | P_crref | P_pointer | P_cpointer

fun deduce :: "param \<Rightarrow> expr \<Rightarrow> cty option" where
  "deduce P_value e = Some (no_const (ety e))"
| "deduce P_lref e = (if lvalue e \<or> is_const (ety e) then Some (ety e) else None)"
| "deduce P_clref e = Some (no_const (ety e))"
| "deduce P_forward e = Some (if lvalue e then Lref (ety e) else ety e)"
| "deduce P_crref e = (if lvalue e then None else Some (no_const (ety e)))"
| "deduce P_pointer e = (case no_const (ety e) of Pointer_to t \<Rightarrow> Some t | _ \<Rightarrow> None)"
| "deduce P_cpointer e = (case no_const (ety e) of Pointer_to t \<Rightarrow> Some (no_const t) | _ \<Rightarrow> None)"

fun param_type :: "param \<Rightarrow> cty \<Rightarrow> cty" where
  "param_type P_value t = t"
| "param_type P_lref t = add_lref t"
| "param_type P_clref t = add_lref (add_const t)"
| "param_type P_forward t = add_rref t"
| "param_type P_crref t = add_rref (add_const t)"
| "param_type P_pointer t = Pointer_to t"
| "param_type P_cpointer t = Pointer_to (add_const t)"

text \<open>The deduced parameter can be initialised with the argument.\<close>

definition plain :: "cty \<Rightarrow> bool" where
  "plain t \<longleftrightarrow> \<not> is_ref t \<and> \<not> is_ref (no_const t) \<and> \<not> is_const (no_const t)"

lemma no_ref_id: "\<not> is_ref t \<Longrightarrow> no_ref t = t"
  by (cases t) simp_all

lemma no_const_id: "\<not> is_const t \<Longrightarrow> no_const t = t"
  by (cases t) simp_all

lemma binds_value: "\<not> is_ref t \<Longrightarrow> binds t e \<longleftrightarrow> no_const t = no_const (ety e)"
  by (cases t) simp_all

lemma plainD: "plain t \<Longrightarrow> \<not> is_ref t \<and> (is_const t \<longrightarrow> t = Const_of (no_const t)) \<and> \<not> is_ref (no_const t) \<and> \<not> is_const (no_const t)"
  by (cases t) (simp_all add: plain_def)

lemma deduced_binds:
  assumes "plain (ety e)" "deduce p e = Some t" "p \<notin> {P_pointer, P_cpointer}"
  shows "binds (param_type p t) e"
proof (cases "is_const (ety e)")
  case True
  then obtain u where "ety e = Const_of u" "\<not> is_ref u" "\<not> is_const u" using plainD [OF assms(1)] by metis
  then obtain l where "e = \<lparr>lvalue = l, ety = Const_of u\<rparr>" by (cases e) simp
  then show ?thesis
    using assms(2,3) \<open>\<not> is_ref u\<close> \<open>\<not> is_const u\<close>
    by (cases p) (auto simp: add_lref_def add_rref_def add_const_def no_ref_id no_const_id binds_value split: if_splits)
next
  case False
  then have "\<not> is_ref (ety e)" "no_const (ety e) = ety e" using plainD [OF assms(1)] by (simp_all add: no_const_id)
  then show ?thesis
    using assms(2,3) False
    by (cases p) (auto simp: add_lref_def add_rref_def add_const_def no_ref_id no_const_id binds_value split: if_splits)
qed

text \<open>\<open>std::forward<T>(arg)\<close>: an lvalue exactly if \<open>T &&\<close> collapses to an lvalue reference.\<close>

definition std_forward :: "cty \<Rightarrow> expr" where
  "std_forward t = call_of (add_rref t)"

text \<open>Perfect forwarding: the argument reaches the inner function as it came, type and category.\<close>

lemma forward_same:
  assumes "plain (ety e)" "deduce P_forward e = Some t"
  shows "std_forward t = e"
proof (cases "ety e")
  case (Const_of u)
  then show ?thesis using assms plainD [OF assms(1)] by (auto simp: std_forward_def add_rref_def)
qed (use assms plainD [OF assms(1)] in \<open>auto simp: std_forward_def add_rref_def\<close>)

text \<open>Without it, the parameter is a name and so an lvalue.\<close>

lemma not_forwarded: "lvalue (variable (param_type p t))"
  by (simp add: variable_def)

section \<open>forward.cpp\<close>

text \<open>What \<open>fn\<close> and \<open>wrapper\<close> deduce for an argument.\<close>

definition fwd_fn :: "expr \<Rightarrow> cty option" where
  "fwd_fn e = deduce P_forward e"

definition fwd_wrapper :: "expr \<Rightarrow> cty option" where
  "fwd_wrapper e = (case deduce P_forward e of None \<Rightarrow> None | Some t \<Rightarrow> fwd_fn (std_forward t))"

text \<open>\<open>main\<close>: the calls, with what is printed.\<close>

definition fwd_main :: "string \<Rightarrow> (cty option \<times> string) list" where
  "fwd_main address =
     (let i = variable Int_ty; pi = variable (Pointer_to Int_ty); li = variable (Lref Int_ty); ri = variable (Rref Int_ty)
      in [(fwd_wrapper i, dec_nat 12), (fwd_wrapper pi, address), (fwd_wrapper li, dec_nat 12), (fwd_wrapper ri, dec_nat 13),
          (fwd_wrapper (std_move ri), dec_nat 13), (fwd_wrapper (rvalue Int_ty), dec_nat 12), (fwd_fn (rvalue Int_ty), dec_nat 12)])"

text \<open>A call through \<open>wrapper\<close> deduces what the direct call deduces.\<close>

lemma fwd_wrapper_same: "plain (ety e) \<Longrightarrow> fwd_wrapper e = fwd_fn e"
  using forward_same [of e] by (auto simp: fwd_wrapper_def fwd_fn_def)

section \<open>right_reference.cpp, left_reference.cpp and move.cpp\<close>

text \<open>The calls in \<open>main\<close> of \<open>right_reference.cpp\<close>, function by function, with the types deduced.\<close>

definition rr_fcn1 :: "expr \<Rightarrow> cty option" where "rr_fcn1 e = deduce P_forward e"

text \<open>\<open>fcn2\<close> returns \<open>T\<close>.\<close>

definition rr_fcn2_type :: "expr \<Rightarrow> cty option" where
  "rr_fcn2_type e = map_option decltype_call (deduce P_forward e)"

definition rr_fcn3 :: "expr \<Rightarrow> cty option" where "rr_fcn3 e = deduce P_value e"

definition rr_fcn4_type :: cty where "rr_fcn4_type = Int_ty"

definition rr_fcn5 :: "expr \<Rightarrow> bool" where "rr_fcn5 e \<longleftrightarrow> binds (Rref Int_ty) e"

definition vector_int :: cty where "vector_int = Class_ty ''vector<int>''"

definition rr_fcn6 :: "expr \<Rightarrow> bool" where "rr_fcn6 e \<longleftrightarrow> binds (Rref vector_int) e"

definition rr_fcn7 :: "expr \<Rightarrow> cty option" where "rr_fcn7 e = deduce P_crref e"

text \<open>The types deduced by the calls of \<open>fcn1\<close>, in order; whether the calls of the others are accepted.\<close>

definition rr_main_fcn1 :: "cty option list" where
  "rr_main_fcn1 =
     (let i = variable Int_ty; li = variable (Lref Int_ty); ri = variable (Rref Int_ty);
          cli = variable (Lref (Const_of Int_ty)); cri = variable (Rref (Const_of Int_ty))
      in map rr_fcn1 [rvalue Int_ty, rvalue Int_ty, li, cli, i, variable (Lref Int_ty), ri, cri, std_move ri,
           std_move (rvalue (Class_ty ''string'')), call_of rr_fcn4_type])"

definition rr_main_accepts :: bool where
  "rr_main_accepts \<longleftrightarrow> rr_fcn3 (rvalue Int_ty) = Some Int_ty \<and> rr_fcn3 (variable (Rref Int_ty)) = Some Int_ty \<and>
     rr_fcn5 (std_move (rvalue Int_ty)) \<and> rr_fcn6 (rvalue vector_int) \<and> rr_fcn6 (std_move (variable vector_int)) \<and>
     rr_fcn7 (std_move (variable vector_int)) = Some vector_int"

text \<open>The output: two comparisons of types, \<open>fcn2(b)\<close> with \<open>int &\<close> and \<open>rf_int_type &&\<close> with \<open>int &&\<close>.\<close>

definition quoted :: "string \<Rightarrow> string" where
  "quoted t = [CHR 0x27] @ t @ [CHR 0x27]"

definition rr_main :: "string list" where
  "rr_main =
     (if rr_fcn2_type (variable (Rref Int_ty)) = Some (Lref Int_ty) then [''same.''] else []) @
     (if add_rref (Rref Int_ty) = Rref Int_ty then [quoted ''int &&'' @ '' and '' @ quoted ''rf_int_type &&'' @ '' is same.''] else [])"

text \<open>\<open>left_reference.cpp\<close>: \<open>T &\<close> and \<open>const T &\<close>.\<close>

definition lr_fcn1 :: "expr \<Rightarrow> cty option" where "lr_fcn1 e = deduce P_lref e"

definition lr_fcn2 :: "expr \<Rightarrow> cty option" where "lr_fcn2 e = deduce P_clref e"

definition lr_main :: "cty option list" where
  "lr_main =
     (let i = variable Int_ty; li = variable (Lref Int_ty); ri = variable (Rref Int_ty)
      in [lr_fcn1 i, lr_fcn1 li, lr_fcn2 (rvalue Int_ty), lr_fcn2 i, lr_fcn2 ri])"

text \<open>\<open>move.cpp\<close>: the three initialisations in \<open>main\<close>, and the one that is commented out.\<close>

definition move_main :: "bool list" where
  "move_main =
     (let i = variable Int_ty; li = variable (Lref Int_ty); ri = variable (Rref Int_ty)
      in [binds (Rref Int_ty) (std_move i), binds (Rref Int_ty) (std_move li), binds (Rref Int_ty) (std_move ri)])"

lemmas expr_simps = variable_def rvalue_def std_move_def

lemma rr_main_deduces:
  "rr_main_fcn1 = map Some [Int_ty, Int_ty, Lref Int_ty, Lref (Const_of Int_ty), Lref Int_ty, Lref Int_ty, Lref Int_ty,
     Lref (Const_of Int_ty), Int_ty, Class_ty ''string'', Int_ty]"
  "rr_main_accepts" "length rr_main = 2"
  by (simp_all add: rr_main_fcn1_def rr_main_accepts_def rr_main_def rr_fcn1_def rr_fcn2_type_def rr_fcn3_def rr_fcn4_type_def
      rr_fcn5_def rr_fcn6_def rr_fcn7_def vector_int_def add_rref_def expr_simps Let_def)

lemma lr_main_deduces: "lr_main = replicate 5 (Some Int_ty)" "lr_fcn1 (rvalue Int_ty) = None"
  by (simp_all add: lr_main_def lr_fcn1_def lr_fcn2_def expr_simps Let_def eval_nat_numeral)

lemma move_main_accepted: "move_main = [True, True, True]" "\<not> binds (Rref Int_ty) (variable (Rref Int_ty))"
  by (simp_all add: move_main_def expr_simps Let_def)

section \<open>template_overload.cpp\<close>

text \<open>
  Of the templates that accept the argument, those without a change of qualification are better; of
  these, the one with the more special parameter.
\<close>

definition exact :: "param \<Rightarrow> expr \<Rightarrow> bool" where
  "exact p e \<longleftrightarrow> p \<noteq> P_cpointer \<or> (case no_const (ety e) of Pointer_to t \<Rightarrow> is_const t | _ \<Rightarrow> False)"

fun special :: "param \<Rightarrow> nat" where
  "special P_cpointer = 2" | "special P_pointer = 1" | "special _ = 0"

definition viable :: "(param \<times> nat) list \<Rightarrow> expr \<Rightarrow> (param \<times> nat) list" where
  "viable ts e = filter (\<lambda>(p, _). deduce p e \<noteq> None) ts"

definition best :: "(param \<times> nat) list \<Rightarrow> expr \<Rightarrow> (param \<times> nat) list" where
  "best ts e =
     (let vs = viable ts e; es = filter (\<lambda>(p, _). exact p e) vs; cs = (if es = [] then vs else es)
      in filter (\<lambda>(p, _). \<forall>(q, _) \<in> set cs. special q \<le> special p) cs)"

text \<open>The number the chosen template prints; a call that is ambiguous or has no candidate is rejected.\<close>

definition overload_call :: "(param \<times> nat) list \<Rightarrow> expr \<Rightarrow> nat option" where
  "overload_call ts e = (case best ts e of [(_, k)] \<Rightarrow> Some k | _ \<Rightarrow> None)"

definition ov_f :: "(param \<times> nat) list" where "ov_f = [(P_value, 1), (P_cpointer, 2)]"

definition ov_g :: "(param \<times> nat) list" where "ov_g = [(P_value, 3), (P_pointer, 4)]"

definition ov_main :: "nat option list" where
  "ov_main =
     (let p = variable (Pointer_to Int_ty); ci = variable (Const_of Int_ty); p2 = variable (Pointer_to (Const_of Int_ty))
      in [overload_call ov_g (rvalue Int_ty), overload_call ov_g p, overload_call ov_g ci, overload_call ov_g p2,
          overload_call ov_f (rvalue Int_ty), overload_call ov_f p, overload_call ov_f ci, overload_call ov_f p2])"

lemma ov_main_prints: "ov_main = map Some [3, 4, 3, 4, 1, 1, 1, 2]"
  by (simp add: ov_main_def overload_call_def best_def viable_def exact_def ov_f_def ov_g_def expr_simps Let_def)

text \<open>No call of the two is ambiguous, whatever the argument.\<close>

lemma ov_decided: "overload_call ov_f e \<noteq> None" "overload_call ov_g e \<noteq> None"
  by (auto simp: overload_call_def best_def viable_def exact_def ov_f_def ov_g_def Let_def split: cty.splits)

section \<open>template_4.cpp and CXXPRIMER/test.cpp\<close>

definition t4_fn :: "string \<Rightarrow> string \<Rightarrow> string list" where "t4_fn a b = [a, b]"

definition t4_calc :: "'a \<Rightarrow> int \<Rightarrow> 'a" where "t4_calc arg1 arg2 = arg1"

definition t4_fcn :: "'a \<Rightarrow> 'a \<Rightarrow> 'a" where "t4_fcn arg1 arg2 = arg1"

definition t4_sum :: "'a \<Rightarrow> 'b \<Rightarrow> int" where "t4_sum a b = 1"

definition t4_fcn4 :: "'a \<Rightarrow> 'a \<Rightarrow> int" where "t4_fcn4 a b = 0"

text \<open>The return types of \<open>fcn1\<close>, \<open>fcn2\<close> and \<open>fcn3\<close>, from the type of \<open>*beg\<close>.\<close>

definition t4_fcn1_type :: "cty \<Rightarrow> cty" where "t4_fcn1_type deref = deref"

definition t4_fcn2_type :: "cty \<Rightarrow> cty" where "t4_fcn2_type deref = no_ref deref"

definition t4_fcn3_type :: "cty \<Rightarrow> cty" where "t4_fcn3_type deref = no_const (no_ref deref)"

definition t4_main :: "string list" where
  "t4_main =
     (let deref = Lref (Const_of Int_ty)
      in t4_fn ''abcd'' ''abcd'' @
         (if decltype_call (t4_fcn1_type deref) = Lref (Const_of Int_ty)
          then [''The return type of fcn1(vt1.cbegin(), vt1.cend()) is const int&''] else []) @
         (if decltype_call (t4_fcn2_type deref) = Int_ty
          then [''The return type of fcn2(vt1.cbegin(), vt1.cend()) is int''] else []) @
         (if decltype_call (t4_fcn3_type deref) = Int_ty
          then [''The return type of fcn3(vt1.cbegin(), vt1.cend()) is int''] else []))"

text \<open>All three comparisons hold: a result that is no reference loses its \<open>const\<close>.\<close>

lemma t4_main_prints: "length t4_main = 5"
  by (simp add: t4_main_def t4_fn_def t4_fcn1_type_def t4_fcn2_type_def t4_fcn3_type_def)

text \<open>
  \<open>CXXPRIMER/test.cpp\<close>: the constructors, the function with a static counter and \<open>main\<close>, in which \<open>fn(1)\<close>
  makes an \<open>A\<close> of the 1; the size of a \<open>string\<close> depends on the library.
\<close>

definition ct_a :: "int \<Rightarrow> int \<Rightarrow> int \<Rightarrow> string list" where
  "ct_a a b c = [''a: '' @ dec_int a @ '', b: '' @ dec_int b]"

definition ct_b :: "int \<Rightarrow> string list" where "ct_b a = ct_a a 1 1"

definition ct_prot_mem :: int where "ct_prot_mem = 1"

definition ct_private_mem :: int where "ct_private_mem = 2"

definition ct_fn :: "int \<Rightarrow> int \<times> string list" where
  "ct_fn count = (count + 1, [''fn count: '' @ dec_int (count + 1)])"

fun ct_loop :: "nat \<Rightarrow> int \<Rightarrow> string list" where
  "ct_loop 0 count = []"
| "ct_loop (Suc k) count = (case ct_fn count of (count', out) \<Rightarrow> out @ ct_loop k count')"

definition ct_main :: "nat \<Rightarrow> string list" where
  "ct_main string_size =
     (if decltype_lvalue Int_ty = Lref Int_ty then [''decltype(*b) is same as int&''] else []) @
     (if decltype_lvalue Int_ty = Lref Int_ty then [''decltype((a)) is same as int&''] else []) @
     (if add_lref Char_ty = Lref Char_ty then [''decltype(c) is same as char&''] else []) @
     [''decltype(is.begin() - is.end()) is same as std::vector<int>::difference_type''] @
     ct_a 1 1 1 @ ct_a 1 2 1 @ ct_b 1 @
     [''b1.prot_mem: '' @ dec_int ct_prot_mem, ''b1.private_mem: '' @ dec_int ct_private_mem] @
     ct_loop 10 (- 1) @ [dec_nat string_size]"

text \<open>The counter starts at -1, so \<open>k\<close> calls print the numbers from 0 to \<open>k - 1\<close>.\<close>

lemma ct_loop_prints: "ct_loop k (int n - 1) = map (\<lambda>i. ''fn count: '' @ dec_int (int i)) [n..<n + k]"
proof (induction k arbitrary: n)
  case (Suc k)
  have "[n..<n + Suc k] = n # [Suc n..<Suc n + k]" by (simp add: upt_rec)
  then show ?case using Suc.IH [of "Suc n"] by (simp add: ct_fn_def)
qed simp

end
