(* ===== verification/Class_Samples.thy ===== *)
theory Class_Samples
  imports Clib Complex_Main
begin

text \<open>
  Small classes of the samples: the two \<open>Rational\<close>s of \<open>E_CXX/21.cpp\<close> and \<open>E_CXX/24.cpp\<close>, \<open>Window\<close> and
  \<open>SpecialWindow\<close> of \<open>E_CXX/27.cpp\<close>, and \<open>A<int>\<close> of \<open>CXXPRIMER/template.cpp\<close>. An \<open>int\<close> is an \<open>int\<close> of
  HOL; arithmetic that leaves its range is undefined (\<open>None\<close>). A log is the list of the lines printed.
\<close>

section \<open>Arithmetic on int\<close>

definition as_int :: "int \<Rightarrow> int option" where
  "as_int x = (if - (2 ^ 31) \<le> x \<and> x \<le> INT_MAX then Some x else None)"

lemma as_int_Some: "as_int x = Some y \<longleftrightarrow> y = x \<and> - (2 ^ 31) \<le> x \<and> x \<le> INT_MAX"
  by (auto simp: as_int_def)

section \<open>Rational\<close>

record rational =
  rat_n :: int
  rat_d :: int

text \<open>
  The constructor from two numbers: \<open>21.cpp\<close> prints a line, \<open>24.cpp\<close> does not. Its default constructor,
  in \<open>21.cpp\<close> only, leaves the members with what is in memory.
\<close>

definition rational21 :: "int \<Rightarrow> int \<Rightarrow> string list \<Rightarrow> rational \<times> string list" where
  "rational21 n d out = (\<lparr>rat_n = n, rat_d = d\<rparr>, out @ [''constructor''])"

definition rational21_empty :: "rational \<Rightarrow> string list \<Rightarrow> rational \<times> string list" where
  "rational21_empty garbage out = (garbage, out @ [''empty constructor''])"

definition rational24 :: "int \<Rightarrow> int \<Rightarrow> string list \<Rightarrow> rational \<times> string list" where
  "rational24 n d out = (\<lparr>rat_n = n, rat_d = d\<rparr>, out)"

definition rational_copy :: "rational \<Rightarrow> string list \<Rightarrow> rational \<times> string list" where
  "rational_copy r out = (\<lparr>rat_n = rat_n r, rat_d = rat_d r\<rparr>, out @ [''copy constructor''])"

definition rational_assign :: "rational \<Rightarrow> rational \<Rightarrow> string list \<Rightarrow> rational \<times> string list" where
  "rational_assign a b out = (a\<lparr>rat_n := rat_n b, rat_d := rat_d b\<rparr>, out @ [''copy assignment''])"

definition rational_print :: "rational \<Rightarrow> string list \<Rightarrow> string list" where
  "rational_print r out = out @ [dec_int (rat_n r), dec_int (rat_d r)]"

text \<open>Returning a local object may copy it; how often (0 to 2 times) is the compiler's choice.\<close>

fun returned :: "nat \<Rightarrow> rational \<Rightarrow> string list \<Rightarrow> rational \<times> string list" where
  "returned 0 r out = (r, out)"
| "returned (Suc k) r out = (let (r', out') = rational_copy r out in returned k r' out')"

definition rational_times21 :: "nat \<Rightarrow> rational \<Rightarrow> rational \<Rightarrow> string list \<Rightarrow> (rational \<times> string list) option" where
  "rational_times21 copies lhs rhs out =
     (case (as_int (rat_n lhs * rat_n rhs), as_int (rat_d lhs * rat_d rhs)) of
        (Some n, Some d) \<Rightarrow>
          (let (a, out1) = rational21 n d (out @ [''operator* start''])
           in Some (returned copies a (out1 @ [''operator* end''])))
      | _ \<Rightarrow> None)"

definition rational_times24 :: "nat \<Rightarrow> rational \<Rightarrow> rational \<Rightarrow> string list \<Rightarrow> (rational \<times> string list) option" where
  "rational_times24 copies lhs rhs out =
     (case (as_int (rat_n lhs * rat_n rhs), as_int (rat_d lhs * rat_d rhs)) of
        (Some n, Some d) \<Rightarrow>
          (let (a, out1) = rational24 n d (out @ [''Non-member operator* start''])
           in Some (returned copies a (out1 @ [''Non-member operator* end''])))
      | _ \<Rightarrow> None)"

definition rational_main21 :: "nat \<Rightarrow> string list option" where
  "rational_main21 copies =
     (let (a, out1) = rational21 1 2 []; (b, out2) = rational21 3 5 out1
      in case rational_times21 copies a b out2 of
           None \<Rightarrow> None | Some (c, out3) \<Rightarrow> Some (rational_print c out3))"

text \<open>In \<open>2 * a\<close> the number is converted by the constructor with its default denominator.\<close>

definition rational_main24 :: "nat \<Rightarrow> string list option" where
  "rational_main24 copies =
     (let (a, out1) = rational24 1 2 []; (b, out2) = rational24 3 5 out1; (two, out3) = rational24 2 1 out2
      in case rational_times24 copies two a out3 of
           None \<Rightarrow> None | Some (c, out4) \<Rightarrow> Some (rational_print c out4))"

text \<open>The number an object stands for.\<close>

definition rat_of :: "rational \<Rightarrow> rat" where
  "rat_of r = of_int (rat_n r) / of_int (rat_d r)"

lemma rational_copy_value [simp]: "rational_copy r out = (r, out @ [''copy constructor''])"
  by (cases r) (simp add: rational_copy_def)

lemma returned_value: "returned k r out = (r, out @ replicate k ''copy constructor'')"
  by (induction k arbitrary: out) simp_all

lemma rational_times_value:
  "rational_times21 k a b out = Some (c, out') \<Longrightarrow> rat_of c = rat_of a * rat_of b \<and> rat_d c = rat_d a * rat_d b"
  "rational_times24 k a b out = Some (c, out') \<Longrightarrow> rat_of c = rat_of a * rat_of b \<and> rat_d c = rat_d a * rat_d b"
  by (auto simp: rational_times21_def rational_times24_def rational21_def rational24_def returned_value rat_of_def
      as_int_Some Let_def split: option.splits)

lemma rational_times_defined:
  "(\<exists>r. rational_times21 k a b out = Some r) \<longleftrightarrow>
     as_int (rat_n a * rat_n b) \<noteq> None \<and> as_int (rat_d a * rat_d b) \<noteq> None"
  "(\<exists>r. rational_times24 k a b out = Some r) \<longleftrightarrow>
     as_int (rat_n a * rat_n b) \<noteq> None \<and> as_int (rat_d a * rat_d b) \<noteq> None"
  by (auto simp: rational_times21_def rational_times24_def split: option.splits prod.splits)

text \<open>The copies do not change what is printed at the end; a product is not reduced.\<close>

lemma rational_mains:
  "rational_main21 copies = Some (replicate 2 ''constructor'' @ [''operator* start'', ''constructor'', ''operator* end''] @
     replicate copies ''copy constructor'' @ [dec_int 3, dec_int 10])"
  "rational_main24 copies = Some ([''Non-member operator* start'', ''Non-member operator* end''] @
     replicate copies ''copy constructor'' @ [dec_int 2, dec_int 2])"
  by (simp_all add: rational_main21_def rational_main24_def rational_times21_def rational_times24_def
      rational21_def rational24_def rational_print_def returned_value as_int_def INT_MAX_def numeral_2_eq_2)

section \<open>Window\<close>

datatype window_class = Window | SpecialWindow

record window =
  w_size :: int
  w_count :: int

definition window_new :: "int \<Rightarrow> window" where
  "window_new s = \<lparr>w_size = s, w_count = 0\<rparr>"

definition window_onResize :: "window \<Rightarrow> (int \<times> window) option" where
  "window_onResize w =
     (case (as_int (w_count w + 1), as_int (w_size w + 1)) of
        (Some c, Some s) \<Rightarrow> Some (c, w\<lparr>w_count := c, w_size := s\<rparr>) | _ \<Rightarrow> None)"

definition special_onResize :: "window \<Rightarrow> string list \<Rightarrow> (int \<times> window \<times> string list) option" where
  "special_onResize w out =
     (case window_onResize w of
        None \<Rightarrow> None
      | Some (_, w') \<Rightarrow> Some (w_count w', w', out @ [dec_int (w_size w'), dec_int (w_count w')]))"

text \<open>A virtual call goes to the function of the object's class, whatever the type of the pointer.\<close>

definition onResize :: "window_class \<Rightarrow> window \<Rightarrow> string list \<Rightarrow> (int \<times> window \<times> string list) option" where
  "onResize k w out =
     (case k of Window \<Rightarrow> map_option (\<lambda>(c, w'). (c, w', out)) (window_onResize w)
      | SpecialWindow \<Rightarrow> special_onResize w out)"

text \<open>\<open>main\<close> first converts \<open>d1\<close> to \<open>int\<close> twice; it has no value (\<open>None\<close>), so that is undefined.\<close>

definition window_main :: "int option \<Rightarrow> string list option" where
  "window_main d1 =
     (case d1 of
        None \<Rightarrow> None
      | Some _ \<Rightarrow>
          (case onResize SpecialWindow (window_new 12) [] of
             None \<Rightarrow> None
           | Some (c, w, out) \<Rightarrow>
               map_option (\<lambda>(_, _, out'). out') (onResize SpecialWindow w (out @ [dec_int c]))))"

fun resizes :: "window_class list \<Rightarrow> window \<Rightarrow> string list \<Rightarrow> (window \<times> string list) option" where
  "resizes [] w out = Some (w, out)"
| "resizes (k # ks) w out =
     (case onResize k w out of None \<Rightarrow> None | Some (_, w', out') \<Rightarrow> resizes ks w' out')"

lemma onResize_parts:
  "onResize k w out = Some (c, w', out') \<Longrightarrow>
     w_count w' = w_count w + 1 \<and> w_size w' = w_size w + 1 \<and> c = w_count w'"
  by (cases k) (auto simp: onResize_def special_onResize_def window_onResize_def as_int_Some split: option.splits)

text \<open>Size and count grow together, through either class.\<close>

lemma resizes_parts:
  "resizes ks w out = Some (w', out') \<Longrightarrow>
     w_count w' = w_count w + int (length ks) \<and> w_size w' = w_size w + int (length ks)"
proof (induction ks arbitrary: w out)
  case (Cons k ks)
  from Cons.prems obtain c v o' where s: "onResize k w out = Some (c, v, o')" "resizes ks v o' = Some (w', out')"
    by (auto split: option.splits)
  then show ?case using onResize_parts [OF s(1)] Cons.IH [OF s(2)] by simp
qed simp

lemma window_main_undefined: "window_main None = None"
  by (simp add: window_main_def)

lemma window_main_defined:
  "window_main (Some d) = Some [dec_int 13, dec_int 1, dec_int 1, dec_int 14, dec_int 2]"
  by (simp add: window_main_def onResize_def special_onResize_def window_onResize_def window_new_def as_int_def
      INT_MAX_def)

section \<open>A<int>\<close>

record num_box =
  box :: int

definition box_pre_inc :: "num_box \<Rightarrow> num_box option" where
  "box_pre_inc a = map_option (\<lambda>v. a\<lparr>box := v\<rparr>) (as_int (box a + 1))"

definition box_pre_dec :: "num_box \<Rightarrow> num_box option" where
  "box_pre_dec a = map_option (\<lambda>v. a\<lparr>box := v\<rparr>) (as_int (box a - 1))"

text \<open>The postfix operators return the copy made before and leave the changed object.\<close>

definition box_post_inc :: "num_box \<Rightarrow> (num_box \<times> num_box) option" where
  "box_post_inc a = (let ret = a in map_option (\<lambda>a'. (ret, a')) (box_pre_inc a))"

definition box_post_dec :: "num_box \<Rightarrow> (num_box \<times> num_box) option" where
  "box_post_dec a = (let ret = a in map_option (\<lambda>a'. (ret, a')) (box_pre_dec a))"

definition box_print :: "num_box \<Rightarrow> string" where
  "box_print a = dec_int (box a)"

text \<open>The lines of \<open>main\<close>: \<open>template_fn_1<double>(12)\<close> prints \<open>12\<close>, \<open>template_fn_3\<close> the size of five doubles.\<close>

definition template_main :: "string list option" where
  "template_main =
     (case box_pre_inc \<lparr>box = 121\<rparr> of
        None \<Rightarrow> None
      | Some a1 \<Rightarrow>
          (case box_post_inc a1 of
             None \<Rightarrow> None
           | Some (old, a1') \<Rightarrow> Some [dec_int 12, dec_int (5 * 8), box_print old, box_print a1']))"

lemma box_ops_inverse:
  "box_pre_inc a = Some b \<Longrightarrow> - (2 ^ 31) \<le> box a \<Longrightarrow> box_pre_dec b = Some a"
  "box_post_inc a = Some (r, b) \<Longrightarrow> r = a \<and> box b = box a + 1"
  "box_post_dec a = Some (r, b) \<Longrightarrow> r = a \<and> box b = box a - 1"
  by (auto simp: box_pre_inc_def box_pre_dec_def box_post_inc_def box_post_dec_def as_int_def split: if_splits)

lemma template_main_lines: "template_main = Some [dec_int 12, dec_int 40, dec_int 122, dec_int 123]"
  by (simp add: template_main_def box_pre_inc_def box_post_inc_def box_print_def as_int_def INT_MAX_def)

section \<open>Initialisation\<close>

text \<open>
  The local class \<open>B\<close> of \<open>Initializers\<close> in \<open>CXXPRIMER/ch02/main.cpp\<close>. Its assignment prints a line and
  copies nothing.
\<close>

record init_b =
  b_a :: int

definition b_default :: "string list \<Rightarrow> init_b \<times> string list" where
  "b_default out = (\<lparr>b_a = 0\<rparr>, out @ [''default B()''])"

definition b_of :: "int \<Rightarrow> string list \<Rightarrow> init_b \<times> string list" where
  "b_of arg out = (\<lparr>b_a = arg\<rparr>, out @ [''B(int arg)''])"

definition b_copy :: "init_b \<Rightarrow> string list \<Rightarrow> init_b \<times> string list" where
  "b_copy b out = (\<lparr>b_a = b_a b\<rparr>, out @ [''B(const B&)''])"

definition b_assign :: "init_b \<Rightarrow> init_b \<Rightarrow> string list \<Rightarrow> init_b \<times> string list" where
  "b_assign this b out = (this, out @ [''B& operator=(const B&)''])"

text \<open>The objects \<open>b\<close>, \<open>c\<close>, \<open>d\<close>, \<open>d1\<close>, \<open>d2\<close>, \<open>d3\<close> at the end, and the log.\<close>

definition Initializers :: "init_b list \<times> string list" where
  "Initializers =
     (let (b, out) = b_default []; (c, out) = b_of 1 out; (b, out) = b_assign b c out;
          (d, out) = b_copy c out; (d1, out) = b_copy c out; (d2, out) = b_of 1 out; (d3, out) = b_of 1 out
      in ([b, c, d, d1, d2, d3], out))"

text \<open>\<open>b = c\<close> leaves \<open>b\<close> at 0.\<close>

lemma Initializers_values: "map b_a (fst Initializers) = [0, 1, 1, 1, 1, 1]"
  by (simp add: Initializers_def b_default_def b_of_def b_copy_def b_assign_def)

end
