(* ===== verification/Misc_Samples.thy ===== *)
theory Misc_Samples
  imports Class_Samples
begin

text \<open>
  Further samples with a computation of their own: \<open>Screen\<close> of \<open>Reference/member_pointer.cpp\<close>, the two
  operations of \<open>Reference/funcation.cpp\<close>, \<open>ADL::swap\<close> of \<open>CXXPRIMER/namespace/namespace.cpp\<close>, and the
  unions of \<open>Reference/union.cpp\<close>.
\<close>

section \<open>Screen\<close>

datatype move_enum = M_up | M_right | M_down | M_left

fun move_code :: "move_enum \<Rightarrow> nat" where
  "move_code M_up = 0" | "move_code M_right = 1" | "move_code M_down = 3" | "move_code M_left = 4"

text \<open>The table of the four members, each named after its direction.\<close>

definition Menu :: "move_enum list" where
  "Menu = [M_up, M_right, M_down, M_left]"

text \<open>\<open>move\<close>: the member that is called; a look behind the end of the table is undefined.\<close>

definition screen_move :: "move_enum \<Rightarrow> move_enum option" where
  "screen_move direct = (if move_code direct < length Menu then Some (Menu ! move_code direct) else None)"

record screen =
  screen_contents :: string
  cursor :: nat

text \<open>\<open>contents[contents.size()]\<close> is the null character.\<close>

definition get_cursor :: "screen \<Rightarrow> char option" where
  "get_cursor s =
     (if cursor s < length (screen_contents s) then Some (screen_contents s ! cursor s)
      else if cursor s = length (screen_contents s) then Some (CHR 0x00) else None)"

definition screen_get :: "screen \<Rightarrow> nat \<Rightarrow> nat \<Rightarrow> char" where
  "screen_get s ht wd = CHR ''a''"

text \<open>Only two of the four directions call the member of their name.\<close>

lemma screen_move_table:
  "screen_move M_up = Some M_up" "screen_move M_right = Some M_right" "screen_move M_down = Some M_left"
  "screen_move M_left = None"
  by (simp_all add: screen_move_def Menu_def)

section \<open>mod and add\<close>

text \<open>\<open>%\<close> rounds towards zero; it is undefined for 0 and where the quotient does not fit.\<close>

definition c_mod :: "int \<Rightarrow> int \<Rightarrow> int option" where
  "c_mod a b = (if b = 0 \<or> a = - (2 ^ 31) \<and> b = -1 then None else Some (sgn a * (\<bar>a\<bar> mod \<bar>b\<bar>)))"

definition c_add :: "int \<Rightarrow> int \<Rightarrow> int option" where
  "c_add a b = as_int (a + b)"

definition calc_map :: "string \<rightharpoonup> (int \<Rightarrow> int \<Rightarrow> int option)" where
  "calc_map = [''mod'' \<mapsto> c_mod, ''add'' \<mapsto> c_add]"

text \<open>\<open>calc_map[key](a, b)\<close>; calling the empty function of a new key throws (\<open>Inl\<close> with the key).\<close>

definition calc :: "string \<Rightarrow> int \<Rightarrow> int \<Rightarrow> (string + int) option" where
  "calc key a b = (case calc_map key of None \<Rightarrow> Some (Inl key) | Some f \<Rightarrow> map_option Inr (f a b))"

definition calc_main :: "(string + int) option" where
  "calc_main = calc ''mod'' 13 2"

lemma calc_main_value: "calc_main = Some (Inr 1)"
  by (simp add: calc_main_def calc_def calc_map_def c_mod_def)

text \<open>The remainder has the sign of the first number and is smaller than the second.\<close>

lemma c_mod_range:
  assumes "c_mod a b = Some r"
  shows "\<bar>r\<bar> < \<bar>b\<bar> \<and> b dvd a - r \<and> (r = 0 \<or> sgn r = sgn a)"
proof -
  define m where "m = \<bar>a\<bar> mod \<bar>b\<bar>"
  have b: "b \<noteq> 0" and r: "r = sgn a * m" using assms by (auto simp: c_mod_def m_def split: if_splits)
  then have m: "0 \<le> m" "m < \<bar>b\<bar>" by (simp_all add: m_def)
  have "b dvd \<bar>a\<bar> - m" unfolding m_def by (metis abs_dvd_iff dvd_minus_mod)
  then have "b dvd sgn a * (\<bar>a\<bar> - m)" by (rule dvd_mult)
  moreover have "a - r = sgn a * (\<bar>a\<bar> - m)" by (simp add: r right_diff_distrib sgn_mult_abs)
  moreover have "\<bar>r\<bar> \<le> m" using m by (simp add: r abs_mult abs_sgn_eq)
  moreover have "r = 0 \<or> sgn r = sgn a" using m by (cases "m = 0") (simp_all add: r sgn_mult)
  ultimately show ?thesis using m by simp
qed

section \<open>ADL::swap\<close>

record adl_a =
  mem :: string
  adl_i :: int

text \<open>The member swaps both parts; the free function prints a line first.\<close>

definition adl_member_swap :: "adl_a \<Rightarrow> adl_a \<Rightarrow> adl_a \<times> adl_a" where
  "adl_member_swap this a = (\<lparr>mem = mem a, adl_i = adl_i a\<rparr>, \<lparr>mem = mem this, adl_i = adl_i this\<rparr>)"

definition adl_swap :: "adl_a \<Rightarrow> adl_a \<Rightarrow> string list \<Rightarrow> (adl_a \<times> adl_a) \<times> string list" where
  "adl_swap a b out = (adl_member_swap a b, out @ [''ADL::swap(A &)''])"

text \<open>\<open>adl\<close>: \<open>fn(a)\<close>, the two members swapped by \<open>std::swap\<close>, then both objects.\<close>

definition adl :: "adl_a \<Rightarrow> adl_a \<Rightarrow> (adl_a \<times> adl_a) \<times> string list" where
  "adl a b =
     (let out = [''ADL::fn(const A&)''];
          (a, b) = (a\<lparr>mem := mem b\<rparr>, b\<lparr>mem := mem a\<rparr>);
          (a, b) = (a\<lparr>adl_i := adl_i b\<rparr>, b\<lparr>adl_i := adl_i a\<rparr>)
      in adl_swap a b out)"

text \<open>Swapping part by part and then as a whole gives the objects back.\<close>

lemma adl_swaps_back: "fst (adl a b) = (a, b)"
  by (cases a; cases b) (simp add: adl_def adl_swap_def adl_member_swap_def)

section \<open>Unions\<close>

text \<open>
  A member of a union that was not the last one written is read from the same bytes (an extension of the
  compilers the sample relies on), on a little-endian machine with 64-bit words.
\<close>

record u1 =
  u_bits :: "64 word"

definition u1_a1 :: "u1 \<Rightarrow> 64 word" where
  "u1_a1 u = u_bits u"

definition u1_a2 :: "u1 \<Rightarrow> 32 word" where
  "u1_a2 u = ucast (u_bits u)"

definition u1_a3 :: "u1 \<Rightarrow> int" where
  "u1_a3 u = sint (u_bits u)"

definition u1_get :: "u1 \<Rightarrow> 64 word" where
  "u1_get u = u1_a1 u"

definition u1_set_a1 :: "64 word \<Rightarrow> u1 \<Rightarrow> u1" where
  "u1_set_a1 x u = u\<lparr>u_bits := x\<rparr>"

text \<open>The largest unsigned number reads as -1.\<close>

lemma u1_main: "u1_get (u1_set_a1 (- 1) u) = - 1 \<and> u1_a3 (u1_set_a1 (- 1) u) = - 1"
  by (simp add: u1_get_def u1_a1_def u1_a3_def u1_set_a1_def)

end
