(* ===== verification/Small_Classes.thy ===== *)
theory Small_Classes
  imports Misc_Samples
begin

text \<open>
  Samples with one small class or function each: \<open>E_CXX/03.cpp\<close> (a mutable member), \<open>E_CXX/25.cpp\<close> (swap
  by pointer), \<open>E_CXX/26.cpp\<close>, \<open>CXX/test.cpp\<close>, \<open>CXXPRIMER/class/\<close>, \<open>Reference/enum.cpp\<close>,
  \<open>Reference/nested_class.cpp\<close>, \<open>CXXPRIMER/bind.cpp\<close>, \<open>template/include/specializations.h\<close>, the standard
  smart pointers of \<open>CXXPRIMER/memory\<close>, and the \<open>main\<close> functions around \<open>Misc_Samples\<close>.
\<close>

section \<open>E_CXX/03.cpp\<close>

text \<open>The constructor does not initialise \<open>length\<close> (\<open>None\<close>).\<close>

record text_block =
  tb_text :: string
  tb_length :: "nat option"

definition text_block_new :: "string \<Rightarrow> text_block" where
  "text_block_new str = \<lparr>tb_text = str, tb_length = None\<rparr>"

text \<open>The two \<open>operator[]\<close>: the position after the last character is the null character, behind it nothing is defined.\<close>

definition string_at :: "string \<Rightarrow> nat \<Rightarrow> char option" where
  "string_at s position =
     (if position < length s then Some (s ! position) else if position = length s then Some NUL else None)"

definition tb_at_const :: "text_block \<Rightarrow> nat \<Rightarrow> char option \<times> text_block" where
  "tb_at_const tb position =
     (let tb' = tb\<lparr>tb_length := Some (length (tb_text tb))\<rparr> in (string_at (tb_text tb') position, tb'))"

definition tb_at :: "text_block \<Rightarrow> nat \<Rightarrow> char option" where
  "tb_at tb position = string_at (tb_text tb) position"

definition tb_fn_const :: "text_block \<Rightarrow> nat option" where
  "tb_fn_const tb = tb_length tb"

text \<open>The other \<open>fn\<close> calls it.\<close>

definition tb_fn :: "text_block \<Rightarrow> nat option" where
  "tb_fn tb = tb_fn_const tb"

definition tb_main :: "char option list" where
  "tb_main = (let tb = text_block_new ''Hello''; ctb = text_block_new ''Hello'' in [tb_at tb 0, fst (tb_at_const ctb 0)])"

text \<open>\<open>fn\<close> is undefined until the \<open>const\<close> \<open>operator[]\<close> has been called, and the length after it.\<close>

lemma tb_fn_length:
  "tb_fn (text_block_new s) = None" "tb_fn (snd (tb_at_const tb i)) = Some (length (tb_text tb))"
  by (simp_all add: tb_fn_def tb_fn_const_def tb_at_const_def text_block_new_def Let_def)

lemma tb_main_prints: "tb_main = [Some CHR ''H'', Some CHR ''H'']"
  by (simp add: tb_main_def tb_at_def tb_at_const_def text_block_new_def string_at_def Let_def)

section \<open>E_CXX/25.cpp\<close>

text \<open>A widget points to its implementation; the default constructor leaves the pointer uninitialised.\<close>

record widget =
  pImpl :: "nat option"

definition widget_new :: widget where
  "widget_new = \<lparr>pImpl = None\<rparr>"

text \<open>\<open>operator=\<close> copies what the pointers point to, and is undefined if one points nowhere.\<close>

definition widget_assign :: "widget \<Rightarrow> widget \<Rightarrow> (nat \<rightharpoonup> 'i) \<Rightarrow> (nat \<rightharpoonup> 'i) option" where
  "widget_assign w rhs h = (case (pImpl w, pImpl rhs) of
     (Some a, Some b) \<Rightarrow> (case (h a, h b) of (Some _, Some x) \<Rightarrow> Some (h(a \<mapsto> x)) | _ \<Rightarrow> None) | _ \<Rightarrow> None)"

definition widget_swap :: "widget \<Rightarrow> widget \<Rightarrow> widget \<times> widget" where
  "widget_swap this other = (this\<lparr>pImpl := pImpl other\<rparr>, other\<lparr>pImpl := pImpl this\<rparr>)"

definition widget_swap_line :: string where
  "widget_swap_line = ''template <typename T> void swap(Widget<T> & a, Widget<T> & b) ''"

definition widget_free_swap :: "widget \<times> widget \<Rightarrow> string list \<Rightarrow> (widget \<times> widget) \<times> string list" where
  "widget_free_swap ab out = (case ab of (a, b) \<Rightarrow> (widget_swap a b, out @ [widget_swap_line]))"

text \<open>The specialisation of \<open>std::swap\<close> for the implementations has an empty body.\<close>

definition impl_swap :: "'i \<Rightarrow> 'i \<Rightarrow> 'i \<times> 'i" where
  "impl_swap a b = (a, b)"

text \<open>\<open>doSomething\<close>: the unqualified \<open>swap\<close> is the one of the namespace of its arguments.\<close>

definition doSomething :: "widget \<times> widget \<Rightarrow> string list \<Rightarrow> (widget \<times> widget) \<times> string list" where
  "doSomething = widget_free_swap"

definition widget_main :: "(widget \<times> widget) \<times> string list" where
  "widget_main = (case widget_free_swap (widget_new, widget_new) [] of (ab, out) \<Rightarrow> doSomething ab out)"

lemma widget_swap_twice: "widget_free_swap (fst (widget_free_swap ab out)) out' = (ab, out' @ [widget_swap_line])"
  by (cases ab) (simp add: widget_free_swap_def widget_swap_def)

text \<open>Swapping exchanges what the widgets show; assigning makes both show the same and leaves the pointers.\<close>

lemma widget_assign_copies:
  assumes "pImpl w = Some a" "pImpl rhs = Some b" "h a = Some x" "h b = Some y"
  shows "widget_assign w rhs h = Some (h(a \<mapsto> y))"
  using assms by (simp add: widget_assign_def)

section \<open>E_CXX/26.cpp and CXX/test.cpp\<close>

definition encryptPassword :: "string \<Rightarrow> string + string" where
  "encryptPassword password = (if length password < 1024 then Inl ''password is too short'' else Inr password)"

lemma encrypt_keeps: "encryptPassword p = Inr q \<Longrightarrow> q = p \<and> 1024 \<le> length q"
  by (simp add: encryptPassword_def split: if_splits)

definition cxx_fn :: "string list" where
  "cxx_fn = [''A()''] @ [''~A()'']"

section \<open>CXXPRIMER/class, nested\_class.cpp, bind.cpp\<close>

definition class_a :: "string list \<Rightarrow> string list" where
  "class_a out = out @ [''A::A()'']"

definition class_a_int :: "int \<Rightarrow> string list \<Rightarrow> string list" where
  "class_a_int x out = out @ [''A::A('' @ dec_int x @ '')'']"

text \<open>\<open>main\<close> prints four addresses; those of the static member of \<open>C<int>\<close> are the same.\<close>

definition class_main :: "string \<Rightarrow> string \<Rightarrow> string \<Rightarrow> string list" where
  "class_main const_addr static_addr c_addr =
     class_a_int 1 (class_a []) @ [const_addr, static_addr, ''c.static_int: '' @ c_addr, ''C<int>::static_int: '' @ c_addr]"

definition nested_main :: "string list" where
  "nested_main = [dec_int 12]"

definition bind_print :: "int \<Rightarrow> int \<Rightarrow> string" where
  "bind_print a b = dec_int a @ dec_int b"

text \<open>\<open>bind\<close> fixes the stream and the first number.\<close>

definition bindWrapper :: "int \<Rightarrow> string" where
  "bindWrapper = bind_print 101"

definition bind_main :: "string list" where
  "bind_main = [bind_print 1 1, bindWrapper 102]"

section \<open>enum.cpp\<close>

datatype e1 = E1_1 | E1_2 | E1_3
datatype e2 = E2_1 | E2_2 | E2_3
datatype unnamed_enum = NONE_ENUM_1 | NONE_ENUM_2 | NONE_ENUM_3

fun e1_code :: "e1 \<Rightarrow> int" where "e1_code E1_1 = 0" | "e1_code E1_2 = 1" | "e1_code E1_3 = 1"

fun e2_code :: "e2 \<Rightarrow> 64 word" where "e2_code E2_1 = 0" | "e2_code E2_2 = 1" | "e2_code E2_3 = - 1"

fun unnamed_code :: "unnamed_enum \<Rightarrow> 64 word" where
  "unnamed_code NONE_ENUM_1 = 0" | "unnamed_code NONE_ENUM_2 = 1" | "unnamed_code NONE_ENUM_3 = - 1"

text \<open>\<open>main\<close>; the size of an enumeration that needs 64 bits is 8.\<close>

definition enum_main :: "nat list" where
  "enum_main = [1, unat (e2_code E2_3), 8]"

lemma enum_main_prints: "enum_main = [1, 18446744073709551615, 8]" "e1_code E1_2 = e1_code E1_3"
  by (simp_all add: enum_main_def unsigned_minus_1_eq_mask mask_eq_exp_minus_1)

section \<open>specializations.h\<close>

text \<open>\<open>stringify\<close> for \<open>int\<close> (the general template) and for \<open>bool\<close>.\<close>

definition stringify_int :: "int \<Rightarrow> string" where
  "stringify_int x = dec_int x"

definition stringify_bool :: "bool \<Rightarrow> string" where
  "stringify_bool x = (if x then ''true'' else ''false'')"

section \<open>The standard smart pointers\<close>

text \<open>\<open>std::shared_ptr\<close> and \<open>std::weak_ptr\<close> to one object: how many of each there are.\<close>

record control_block =
  strong :: nat
  weak :: nat

definition shared_reset :: control_block where
  "shared_reset = \<lparr>strong = 1, weak = 0\<rparr>"

definition shared_copy :: "control_block \<Rightarrow> control_block" where
  "shared_copy b = b\<lparr>strong := strong b + 1\<rparr>"

definition shared_drop :: "control_block \<Rightarrow> control_block" where
  "shared_drop b = b\<lparr>strong := strong b - 1\<rparr>"

definition weak_new :: "control_block \<Rightarrow> control_block" where
  "weak_new b = b\<lparr>weak := weak b + 1\<rparr>"

text \<open>\<open>lock\<close> makes a shared pointer if there still is one.\<close>

definition weak_lock :: "control_block \<Rightarrow> bool \<times> control_block" where
  "weak_lock b = (if strong b = 0 then (False, b) else (True, shared_copy b))"

definition shared_main :: nat where
  "shared_main = strong (shared_copy shared_reset)"

text \<open>In \<open>weak_ptr.cpp\<close> the pointer that \<open>lock\<close> returns is dropped at once.\<close>

definition weak_main :: nat where
  "weak_main =
     (let b = weak_new (shared_copy shared_reset)
      in case weak_lock b of (got, b') \<Rightarrow> strong (if got then shared_drop b' else b'))"

text \<open>\<open>unique_ptr.cpp\<close>: a pointer that was moved from is null.\<close>

definition unique_move :: "nat option \<Rightarrow> nat option \<times> nat option" where
  "unique_move p = (p, None)"

definition std_unique_main :: "(nat \<rightharpoonup> int) \<Rightarrow> nat \<Rightarrow> int option" where
  "std_unique_main h a =
     (let h = h(a \<mapsto> 101); (copy_1, ptr) = unique_move (Some a); (copy_2, copy_1) = unique_move copy_1
      in Option.bind copy_2 h)"

lemma smart_mains: "shared_main = 2" "weak_main = 2" "std_unique_main h a = Some 101"
  by (simp_all add: shared_main_def weak_main_def shared_reset_def shared_copy_def shared_drop_def weak_new_def weak_lock_def
      std_unique_main_def unique_move_def)

section \<open>The main functions around Misc\_Samples\<close>

text \<open>
  \<open>member_pointer.cpp\<close>: the string becomes the one character with the code 12; the address, and whether
  the member seen through the pointer to a constant is constant.
\<close>

definition screen_main :: "string \<Rightarrow> string \<times> string list" where
  "screen_main addr =
     (let s1 = \<lparr>screen_contents = [], cursor = 0\<rparr>; s1 = s1\<lparr>screen_contents := [CHR 0x0C]\<rparr>
      in (screen_contents s1, [addr, dec_nat 1]))"

text \<open>\<open>namespace.cpp\<close>; the addresses of the two copies of \<open>unamed_namespace\<close> are arguments.\<close>

definition print1 :: "string \<Rightarrow> string list" where "print1 addr = [''unamed_namespace: '' @ addr]"

definition print2 :: "string \<Rightarrow> string list" where "print2 addr = [''unamed_namespace: '' @ addr]"

definition namespace_main :: "string \<Rightarrow> string \<Rightarrow> adl_a \<Rightarrow> adl_a \<Rightarrow> string list" where
  "namespace_main addr1 addr2 x y =
     (let nested_a = 12; nested_b = 13; i_n_1 = 102; i_n_2 = 103; thread_local_1 = 12; global_i_n_2 = 101
      in [dec_int nested_a @ '' '' @ dec_int nested_b, dec_int i_n_1, dec_int i_n_1, dec_int thread_local_1] @
         print1 addr1 @ print2 addr2 @ [dec_int i_n_2, dec_int global_i_n_2] @ snd (adl x y))"

text \<open>\<open>union.cpp\<close>: three lines, then the sum \<open>INT32_MAX + 1\<close>, which is undefined (\<open>None\<close>).\<close>

definition union_lines :: "u1 \<Rightarrow> string list" where
  "union_lines s = [dec_nat (unat (u1_a1 s)) @ '' '' @ dec_int (u1_a3 s) @ '' '' @ dec_int (2 ^ 63 - 1), dec_nat (unat (u1_get s)), dec_nat 8]"

definition union_main :: "u1 \<Rightarrow> string list \<times> int option" where
  "union_main s = (let s = u1_set_a1 (- 1) s in (union_lines s, as_int (INT_MAX + 1)))"

lemma union_main_undefined: "snd (union_main s) = None"
  by (simp add: union_main_def as_int_def INT_MAX_def)

end
