(* ===== verification/Object_Logs.thy ===== *)
theory Object_Logs
  imports Clib
begin

text \<open>
  In which order the samples construct, copy and destroy objects: \<open>E_CXX/07.cpp\<close>, \<open>09.cpp\<close>, \<open>12.cpp\<close>,
  \<open>20.cpp\<close> and \<open>CXXPRIMER/virtual_inherit/virtual_inherit.cpp\<close>. Each constructor, destructor and member
  takes the lines printed so far and returns them with its own.
\<close>

section \<open>A virtual destructor (07.cpp)\<close>

text \<open>The class an object has at the moment: a constructor makes it its own, a destructor too.\<close>

datatype cls = Base_cls | C_cls

definition base07_destructor :: "string list \<Rightarrow> string list" where
  "base07_destructor out = out @ [''~Base()'']"

definition c07_destructor :: "string list \<Rightarrow> string list" where
  "c07_destructor out = base07_destructor (out @ [''~C()''])"

text \<open>\<open>delete\<close> through a pointer to \<open>Base\<close>: the destructor is virtual.\<close>

definition delete07 :: "cls \<Rightarrow> string list \<Rightarrow> string list" where
  "delete07 dyn out = (case dyn of Base_cls \<Rightarrow> base07_destructor out | C_cls \<Rightarrow> c07_destructor out)"

definition fn07 :: "string list \<Rightarrow> string list" where
  "fn07 out = delete07 C_cls out"

section \<open>Virtual calls in constructors and destructors (09.cpp)\<close>

definition virtualFn :: "cls \<Rightarrow> string list \<Rightarrow> string list" where
  "virtualFn dyn out = out @ [case dyn of Base_cls \<Rightarrow> ''Base virtualFn'' | C_cls \<Rightarrow> ''C virtualFn'']"

definition base09 :: "string list \<Rightarrow> cls \<times> string list" where
  "base09 out = (let dyn = Base_cls in (dyn, virtualFn dyn out))"

definition c09 :: "string list \<Rightarrow> cls \<times> string list" where
  "c09 out = (let (_, out') = base09 out in (C_cls, out'))"

definition base09_destructor :: "string list \<Rightarrow> string list" where
  "base09_destructor out = virtualFn Base_cls (out @ [''~Base()''])"

definition c09_destructor :: "string list \<Rightarrow> string list" where
  "c09_destructor out = base09_destructor (out @ [''~C()''])"

definition delete09 :: "cls \<Rightarrow> string list \<Rightarrow> string list" where
  "delete09 dyn out = (case dyn of Base_cls \<Rightarrow> base09_destructor out | C_cls \<Rightarrow> c09_destructor out)"

definition fn09 :: "string list \<Rightarrow> string list" where
  "fn09 out = (let (dyn, out1) = c09 out in delete09 dyn (virtualFn dyn out1))"

section \<open>Copying every part (12.cpp and 20.cpp)\<close>

definition base12 :: "string list \<Rightarrow> string list" where
  "base12 out = out @ [''construct Base'']"

definition base12_copy :: "string list \<Rightarrow> string list" where
  "base12_copy out = out @ [''copy construct Base'']"

definition base12_assign :: "string list \<Rightarrow> string list" where
  "base12_assign out = out @ [''copy assignment Base'']"

definition c12 :: "string list \<Rightarrow> string list" where
  "c12 out = base12 out @ [''construct C'']"

definition c12_copy :: "string list \<Rightarrow> string list" where
  "c12_copy out = base12_copy out @ [''copy construct C'']"

definition c12_assign :: "string list \<Rightarrow> string list" where
  "c12_assign out = base12_assign out @ [''copy assignment C'']"

text \<open>\<open>C c1; C c2(c1); C c3 = c2; c3 = c1;\<close>\<close>

definition fn12 :: "string list \<Rightarrow> string list" where
  "fn12 out = c12_assign (c12_copy (c12_copy (c12 out)))"

text \<open>By value the argument is cut down to a \<open>Base\<close>; by reference nothing is copied.\<close>

definition fn20 :: "string list \<Rightarrow> string list" where
  "fn20 out = base12_copy out"

definition fn20_ref :: "string list \<Rightarrow> string list" where
  "fn20_ref out = out"

definition main20 :: "string list \<Rightarrow> string list" where
  "main20 out = fn20_ref (fn20 (c12 out))"

section \<open>Virtual bases\<close>

text \<open>Only the constructor of the complete object (\<open>most\<close>) constructs the virtual bases.\<close>

definition vbase :: "string list \<Rightarrow> string list" where
  "vbase out = out @ [''Base()'']"

definition vbase_int :: "int \<Rightarrow> string list \<Rightarrow> string list" where
  "vbase_int a out = out @ [''Base(int)'']"

definition vbase_destructor :: "string list \<Rightarrow> string list" where
  "vbase_destructor out = out @ [''~Base()'']"

definition va :: "bool \<Rightarrow> string list \<Rightarrow> string list" where
  "va most out = (if most then vbase out else out) @ [''A()'']"

definition va_destructor :: "bool \<Rightarrow> string list \<Rightarrow> string list" where
  "va_destructor most out = (let out' = out @ [''~A()''] in if most then vbase_destructor out' else out')"

definition vb :: "bool \<Rightarrow> string list \<Rightarrow> string list" where
  "vb most out = (if most then vbase out else out) @ [''B()'']"

definition vb_destructor :: "bool \<Rightarrow> string list \<Rightarrow> string list" where
  "vb_destructor most out = (let out' = out @ [''~B()''] in if most then vbase_destructor out' else out')"

definition vc :: "bool \<Rightarrow> string list \<Rightarrow> string list" where
  "vc most out = (if most then vb False (va False (vbase out)) else out)"

definition vc_destructor :: "bool \<Rightarrow> string list \<Rightarrow> string list" where
  "vc_destructor most out = (if most then vbase_destructor (va_destructor False (vb_destructor False out)) else out)"

definition vd :: "int \<Rightarrow> string list \<Rightarrow> string list" where
  "vd a out = vc False (vb False (va False (vbase_int a out)))"

definition vd_destructor :: "string list \<Rightarrow> string list" where
  "vd_destructor out = vbase_destructor (va_destructor False (vb_destructor False (vc_destructor False out)))"

definition virtual_main :: "string \<Rightarrow> string list" where
  "virtual_main addr = vd_destructor (vd 12 [] @ [addr])"

section \<open>What is printed\<close>

lemmas object_ops =
  base07_destructor_def c07_destructor_def delete07_def fn07_def
  virtualFn_def base09_def c09_def base09_destructor_def c09_destructor_def delete09_def fn09_def
  base12_def base12_copy_def base12_assign_def c12_def c12_copy_def c12_assign_def fn12_def fn20_def fn20_ref_def
  main20_def vbase_def vbase_int_def vbase_destructor_def va_def va_destructor_def vb_def vb_destructor_def vc_def
  vc_destructor_def vd_def vd_destructor_def virtual_main_def

text \<open>The destructor of the object's class runs, and then that of its base.\<close>

lemma fn07_log: "fn07 out = out @ [''~C()'', ''~Base()'']"
  by (simp add: object_ops)

text \<open>While the base part is built and destroyed, virtual calls stay in \<open>Base\<close>.\<close>

lemma fn09_log: "fn09 out = out @ [''Base virtualFn'', ''C virtualFn'', ''~C()'', ''~Base()'', ''Base virtualFn'']"
  by (simp add: object_ops)

text \<open>Each copy and each assignment of a \<open>C\<close> does the same to its base first.\<close>

lemma fn12_log:
  "fn12 out = out @ [''construct Base'', ''construct C'', ''copy construct Base'', ''copy construct C'',
     ''copy construct Base'', ''copy construct C'', ''copy assignment Base'', ''copy assignment C'']"
  by (simp add: object_ops)

lemma main20_log: "main20 out = out @ [''construct Base'', ''construct C'', ''copy construct Base'']"
  by (simp add: object_ops)

text \<open>The virtual base is constructed once, with the argument of \<open>D\<close>, and destroyed last.\<close>

lemma virtual_log:
  "virtual_main addr = [''Base(int)'', ''A()'', ''B()'', addr, ''~B()'', ''~A()'', ''~Base()'']"
  by (simp add: object_ops)

end
