(* ===== verification/More_Samples.thy ===== *)
theory More_Samples
  imports Class_Samples Object_Logs Class_Tables
begin

text \<open>
  The classes that a sample repeats from an earlier one (\<open>E_CXX/20.cpp\<close> from \<open>12.cpp\<close>, \<open>24.cpp\<close> from \<open>21.cpp\<close>,
  \<open>M_EXX/2.cpp\<close> from \<open>1.cpp\<close>), the \<open>main\<close> functions that only call \<open>fn\<close>, and \<open>E_CXX/04.cpp\<close>, the function templates
  of \<open>template.cpp\<close>, the literals of \<open>ch02/main.cpp\<close> and \<open>type_convert/explicit.cpp\<close>.
\<close>

section \<open>Repeated classes\<close>

definition base20 :: "string list \<Rightarrow> string list" where "base20 = base12"

definition base20_copy :: "string list \<Rightarrow> string list" where "base20_copy = base12_copy"

definition base20_assign :: "string list \<Rightarrow> string list" where "base20_assign = base12_assign"

definition c20 :: "string list \<Rightarrow> string list" where "c20 = c12"

definition c20_copy :: "string list \<Rightarrow> string list" where "c20_copy = c12_copy"

definition c20_assign :: "string list \<Rightarrow> string list" where "c20_assign = c12_assign"

text \<open>The destructors of \<open>20.cpp\<close> print nothing; \<open>main\<close> there is the one of \<open>Object_Logs\<close>.\<close>

lemma main20_calls: "main20 out = base20_copy (c20 out)"
  by (simp add: main20_def fn20_def fn20_ref_def base20_copy_def c20_def)

definition rational24_copy :: "rational \<Rightarrow> string list \<Rightarrow> rational \<times> string list" where
  "rational24_copy = rational_copy"

definition rational24_assign :: "rational \<Rightarrow> rational \<Rightarrow> string list \<Rightarrow> rational \<times> string list" where
  "rational24_assign = rational_assign"

definition rational24_print :: "rational \<Rightarrow> string list \<Rightarrow> string list" where
  "rational24_print = rational_print"

definition rational_numerator :: "rational \<Rightarrow> int" where "rational_numerator r = rat_n r"

definition rational_denominator :: "rational \<Rightarrow> int" where "rational_denominator r = rat_d r"

definition mexx2_classes :: class_table where "mexx2_classes = mexx_classes"

definition mexx2_f :: "string \<Rightarrow> cast_error + string list" where "mexx2_f = mexx_f"

lemma mexx2_f_throws: "mexx2_f address = Inl Bad_cast"
  by (simp add: mexx2_f_def mexx_f_throws)

section \<open>main of 07.cpp, 09.cpp and 12.cpp\<close>

definition main07 :: "string list" where "main07 = fn07 []"

definition main09 :: "string list" where "main09 = fn09 []"

definition main12 :: "string list" where "main12 = fn12 []"

lemma mains_print:
  "main07 = [''~C()'', ''~Base()'']"
  "main12 = [''construct Base'', ''construct C'', ''copy construct Base'', ''copy construct C'', ''copy construct Base'',
     ''copy construct C'', ''copy assignment Base'', ''copy assignment C'']"
  by (simp_all add: main07_def fn07_def delete07_def c07_destructor_def base07_destructor_def main12_def fn12_def
      c12_def c12_copy_def c12_assign_def base12_def base12_copy_def base12_assign_def)

section \<open>E_CXX/04.cpp\<close>

text \<open>\<open>'p\<close> is the empty class \<open>PhoneNumber\<close>.\<close>

record 'p ab_entry =
  theName :: string
  theAddress :: string
  thePhones :: "'p list"
  entry_length :: int
  numTimesConsulted :: "int option"

text \<open>The first constructor initialises the strings and the list empty, and then assigns to them.\<close>

definition ab_entry_assigned :: "string \<Rightarrow> string \<Rightarrow> 'p list \<Rightarrow> 'p ab_entry" where
  "ab_entry_assigned name address phones =
     (let e = \<lparr>theName = [], theAddress = [], thePhones = [], entry_length = 0, numTimesConsulted = None\<rparr>
      in e\<lparr>theName := name, theAddress := address, thePhones := phones, numTimesConsulted := Some 0\<rparr>)"

text \<open>The second one initialises its members, in the order of their declarations; the name stays empty.\<close>

definition ab_entry_initialised :: "string \<Rightarrow> 'p list \<Rightarrow> 'p ab_entry" where
  "ab_entry_initialised address phones =
     \<lparr>theName = [], theAddress = address, thePhones = phones, entry_length = 0, numTimesConsulted = Some 0\<rparr>"

lemma ab_entry_same: "ab_entry_assigned [] address phones = ab_entry_initialised address phones"
  by (simp add: ab_entry_assigned_def ab_entry_initialised_def)

section \<open>template.cpp, ch02/main.cpp, explicit.cpp\<close>

definition template_fn_1 :: "string \<Rightarrow> string list" where "template_fn_1 a = [a]"

definition template_fn_1_array :: "int list \<Rightarrow> string list" where "template_fn_1_array a = map dec_int a"

text \<open>The size of an array of five \<open>double\<close>s.\<close>

definition template_fn_3 :: "string list" where "template_fn_3 = [dec_nat (5 * 8)]"

text \<open>\<open>Literals\<close>, with the sizes of 64-bit Linux; \<open>u8\<close> literals are of \<open>char\<close>.\<close>

definition Literals :: "(string \<times> nat) list" where
  "Literals =
     [(''(char) a: '', 1), (''(Unicode 16 character) u'' @ [CHR 0x27] @ ''a'' @ [CHR 0x27] @ '': '', 2),
      (''(Unicode 32 character) U'' @ [CHR 0x27] @ ''a'' @ [CHR 0x27] @ '': '', 4),
      (''(wide character) L'' @ [CHR 0x27] @ ''a'' @ [CHR 0x27] @ '': '', 4),
      (''(utf-8 string literals only)u8Hello: '', length ''Hello'' + 1),
      (''(Minimum Type: unsigned) 1u: '', 4), (''(Minimum Type: unsigned) 1U: '', 4),
      (''(Minimum Type: long) 1l: '', 8), (''(Minimum Type: long) 1L: '', 8),
      (''(Minimum Type: long long) 1ll: '', 8), (''(Minimum Type: long long) 1LL: '', 8),
      (''(Float) 1.0f: '', 4), (''(Float) 1.0F: '', 4), (''(Long double) 1.0l: '', 16), (''(Long double) 1.0L: '', 16),
      (''3.14e2L: '', 314)]"

definition ch02_main :: "string list" where
  "ch02_main = snd Initializers"

text \<open>\<open>explicit.cpp\<close>: the conversion has to be written out; the condition is true.\<close>

record explicit_a =
  ea_val :: int

definition explicit_of :: "int \<Rightarrow> explicit_a" where "explicit_of v = \<lparr>ea_val = v\<rparr>"

definition explicit_int :: "explicit_a \<Rightarrow> int" where "explicit_int a = ea_val a"

definition explicit_main :: "bool option" where
  "explicit_main = (let a0 = explicit_of 0; a1 = explicit_of (- 121) in map_option (\<lambda>x. x \<noteq> 0) (as_int (explicit_int a1 + 1)))"

lemma explicit_main_true: "explicit_main = Some True"
  by (simp add: explicit_main_def explicit_of_def explicit_int_def as_int_def INT_MAX_def)

end
