(* ===== verification/File_Copies.thy ===== *)
theory File_Copies
  imports Thread_Servers Queue
begin

text \<open>
  The functions with an effect of their own that a file repeats word for word from another one: the
  signal handlers, exit handlers and script functions of the two pools of processes, the queue of the
  server with several ports, the exit handlers of the thread servers. Each program links its own copy.
\<close>

section \<open>The pools of processes\<close>

definition pf_siguser1_signo_handler :: "sys \<Rightarrow> sys" where
  "pf_siguser1_signo_handler = siguser1_signo_handler"

definition ps_siguser1_signo_handler :: "sys \<Rightarrow> sys" where
  "ps_siguser1_signo_handler = siguser1_signo_handler"

definition pf_handler_siguser1 :: "env \<Rightarrow> (unit, sys) cmd" where
  "pf_handler_siguser1 = handler_siguser1"

definition ps_handler_siguser1 :: "env \<Rightarrow> (unit, sys) cmd" where
  "ps_handler_siguser1 = handler_siguser1"

definition pf_exit_handler :: "env \<Rightarrow> int \<Rightarrow> (unit, sys) cmd" where
  "pf_exit_handler = exit_handler"

definition ps_exit_handler :: "env \<Rightarrow> int \<Rightarrow> (unit, sys) cmd" where
  "ps_exit_handler = exit_handler"

definition pf_handle_sigalrm :: "sys \<Rightarrow> sys" where
  "pf_handle_sigalrm = handle_sigalrm"

definition ps_handle_sigalrm :: "sys \<Rightarrow> sys" where
  "ps_handle_sigalrm = handle_sigalrm"

definition pf_handle_sigalrm_stop_script :: "sys \<Rightarrow> sys" where
  "pf_handle_sigalrm_stop_script = handle_sigalrm_stop_script"

definition ps_handle_sigalrm_stop_script :: "sys \<Rightarrow> sys" where
  "ps_handle_sigalrm_stop_script = handle_sigalrm_stop_script"

definition pf_stop_child_process_group :: "int \<Rightarrow> (unit, sys) cmd" where
  "pf_stop_child_process_group = handle_bash_stop_child_process_group"

definition ps_stop_child_process_group :: "int \<Rightarrow> (unit, sys) cmd" where
  "ps_stop_child_process_group = handle_bash_stop_child_process_group"

definition pf_stop_scirpt_timeout :: "int \<Rightarrow> (unit, sys) cmd" where
  "pf_stop_scirpt_timeout = stop_scirpt_timeout"

definition ps_stop_scirpt_timeout :: "int \<Rightarrow> (unit, sys) cmd" where
  "ps_stop_scirpt_timeout = stop_scirpt_timeout"

definition pf_pipe_read_v2 :: "env \<Rightarrow> string \<Rightarrow> (int \<times> int, sys) cmd" where
  "pf_pipe_read_v2 = pipe_read_v2"

definition ps_pipe_read_v2 :: "env \<Rightarrow> string \<Rightarrow> (int \<times> int, sys) cmd" where
  "ps_pipe_read_v2 = pipe_read_v2"

section \<open>The thread servers\<close>

definition pc_exit_handler :: "sys \<Rightarrow> sys" where
  "pc_exit_handler = thr_exit_handler"

definition mp_exit_handler :: "pool \<Rightarrow> pool" where
  "mp_exit_handler = pool_exit_handler"

definition pc_sigint_handler :: "(unit, sys) cmd" where
  "pc_sigint_handler = sigint_handler"

definition bq_sigint_handler :: "(unit, sys) cmd" where
  "bq_sigint_handler = sigint_handler"

definition mp_sigint_handler :: "(unit, sys) cmd" where
  "mp_sigint_handler = sigint_handler"

definition mp_queue_init :: "queue \<Rightarrow> queue" where
  "mp_queue_init = queue_init"

definition mp_queue_destroy :: "queue \<Rightarrow> queue" where
  "mp_queue_destroy = queue_destroy"

definition mp_queue_put :: "nat \<Rightarrow> int \<Rightarrow> queue \<Rightarrow> queue option" where
  "mp_queue_put = queue_put"

definition mp_queue_get :: "queue \<Rightarrow> (int \<times> queue) option" where
  "mp_queue_get = queue_get"

text \<open>The queue of the server with several ports is a bounded FIFO too.\<close>

interpretation mpq: blocking_fifo queue_inv contents fresh_addr mp_queue_put mp_queue_get "2 ^ 32 - 1"
  unfolding mp_queue_put_def mp_queue_get_def by (rule cq.blocking_fifo_axioms)

section \<open>Directories, listings, methods and versions\<close>

text \<open>\<open>is_dir\<close>, \<open>pipe_read\<close>, \<open>parse_method\<close> and \<open>parse_version\<close> are the same in every server.\<close>

definition pf_is_dir :: "env \<Rightarrow> string \<Rightarrow> (bool, sys) cmd" where
  "pf_is_dir = is_dir"

definition pf_pipe_read :: "env \<Rightarrow> string \<Rightarrow> (int, sys) cmd" where
  "pf_pipe_read = pipe_read"

definition pf_parse_method :: "buffer \<Rightarrow> nat \<Rightarrow> http_method" where
  "pf_parse_method = parse_method"

definition pf_parse_version :: "buffer \<Rightarrow> nat \<Rightarrow> (http_version \<times> buffer) option" where
  "pf_parse_version = parse_version"

definition ps_is_dir :: "env \<Rightarrow> string \<Rightarrow> (bool, sys) cmd" where
  "ps_is_dir = is_dir"

definition ps_pipe_read :: "env \<Rightarrow> string \<Rightarrow> (int, sys) cmd" where
  "ps_pipe_read = pipe_read"

definition ps_parse_method :: "buffer \<Rightarrow> nat \<Rightarrow> http_method" where
  "ps_parse_method = parse_method"

definition ps_parse_version :: "buffer \<Rightarrow> nat \<Rightarrow> (http_version \<times> buffer) option" where
  "ps_parse_version = parse_version"

definition th_is_dir :: "env \<Rightarrow> string \<Rightarrow> (bool, sys) cmd" where
  "th_is_dir = is_dir"

definition th_pipe_read :: "env \<Rightarrow> string \<Rightarrow> (int, sys) cmd" where
  "th_pipe_read = pipe_read"

definition th_parse_method :: "buffer \<Rightarrow> nat \<Rightarrow> http_method" where
  "th_parse_method = parse_method"

definition th_parse_version :: "buffer \<Rightarrow> nat \<Rightarrow> (http_version \<times> buffer) option" where
  "th_parse_version = parse_version"

definition pc_is_dir :: "env \<Rightarrow> string \<Rightarrow> (bool, sys) cmd" where
  "pc_is_dir = is_dir"

definition pc_pipe_read :: "env \<Rightarrow> string \<Rightarrow> (int, sys) cmd" where
  "pc_pipe_read = pipe_read"

definition pc_parse_method :: "buffer \<Rightarrow> nat \<Rightarrow> http_method" where
  "pc_parse_method = parse_method"

definition pc_parse_version :: "buffer \<Rightarrow> nat \<Rightarrow> (http_version \<times> buffer) option" where
  "pc_parse_version = parse_version"

definition bq_is_dir :: "env \<Rightarrow> string \<Rightarrow> (bool, sys) cmd" where
  "bq_is_dir = is_dir"

definition bq_pipe_read :: "env \<Rightarrow> string \<Rightarrow> (int, sys) cmd" where
  "bq_pipe_read = pipe_read"

definition bq_parse_method :: "buffer \<Rightarrow> nat \<Rightarrow> http_method" where
  "bq_parse_method = parse_method"

definition bq_parse_version :: "buffer \<Rightarrow> nat \<Rightarrow> (http_version \<times> buffer) option" where
  "bq_parse_version = parse_version"

definition mp_is_dir :: "env \<Rightarrow> string \<Rightarrow> (bool, sys) cmd" where
  "mp_is_dir = is_dir"

definition mp_pipe_read :: "env \<Rightarrow> string \<Rightarrow> (int, sys) cmd" where
  "mp_pipe_read = pipe_read"

definition mp_parse_method :: "buffer \<Rightarrow> nat \<Rightarrow> http_method" where
  "mp_parse_method = parse_method"

definition mp_parse_version :: "buffer \<Rightarrow> nat \<Rightarrow> (http_version \<times> buffer) option" where
  "mp_parse_version = parse_version"

definition srv_parse_version :: "buffer \<Rightarrow> nat \<Rightarrow> (http_version \<times> buffer) option" where
  "srv_parse_version = parse_version"

end
