(* ===== verification/Thread_Guard.thy ===== *)
theory Thread_Guard
  imports Progress
begin

text \<open>
  \<open>Reference/multi_threading/thread.cpp\<close>: \<open>main\<close> starts two threads, detaches one and joins the other,
  and then calls \<open>thread_guard_join\<close>, which starts a third thread on a reference to a local variable
  and throws. The guard joins the thread while the stack is unwound. A thread may fail to start
  (\<open>spawn_ok\<close>); the addresses printed by \<open>%p\<close> and the texts of \<open>what()\<close> are arguments too.
\<close>

section \<open>State\<close>

datatype exc_class = Bad_exception | System_error | Exception

record guard_env =
  spawn_ok :: "nat \<Rightarrow> bool"
  addr_of :: "string \<Rightarrow> string"
  what :: "exc_class \<Rightarrow> string"

text \<open>The threads \<open>first\<close>, \<open>second\<close> and \<open>th\<close> are 0, 1 and 2; \<open>main\<close> writes as 3.\<close>

datatype fn_pc = F_none | F_start | F_endl | F_done

datatype guard_pc =
  G_first | G_second | G_detach | G_join_first | G_join_second
  | G_locals | G_func | G_data | G_thread | G_guard | G_throw
  | G_unguard | G_unjoin | G_unthread | G_unlocals exc_class | G_catch exc_class
  | G_drop_second | G_drop_first | G_exit | G_terminate

record guard_sys =
  g_main :: guard_pc
  g_thr :: "nat \<Rightarrow> fn_pc"
  joinable :: "nat \<Rightarrow> bool"
  locals_alive :: bool
  g_out :: "(nat \<times> string) list"

definition guard_init :: guard_sys where
  "guard_init = \<lparr>g_main = G_first, g_thr = (\<lambda>_. F_none), joinable = (\<lambda>_. False), locals_alive = False, g_out = []\<rparr>"

section \<open>Steps\<close>

definition g_write :: "nat \<Rightarrow> string \<Rightarrow> guard_sys \<Rightarrow> guard_sys" where
  "g_write i line s = s\<lparr>g_out := g_out s @ [(i, line)]\<rparr>"

text \<open>A line of \<open>main\<close> is written in one step. The constructor of \<open>std::thread\<close>: the thread runs and the object is joinable, or it throws.\<close>

definition spawn :: "guard_env \<Rightarrow> nat \<Rightarrow> guard_pc \<Rightarrow> guard_pc \<Rightarrow> guard_sys \<Rightarrow> guard_sys" where
  "spawn E i next_pc throw_pc s =
     (if spawn_ok E i
      then s\<lparr>g_thr := (g_thr s)(i := F_start), joinable := (joinable s)(i := True), g_main := next_pc\<rparr>
      else s\<lparr>g_main := throw_pc\<rparr>)"

text \<open>\<open>if (t.joinable()) t.join()\<close>, which waits for the thread.\<close>

definition join_if_joinable :: "nat \<Rightarrow> guard_pc \<Rightarrow> guard_sys \<Rightarrow> guard_sys option" where
  "join_if_joinable i next_pc s =
     (if \<not> joinable s i then Some (s\<lparr>g_main := next_pc\<rparr>)
      else if g_thr s i = F_done then Some (s\<lparr>joinable := (joinable s)(i := False), g_main := next_pc\<rparr>)
      else None)"

text \<open>The destructor of \<open>std::thread\<close>: the program is terminated while it is joinable.\<close>

definition drop_thread :: "nat \<Rightarrow> guard_pc \<Rightarrow> guard_sys \<Rightarrow> guard_sys" where
  "drop_thread i next_pc s = s\<lparr>g_main := (if joinable s i then G_terminate else next_pc)\<rparr>"

text \<open>\<open>catch (exception e)\<close> copies the base part of the object, so its \<open>what()\<close> is that of the base.\<close>

definition caught_what :: "guard_env \<Rightarrow> exc_class \<Rightarrow> string" where
  "caught_what E x = what E (if x = Bad_exception then Bad_exception else Exception)"

fun guard_main :: "guard_env \<Rightarrow> guard_pc \<Rightarrow> guard_sys \<Rightarrow> guard_sys option" where
  "guard_main E G_first s = Some (spawn E 0 G_second G_terminate s)"
| "guard_main E G_second s = Some (spawn E 1 G_detach G_terminate s)"
| "guard_main E G_detach s = Some (s\<lparr>joinable := (joinable s)(1 := False), g_main := G_join_first\<rparr>)"
| "guard_main E G_join_first s = join_if_joinable 0 G_join_second s"
| "guard_main E G_join_second s = join_if_joinable 1 G_locals s"
| "guard_main E G_locals s =
     Some (g_write 3 (''some_local_state: '' @ addr_of E ''some_local_state'') (s\<lparr>g_main := G_func, locals_alive := True\<rparr>))"
| "guard_main E G_func s = Some (g_write 3 (''func: '' @ addr_of E ''some_local_state'') (s\<lparr>g_main := G_data\<rparr>))"
| "guard_main E G_data s = Some (g_write 3 (''thread_data: '' @ addr_of E ''d1'') (s\<lparr>g_main := G_thread\<rparr>))"
| "guard_main E G_thread s = Some (spawn E 2 G_guard (G_unlocals System_error) s)"
| "guard_main E G_guard s = Some (s\<lparr>g_main := G_throw\<rparr>)"
| "guard_main E G_throw s = Some (s\<lparr>g_main := G_unguard\<rparr>)"
| "guard_main E G_unguard s = Some (g_write 3 ''~thread_guard()'' (s\<lparr>g_main := G_unjoin\<rparr>))"
| "guard_main E G_unjoin s = join_if_joinable 2 G_unthread s"
| "guard_main E G_unthread s = Some (drop_thread 2 (G_unlocals Bad_exception) s)"
| "guard_main E (G_unlocals x) s = Some (s\<lparr>g_main := G_catch x, locals_alive := False\<rparr>)"
| "guard_main E (G_catch x) s = Some (g_write 3 (caught_what E x) (s\<lparr>g_main := G_drop_second\<rparr>))"
| "guard_main E G_drop_second s = Some (drop_thread 1 G_drop_first s)"
| "guard_main E G_drop_first s = Some (drop_thread 0 G_exit s)"
| "guard_main E G_exit s = None"
| "guard_main E G_terminate s = None"

text \<open>\<open>fn\<close> writes its text and the line end separately; \<open>fun2\<close> prints the address of its argument.\<close>

fun fn_next :: "guard_env \<Rightarrow> nat \<Rightarrow> fn_pc \<Rightarrow> guard_sys \<Rightarrow> guard_sys option" where
  "fn_next E i F_start s =
     Some (if i = 2 then g_write i (''operator(): '' @ addr_of E ''d1'') (s\<lparr>g_thr := (g_thr s)(i := F_done)\<rparr>)
           else g_write i ''fn'' (s\<lparr>g_thr := (g_thr s)(i := F_endl)\<rparr>))"
| "fn_next E i F_endl s = Some (g_write i [CHR 0x0A] (s\<lparr>g_thr := (g_thr s)(i := F_done)\<rparr>))"
| "fn_next E i _ s = None"

text \<open>The process, and with it every thread, ends when \<open>main\<close> does.\<close>

inductive guard_step :: "guard_env \<Rightarrow> guard_sys \<Rightarrow> guard_sys \<Rightarrow> bool" for E where
  g_main: "guard_main E (g_main s) s = Some t \<Longrightarrow> guard_step E s t"
| g_thread: "g_main s \<noteq> G_exit \<Longrightarrow> g_main s \<noteq> G_terminate \<Longrightarrow> i < 3 \<Longrightarrow> fn_next E i (g_thr s i) s = Some t \<Longrightarrow>
    guard_step E s t"

section \<open>Invariant\<close>

text \<open>
  What the position of \<open>main\<close> says about a thread: it has not been started, it is running or done, it is
  done, or it was perhaps never started but is not running.
\<close>

datatype life = Unborn | Live | Over | Gone

fun life_ok :: "life \<Rightarrow> fn_pc \<Rightarrow> bool" where
  "life_ok Unborn f \<longleftrightarrow> f = F_none"
| "life_ok Live f \<longleftrightarrow> f \<noteq> F_none"
| "life_ok Over f \<longleftrightarrow> f = F_done"
| "life_ok Gone f \<longleftrightarrow> f = F_none \<or> f = F_done"

fun life_first :: "guard_pc \<Rightarrow> life" where
  "life_first G_first = Unborn" | "life_first G_second = Live" | "life_first G_detach = Live"
| "life_first G_join_first = Live" | "life_first _ = Over"

fun life_second :: "guard_pc \<Rightarrow> life" where
  "life_second G_first = Unborn" | "life_second G_second = Unborn" | "life_second _ = Live"

fun life_third :: "guard_pc \<Rightarrow> life" where
  "life_third G_guard = Live" | "life_third G_throw = Live" | "life_third G_unguard = Live"
| "life_third G_unjoin = Live" | "life_third G_unthread = Over" | "life_third (G_unlocals _) = Gone"
| "life_third (G_catch _) = Gone" | "life_third G_drop_second = Gone" | "life_third G_drop_first = Gone"
| "life_third G_exit = Gone" | "life_third _ = Unborn"

fun in_scope :: "guard_pc \<Rightarrow> bool" where
  "in_scope G_func = True" | "in_scope G_data = True" | "in_scope G_thread = True" | "in_scope G_guard = True"
| "in_scope G_throw = True" | "in_scope G_unguard = True" | "in_scope G_unjoin = True"
| "in_scope G_unthread = True" | "in_scope (G_unlocals _) = True" | "in_scope _ = False"

definition objects_ok :: "guard_sys \<Rightarrow> bool" where
  "objects_ok s \<longleftrightarrow>
     joinable s 0 = (g_main s = G_second \<or> g_main s = G_detach \<or> g_main s = G_join_first) \<and>
     joinable s 1 = (g_main s = G_detach) \<and> joinable s 2 = (life_third (g_main s) = Live) \<and>
     locals_alive s = in_scope (g_main s)"

definition lives_ok :: "guard_sys \<Rightarrow> bool" where
  "lives_ok s \<longleftrightarrow> life_ok (life_first (g_main s)) (g_thr s 0) \<and> life_ok (life_second (g_main s)) (g_thr s 1) \<and>
     life_ok (life_third (g_main s)) (g_thr s 2)"

text \<open>What thread \<open>i\<close> has written at its position.\<close>

fun fn_out :: "guard_env \<Rightarrow> nat \<Rightarrow> fn_pc \<Rightarrow> string list" where
  "fn_out E i F_endl = [''fn'']"
| "fn_out E i F_done = (if i = 2 then [''operator(): '' @ addr_of E ''d1''] else [''fn'', [CHR 0x0A]])"
| "fn_out E i _ = []"

definition written :: "nat \<Rightarrow> guard_sys \<Rightarrow> string list" where
  "written i s = map snd (filter (\<lambda>x. fst x = i) (g_out s))"

definition texts_ok :: "guard_env \<Rightarrow> guard_sys \<Rightarrow> bool" where
  "texts_ok E s \<longleftrightarrow> (\<forall>i < 3. written i s = fn_out E i (g_thr s i)) \<and> g_thr s 2 \<noteq> F_endl"

definition guard_inv :: "guard_env \<Rightarrow> guard_sys \<Rightarrow> bool" where
  "guard_inv E s \<longleftrightarrow> texts_ok E s \<and>
     (if g_main s = G_terminate then \<not> (spawn_ok E 0 \<and> spawn_ok E 1) else objects_ok s \<and> lives_ok s)"

lemma written_write: "written i (g_write j l s) = written i s @ (if i = j then [l] else [])"
  by (simp add: written_def g_write_def)

lemma written_simps [simp]:
  "written i (s\<lparr>g_main := p\<rparr>) = written i s" "written i (s\<lparr>g_thr := f\<rparr>) = written i s"
  "written i (s\<lparr>joinable := j\<rparr>) = written i s" "written i (s\<lparr>locals_alive := l\<rparr>) = written i s"
  by (simp_all add: written_def)

lemma g_write_simps [simp]:
  "g_main (g_write j l s) = g_main s" "g_thr (g_write j l s) = g_thr s" "joinable (g_write j l s) = joinable s"
  "locals_alive (g_write j l s) = locals_alive s"
  by (simp_all add: g_write_def)

lemmas guard_ops = spawn_def join_if_joinable_def drop_thread_def

lemma guard_inv_init: "guard_inv E guard_init"
  by (simp add: guard_inv_def texts_ok_def objects_ok_def lives_ok_def guard_init_def written_def)

text \<open>A step of \<open>main\<close> writes nothing in the name of a thread, and starts a thread only if it had not run.\<close>

lemma texts_main:
  assumes "texts_ok E s" "guard_main E (g_main s) s = Some t" "lives_ok s" "g_main s \<noteq> G_terminate"
  shows "texts_ok E t"
proof -
  have w: "written i t = written i s" if "i < 3" for i
    using assms(2) that
    by (cases "g_main s") (auto simp: guard_ops written_write split: if_splits)
  have f: "g_thr t i = g_thr s i \<or> g_thr s i = F_none \<and> g_thr t i = F_start" for i
    using assms(2,3) by (cases "g_main s") (auto simp: guard_ops lives_ok_def split: if_splits)
  have "written i t = fn_out E i (g_thr t i)" if "i < 3" for i
    using assms(1) f [of i] w [OF that] that by (auto simp: texts_ok_def)
  then show ?thesis using assms(1) f [of 2] by (auto simp: texts_ok_def)
qed

lemma objects_main:
  assumes "objects_ok s" "guard_main E (g_main s) s = Some t" "g_main t \<noteq> G_terminate"
  shows "objects_ok t"
  using assms by (cases "g_main s") (auto simp: guard_ops objects_ok_def split: if_splits)

lemma lives_main:
  assumes "objects_ok s" "lives_ok s" "guard_main E (g_main s) s = Some t" "g_main t \<noteq> G_terminate"
  shows "lives_ok t"
  using assms by (cases "g_main s") (auto simp: guard_ops objects_ok_def lives_ok_def split: if_splits)

lemma terminate_main:
  assumes "objects_ok s" "guard_main E (g_main s) s = Some t" "g_main t = G_terminate" "g_main s \<noteq> G_terminate"
  shows "\<not> (spawn_ok E 0 \<and> spawn_ok E 1)"
  using assms by (cases "g_main s") (auto simp: guard_ops objects_ok_def split: if_splits)

lemma guard_main_inv:
  assumes "guard_inv E s" "guard_main E (g_main s) s = Some t"
  shows "guard_inv E t"
proof -
  have "g_main s \<noteq> G_terminate" using assms(2) by auto
  then show ?thesis
    using assms texts_main objects_main lives_main terminate_main by (auto simp: guard_inv_def)
qed

text \<open>A step of a thread: it writes one line and goes on.\<close>

lemma fn_next_effect:
  assumes "fn_next E i (g_thr s i) s = Some t" "i = 2 \<longrightarrow> g_thr s i \<noteq> F_endl"
  obtains f l where "t = g_write i l (s\<lparr>g_thr := (g_thr s)(i := f)\<rparr>)" "fn_out E i f = fn_out E i (g_thr s i) @ [l]"
    "g_thr s i \<noteq> F_none" "g_thr s i \<noteq> F_done" "f \<noteq> F_none" "i = 2 \<longrightarrow> f = F_done"
    "f = F_done \<or> g_thr s i = F_start \<and> f = F_endl"
proof (cases "g_thr s i")
  case F_start
  show ?thesis
  proof (cases "i = 2")
    case True
    with F_start assms(1) show ?thesis by (intro that [of "''operator(): '' @ addr_of E ''d1''" F_done]) auto
  next
    case False
    with F_start assms(1) show ?thesis by (intro that [of "''fn''" F_endl]) auto
  qed
next
  case F_endl
  then show ?thesis using assms by (intro that [of "[CHR 0x0A]" F_done]) auto
qed (use assms(1) in auto)

lemma fn_next_inv:
  assumes "guard_inv E s" "fn_next E i (g_thr s i) s = Some t" "i < 3"
  shows "guard_inv E t"
proof -
  have inv: "texts_ok E s" "g_main s \<noteq> G_terminate \<Longrightarrow> objects_ok s \<and> lives_ok s"
    using assms(1) by (auto simp: guard_inv_def)
  then have "i = 2 \<longrightarrow> g_thr s i \<noteq> F_endl" by (simp add: texts_ok_def)
  from fn_next_effect [OF assms(2) this] obtain f l where t: "t = g_write i l (s\<lparr>g_thr := (g_thr s)(i := f)\<rparr>)"
    and f: "fn_out E i f = fn_out E i (g_thr s i) @ [l]" "g_thr s i \<noteq> F_none" "g_thr s i \<noteq> F_done" "f \<noteq> F_none"
      "i = 2 \<longrightarrow> f = F_done" .
  have "texts_ok E t"
    using inv(1) f assms(3) by (auto simp: texts_ok_def t written_write)
  moreover have keep: "life_ok l (g_thr t j)" if "life_ok l (g_thr s j)" for l j
    using that f by (cases l) (auto simp: t)
  moreover have "g_main t = g_main s" by (simp add: t)
  then have "lives_ok t" if "lives_ok s" using that by (auto simp: lives_ok_def intro: keep)
  moreover have "objects_ok t" if "objects_ok s" using that by (simp add: objects_ok_def t)
  ultimately show ?thesis using assms(1) by (simp add: guard_inv_def t split: if_splits)
qed

lemma guard_inv_step: "guard_inv E s \<Longrightarrow> guard_step E s t \<Longrightarrow> guard_inv E t"
  by (erule guard_step.cases) (auto intro: guard_main_inv fn_next_inv)

section \<open>Every schedule ends\<close>

fun guard_rank :: "guard_pc \<Rightarrow> nat" where
  "guard_rank G_first = 18" | "guard_rank G_second = 17" | "guard_rank G_detach = 16"
| "guard_rank G_join_first = 15" | "guard_rank G_join_second = 14" | "guard_rank G_locals = 13"
| "guard_rank G_func = 12" | "guard_rank G_data = 11" | "guard_rank G_thread = 10" | "guard_rank G_guard = 9"
| "guard_rank G_throw = 8" | "guard_rank G_unguard = 7" | "guard_rank G_unjoin = 6" | "guard_rank G_unthread = 5"
| "guard_rank (G_unlocals _) = 4" | "guard_rank (G_catch _) = 3" | "guard_rank G_drop_second = 2"
| "guard_rank G_drop_first = 1" | "guard_rank _ = 0"

fun fn_rank :: "fn_pc \<Rightarrow> nat" where
  "fn_rank F_start = 2" | "fn_rank F_endl = 1" | "fn_rank F_none = 2" | "fn_rank F_done = 0"

definition guard_dist :: "guard_sys \<Rightarrow> nat" where
  "guard_dist s = guard_rank (g_main s) + fn_rank (g_thr s 0) + fn_rank (g_thr s 1) + fn_rank (g_thr s 2)"

lemma guard_main_dist:
  assumes "guard_inv E s" "guard_main E (g_main s) s = Some t"
  shows "guard_dist t < guard_dist s"
proof -
  have lives: "lives_ok s" using assms by (auto simp: guard_inv_def split: if_splits)
  have f: "g_thr t i = g_thr s i \<or> g_thr s i = F_none \<and> g_thr t i = F_start" for i
    using assms(2) lives by (cases "g_main s") (auto simp: guard_ops lives_ok_def split: if_splits)
  have le: "fn_rank (g_thr t i) \<le> fn_rank (g_thr s i)" for i using f [of i] by auto
  have "guard_rank (g_main t) < guard_rank (g_main s)"
    using assms(2) by (cases "g_main s") (auto simp: guard_ops split: if_splits)
  then show ?thesis using le [of 0] le [of 1] le [of 2] by (simp add: guard_dist_def)
qed

lemma fn_next_dist:
  assumes "guard_inv E s" "fn_next E i (g_thr s i) s = Some t" "i < 3"
  shows "guard_dist t < guard_dist s"
proof -
  have "i = 2 \<longrightarrow> g_thr s i \<noteq> F_endl" using assms(1) by (simp add: guard_inv_def texts_ok_def)
  from fn_next_effect [OF assms(2) this] obtain f l where t: "t = g_write i l (s\<lparr>g_thr := (g_thr s)(i := f)\<rparr>)"
    "g_thr s i \<noteq> F_none" "g_thr s i \<noteq> F_done" "f = F_done \<or> g_thr s i = F_start \<and> f = F_endl"
    by metis
  then have "fn_rank f < fn_rank (g_thr s i)" by (cases "g_thr s i") auto
  moreover have "i = 0 \<or> i = 1 \<or> i = 2" using assms(3) by auto
  ultimately show ?thesis using t(1) by (auto simp: guard_dist_def)
qed

lemma guard_dist_step: "guard_inv E s \<Longrightarrow> guard_step E s t \<Longrightarrow> guard_dist t < guard_dist s"
  by (erule guard_step.cases) (auto intro: guard_main_dist fn_next_dist)

text \<open>\<open>main\<close> waits only for a thread that can move.\<close>

lemma join_or_move:
  assumes "guard_inv E s" "i < 3" "joinable s i" "g_main s \<noteq> G_exit" "g_main s \<noteq> G_terminate"
  shows "g_thr s i = F_done \<or> (\<exists>t. guard_step E s t)"
proof -
  have "i = 0 \<or> i = 1 \<or> i = 2" using assms(2) by auto
  then have "g_thr s i \<noteq> F_none" using assms(1,3,5) by (auto simp: guard_inv_def objects_ok_def lives_ok_def)
  then show ?thesis using guard_step.g_thread [OF assms(4,5,2)] by (cases "g_thr s i") auto
qed

lemma join_blocks: "join_if_joinable i p s = None \<longleftrightarrow> joinable s i \<and> g_thr s i \<noteq> F_done"
  by (simp add: join_if_joinable_def)

lemma main_blocks:
  assumes "guard_main E (g_main s) s = None" "g_main s \<noteq> G_exit" "g_main s \<noteq> G_terminate"
  shows "\<exists>i < 3. joinable s i \<and> g_thr s i \<noteq> F_done"
proof -
  from assms consider "join_if_joinable 0 G_join_second s = None" | "join_if_joinable 1 G_locals s = None"
    | "join_if_joinable 2 G_unthread s = None"
    by (cases "g_main s") auto
  then show ?thesis
    unfolding join_blocks by cases (rule exI [of _ 0] exI [of _ 1] exI [of _ 2], simp)+
qed

lemma guard_progress:
  assumes "guard_inv E s" "g_main s \<noteq> G_exit" "g_main s \<noteq> G_terminate"
  shows "\<exists>t. guard_step E s t"
proof (cases "guard_main E (g_main s) s")
  case (Some t)
  then show ?thesis by (blast intro: guard_step.g_main)
next
  case None
  then show ?thesis using main_blocks [OF None assms(2,3)] join_or_move assms by blast
qed

abbreviation guard_final :: "guard_sys \<Rightarrow> bool" where
  "guard_final s \<equiv> g_main s = G_exit \<or> g_main s = G_terminate"

interpretation guard: terminating guard_init "guard_step E" "guard_inv E" guard_dist guard_final for E
proof
  show "guard_inv E s \<Longrightarrow> guard_step E s t \<Longrightarrow> guard_dist t < guard_dist s" for s t
    by (rule guard_dist_step)
  then show "\<exists>t. guard_step E s t \<and> guard_dist t < guard_dist s"
    if "guard_inv E s" "\<not> guard_final s" for s
    using that guard_progress [of E s] by blast
qed (auto intro: guard_inv_init guard_inv_step)

lemma guard_dist_init: "guard_dist guard_init = 24"
  by (simp add: guard_dist_def guard_init_def)

text \<open>While the third thread runs, the variable it refers to is in scope.\<close>

lemma reference_in_scope:
  assumes "guard_inv E s" "g_main s \<noteq> G_terminate" "g_thr s 2 \<noteq> F_none" "g_thr s 2 \<noteq> F_done"
  shows "locals_alive s"
proof -
  have "life_third (g_main s) = Live"
    using assms by (cases "life_third (g_main s)") (auto simp: guard_inv_def lives_ok_def)
  then show ?thesis using assms(1,2) by (cases "g_main s") (auto simp: guard_inv_def objects_ok_def)
qed

lemma guard_exit:
  assumes "guard_inv E s" "g_main s = G_exit"
  shows "written 0 s = [''fn'', [CHR 0x0A]] \<and>
    (g_thr s 2 = F_none \<and> written 2 s = [] \<or> written 2 s = [''operator(): '' @ addr_of E ''d1''])"
  using assms by (auto simp: guard_inv_def texts_ok_def lives_ok_def)

end
