(* ===== verification/Small_Int.thy ===== *)
theory Small_Int
  imports Prelude
begin

text \<open>
  \<open>CXXPRIMER/type_convert/operator_convert.cpp\<close>: \<open>SmallInt\<close> keeps an \<open>int\<close> in a \<open>size_t\<close>, and converts
  to and from \<open>int\<close>. An \<open>int\<close> is a 32-bit word, a \<open>size_t\<close> a 64-bit one, the conversion to the wider
  type extends the sign and the one to the narrower type drops the upper half. Floating-point numbers
  are only passed on, so their type is a parameter.
\<close>

record small_int =
  si_val :: "64 word"

definition small_of_int :: "32 word \<Rightarrow> small_int" where
  "small_of_int i = \<lparr>si_val = scast i\<rparr>"

definition small_to_int :: "small_int \<Rightarrow> 32 word" where
  "small_to_int s = ucast (si_val s)"

text \<open>
  \<open>operator+\<close> prints a line and gives the sum of the two \<open>size_t\<close> to the constructor that takes an
  \<open>int\<close>.
\<close>

definition small_plus :: "small_int \<Rightarrow> small_int \<Rightarrow> string list \<Rightarrow> small_int \<times> string list" where
  "small_plus a b out =
     (small_of_int (ucast (si_val a + si_val b)),
      out @ [''SmallInt operator+(const SmallInt& a, const SmallInt& b)''])"

section \<open>LongDouble\<close>

record 'd long_double =
  ld_val :: 'd

definition long_double_of :: "'d \<Rightarrow> 'd long_double" where
  "long_double_of d = \<lparr>ld_val = d\<rparr>"

text \<open>The conversions to \<open>double\<close> and \<open>float\<close> are those of the floating-point unit.\<close>

definition long_double_to :: "('d \<Rightarrow> 'f) \<Rightarrow> 'd long_double \<Rightarrow> 'f" where
  "long_double_to conv l = conv (ld_val l)"

text \<open>The member \<open>operator+\<close> returns its left operand, the free one a new object made of 0.0.\<close>

definition ld_plus_small :: "'d long_double \<Rightarrow> small_int \<Rightarrow> string list \<Rightarrow> 'd long_double \<times> string list" where
  "ld_plus_small l s out = (l, out @ [''LongDouble operator+(const SmallInt&)''])"

definition ld_plus_double :: "'d \<Rightarrow> 'd long_double \<Rightarrow> 'd \<Rightarrow> string list \<Rightarrow> 'd long_double \<times> string list" where
  "ld_plus_double zero l d out = (long_double_of zero, out @ [''LongDouble operator+(LongDouble&, double)''])"

text \<open>
  \<open>calc(dval)\<close> picks \<open>calc(int)\<close> and converts its argument, which is undefined for a variable without a
  value (\<open>None\<close>) and for a number \<open>to_int\<close> cannot convert. \<open>main\<close> never gives \<open>dval\<close> a value.
\<close>

definition calc_int :: "('d \<Rightarrow> 32 word option) \<Rightarrow> 'd option \<Rightarrow> unit option" where
  "calc_int to_int d = (case d of None \<Rightarrow> None | Some x \<Rightarrow> map_option (\<lambda>_. ()) (to_int x))"

definition operator_main :: "'d \<Rightarrow> ('d \<Rightarrow> 'f) \<Rightarrow> ('d \<Rightarrow> 32 word option) \<Rightarrow> 'd \<Rightarrow> 'd option \<Rightarrow> string list option" where
  "operator_main zero to_float to_int pi dval =
     (let s1 = small_of_int 0; s2 = small_of_int 0;
          (s3, out1) = small_plus s1 s2 [];
          ld = long_double_of zero;
          ex2 = long_double_to to_float ld
      in case calc_int to_int dval of
           None \<Rightarrow> None
         | Some _ \<Rightarrow>
             (let ld1 = long_double_of zero; sm1 = small_of_int 0;
                  (ld1, out2) = ld_plus_small ld1 sm1 out1
              in case to_int pi of
                   None \<Rightarrow> None
                 | Some i \<Rightarrow>
                     (let (d, out3) = small_plus s1 (small_of_int i) out2 in Some out3)))"

section \<open>What the numbers are\<close>

lemma narrow_widened: "ucast (scast (i :: 32 word) :: 64 word) = i"
  by (rule bit_word_eqI) (auto simp: bit_simps)

lemma narrow_sum: "(ucast (a + b :: 64 word) :: 32 word) = ucast a + ucast b"
  by (simp add: word_uint_eq_iff unsigned_ucast_eq uint_word_ariths(1) take_bit_eq_mod mod_mod_cancel mod_add_eq)

lemma small_to_of [simp]: "small_to_int (small_of_int i) = i"
  by (simp add: small_to_int_def small_of_int_def narrow_widened)

text \<open>Every object the class can make has the sign extension of its \<open>int\<close> in \<open>val\<close>.\<close>

definition small_ok :: "small_int \<Rightarrow> bool" where
  "small_ok s \<longleftrightarrow> s = small_of_int (small_to_int s)"

lemma small_ok_of: "small_ok (small_of_int i)"
  by (simp add: small_ok_def)

lemma small_ok_plus: "small_ok (fst (small_plus a b out))"
  by (simp add: small_plus_def small_ok_of)

lemma small_plus_int: "small_to_int (fst (small_plus a b out)) = small_to_int a + small_to_int b"
  by (simp add: small_plus_def small_to_int_def [of a] small_to_int_def [of b] narrow_sum)

lemma small_val_int:
  assumes "small_ok s"
  shows "sint (si_val s) = sint (small_to_int s)"
proof -
  have "si_val s = scast (small_to_int s)" using assms by (metis small_ok_def small_of_int_def small_int.select_convs(1))
  then show ?thesis by (simp add: sint_up_scast is_up)
qed

text \<open>The sum is that of two \<open>int\<close>s wherever it exists, and wraps around elsewhere.\<close>

lemma small_plus_sint:
  "sint (small_to_int (fst (small_plus a b out))) =
     signed_take_bit 31 (sint (small_to_int a) + sint (small_to_int b))"
  by (simp add: small_plus_int sint_word_ariths)

lemma operator_main_undefined: "operator_main zero to_float to_int pi None = None"
  by (simp add: operator_main_def calc_int_def Let_def small_plus_def)

end
