(* ===== verification/Raw_Storage.thy ===== *)
theory Raw_Storage
  imports Clib
begin

text \<open>
  Objects in raw storage: the loop of \<open>CXXPRIMER/memory/allocator.cpp\<close> over \<open>std::allocator\<close>, and the
  operators \<open>new\<close> and \<open>delete\<close> of \<open>Base\<close> in \<open>CXXPRIMER/operator_new_and_delete.cpp\<close>. Using storage
  that is not there, destroying what was not constructed or freeing twice is undefined (\<open>None\<close>).
\<close>

section \<open>std::allocator\<close>

text \<open>What \<open>allocate(n)\<close> returns: \<open>n\<close> places for a string, each without an object at first.\<close>

record storage =
  slots :: "string option list"
  freed :: bool

definition allocate :: "nat \<Rightarrow> storage" where
  "allocate n = \<lparr>slots = replicate n None, freed = False\<rparr>"

definition construct :: "nat \<Rightarrow> string \<Rightarrow> storage \<Rightarrow> storage option" where
  "construct i w st =
     (if \<not> freed st \<and> i < length (slots st) \<and> slots st ! i = None then Some (st\<lparr>slots := (slots st)[i := Some w]\<rparr>)
      else None)"

definition destroy :: "nat \<Rightarrow> storage \<Rightarrow> storage option" where
  "destroy i st =
     (if \<not> freed st \<and> i < length (slots st) \<and> slots st ! i \<noteq> None then Some (st\<lparr>slots := (slots st)[i := None]\<rparr>)
      else None)"

definition deallocate :: "nat \<Rightarrow> storage \<Rightarrow> storage option" where
  "deallocate n st = (if \<not> freed st \<and> length (slots st) = n then Some (st\<lparr>freed := True\<rparr>) else None)"

text \<open>The loop reads a word before it looks at \<open>i\<close>. It returns \<open>i\<close> and the words not read.\<close>

fun read_words :: "nat \<Rightarrow> string list \<Rightarrow> nat \<Rightarrow> storage \<Rightarrow> (nat \<times> string list \<times> storage) option" where
  "read_words n [] i st = Some (i, [], st)"
| "read_words n (w # ws) i st =
     (if i < n
      then (case construct i w st of None \<Rightarrow> None | Some st' \<Rightarrow> read_words n ws (Suc i) st')
      else Some (i, ws, st))"

text \<open>\<open>for (int j = 0; j < i; ++j)\<close>, with the number of turns left as first argument.\<close>

fun destroy_all :: "nat \<Rightarrow> nat \<Rightarrow> storage \<Rightarrow> storage option" where
  "destroy_all 0 j st = Some st"
| "destroy_all (Suc k) j st = (case destroy j st of None \<Rightarrow> None | Some st' \<Rightarrow> destroy_all k (Suc j) st')"

definition allocator_main :: "nat \<Rightarrow> string list \<Rightarrow> (string list \<times> storage) option" where
  "allocator_main n ws =
     (case read_words n ws 0 (allocate n) of
        None \<Rightarrow> None
      | Some (i, rest, st) \<Rightarrow>
          (case destroy_all i 0 st of
             None \<Rightarrow> None
           | Some st' \<Rightarrow> map_option (\<lambda>st''. (rest, st'')) (deallocate n st')))"

text \<open>The storage with the words \<open>xs\<close> in its first places.\<close>

definition holding :: "nat \<Rightarrow> string list \<Rightarrow> storage" where
  "holding n xs = \<lparr>slots = map Some xs @ replicate (n - length xs) None, freed = False\<rparr>"

lemma allocate_holding: "allocate n = holding n []"
  by (simp add: allocate_def holding_def)

lemma construct_holding:
  assumes "length xs < n"
  shows "construct (length xs) w (holding n xs) = Some (holding n (xs @ [w]))"
proof -
  obtain k where "n - length xs = Suc k" using assms by (cases "n - length xs") auto
  moreover from this have "n - Suc (length xs) = k" by simp
  ultimately show ?thesis
    using assms by (simp add: construct_def holding_def nth_append list_update_append)
qed

lemma read_words_holding:
  "length xs \<le> n \<Longrightarrow> read_words n ws (length xs) (holding n xs) =
     Some (length xs + min (n - length xs) (length ws), drop (Suc (n - length xs)) ws,
       holding n (xs @ take (n - length xs) ws))"
proof (induction ws arbitrary: xs)
  case (Cons w ws)
  show ?case
  proof (cases "length xs < n")
    case True
    then obtain k where k: "n - length xs = Suc k" by (cases "n - length xs") auto
    then have "n - Suc (length xs) = k" by simp
    then show ?thesis
      using Cons.IH [of "xs @ [w]"] construct_holding [OF True, of w] True k by simp
  qed (use Cons.prems in simp)
qed simp

text \<open>Destroying goes through the places from the first one on.\<close>

definition destroyed :: "nat \<Rightarrow> nat \<Rightarrow> string list \<Rightarrow> storage" where
  "destroyed n j xs = \<lparr>slots = replicate j None @ map Some xs @ replicate (n - j - length xs) None, freed = False\<rparr>"

lemma destroy_destroyed:
  assumes "j + length (x # xs) \<le> n"
  shows "destroy j (destroyed n j (x # xs)) = Some (destroyed n (Suc j) xs)"
proof -
  have "replicate j (None :: string option) @ None # ys = replicate (Suc j) None @ ys" for ys
    by (simp add: replicate_app_Cons_same)
  then show ?thesis
    using assms by (simp add: destroy_def destroyed_def nth_append list_update_append del: replicate_Suc)
qed

lemma destroy_all_destroyed:
  "j + length xs \<le> n \<Longrightarrow> destroy_all (length xs) j (destroyed n j xs) = Some (destroyed n (j + length xs) [])"
proof (induction xs arbitrary: j)
  case (Cons x xs)
  then show ?case using destroy_destroyed [of j x xs n] Cons.IH [of "Suc j"] by simp
qed simp

lemma holding_destroyed: "holding n xs = destroyed n 0 xs"
  by (simp add: holding_def destroyed_def)

text \<open>
  For every input the program runs to its end: each place it filled it emptied, and the storage is
  freed. It keeps at most \<open>n\<close> words and takes one more from the input than it keeps.
\<close>

lemma allocator_main_runs:
  "allocator_main n ws = Some (drop (Suc n) ws, \<lparr>slots = replicate n None, freed = True\<rparr>)"
proof -
  let ?xs = "take n ws"
  have "destroy_all (min n (length ws)) 0 (holding n ?xs) = Some (destroyed n (min n (length ws)) [])"
    using destroy_all_destroyed [of 0 ?xs n] by (simp add: holding_destroyed min.commute)
  then show ?thesis
    using read_words_holding [of "[]" n ws]
    by (simp add: allocator_main_def allocate_holding destroyed_def deallocate_def replicate_add [symmetric])
qed

section \<open>operator new and operator delete\<close>

datatype mem_line = L_new nat | L_placed nat nat | L_destructor | L_delete nat | L_end

text \<open>Blocks from the global \<open>operator new\<close>, and the value of \<open>a\<close> in those that hold a \<open>Base\<close>.\<close>

record memory =
  blocks :: "nat set"
  bases :: "nat \<rightharpoonup> int"
  lines :: "mem_line list"

definition memory_init :: memory where
  "memory_init = \<lparr>blocks = {}, bases = Map.empty, lines = []\<rparr>"

text \<open>\<open>sizeof(Base)\<close> is the size of its \<open>int\<close>. The allocator chooses the address \<open>p\<close>, or \<open>bad_alloc\<close> is thrown.\<close>

definition base_operator_new :: "nat option \<Rightarrow> nat \<Rightarrow> memory \<Rightarrow> (nat \<times> memory) option" where
  "base_operator_new p sz m =
     (let m' = m\<lparr>lines := lines m @ [L_new sz]\<rparr>
      in case p of None \<Rightarrow> None
         | Some a \<Rightarrow> Some (a, m'\<lparr>blocks := insert a (blocks m)\<rparr>))"

definition base_operator_new_at :: "nat \<Rightarrow> nat \<Rightarrow> memory \<Rightarrow> nat \<times> memory" where
  "base_operator_new_at sz a m = (a, m\<lparr>lines := lines m @ [L_placed sz a]\<rparr>)"

definition base_construct :: "nat \<Rightarrow> int \<Rightarrow> memory \<Rightarrow> memory option" where
  "base_construct a v m = (if a \<in> blocks m \<and> bases m a = None then Some (m\<lparr>bases := (bases m)(a \<mapsto> v)\<rparr>) else None)"

definition base_destructor :: "nat \<Rightarrow> memory \<Rightarrow> memory option" where
  "base_destructor a m =
     (if bases m a = None then None
      else Some (m\<lparr>bases := (bases m)(a := None), lines := lines m @ [L_destructor]\<rparr>))"

definition base_operator_delete :: "nat \<Rightarrow> memory \<Rightarrow> memory option" where
  "base_operator_delete a m =
     (if a = 0 then Some m
      else if a \<in> blocks m \<and> bases m a = None
      then Some (m\<lparr>blocks := blocks m - {a}, lines := lines m @ [L_delete a]\<rparr>) else None)"

text \<open>\<open>custom\<close> is whether \<open>USE_CUSTOM_OPERATOR_NEW_DELETE\<close> is defined.\<close>

definition make_base :: "bool \<Rightarrow> nat option \<Rightarrow> int \<Rightarrow> memory \<Rightarrow> (nat \<times> memory) option" where
  "make_base custom p v m =
     (case base_operator_new p 4 m of
        None \<Rightarrow> None
      | Some (a, m1) \<Rightarrow>
          (let (b, m2) = (if custom then base_operator_new_at 4 a m1 else (a, m1))
           in map_option (\<lambda>m3. (b, m3)) (base_construct b v m2)))"

definition drop_base :: "nat \<Rightarrow> memory \<Rightarrow> memory option" where
  "drop_base a m = (case base_destructor a m of None \<Rightarrow> None | Some m' \<Rightarrow> base_operator_delete a m')"

definition new_delete_main :: "bool \<Rightarrow> nat option \<Rightarrow> memory option" where
  "new_delete_main custom p =
     (case make_base custom p 101 memory_init of
        None \<Rightarrow> None
      | Some (a, m) \<Rightarrow>
          (if bases m a = Some 101
           then map_option (\<lambda>m'. m'\<lparr>lines := lines m' @ [L_end]\<rparr>) (drop_base a m) else None))"

text \<open>With or without the macro: one block, one object, both gone at the end.\<close>

lemma new_delete_main_runs:
  assumes "a \<noteq> 0"
  shows "new_delete_main custom (Some a) =
    Some \<lparr>blocks = {}, bases = Map.empty,
      lines = [L_new 4] @ (if custom then [L_placed 4 a] else []) @ [L_destructor, L_delete a, L_end]\<rparr>"
  using assms
  by (simp add: new_delete_main_def make_base_def drop_base_def base_operator_new_def base_operator_new_at_def
      base_construct_def base_destructor_def base_operator_delete_def memory_init_def)

lemma make_drop_base:
  assumes "a \<noteq> 0" "a \<notin> blocks m" "bases m a = None"
  shows "\<exists>m1 m2. make_base custom (Some a) v m = Some (a, m1) \<and> bases m1 a = Some v \<and>
    drop_base a m1 = Some m2 \<and> blocks m2 = blocks m \<and> bases m2 = bases m"
proof -
  have "(bases m)(a := None) = bases m" using assms(3) by (simp add: fun_upd_idem)
  then show ?thesis
    using assms
    by (cases custom) (simp_all add: make_base_def drop_base_def base_operator_new_def base_operator_new_at_def
        base_construct_def base_destructor_def base_operator_delete_def)
qed

end
