(* ===== verification/Exceptions.thy ===== *)
theory Exceptions
  imports Clib
begin

text \<open>
  \<open>CXXPRIMER/Exception.cpp\<close>: which handler takes an exception, what is destroyed on the way, and which
  object \<open>throw;\<close> throws again. The compiler may leave out the copy into the exception object
  (\<open>elide_throw\<close>) and the copy into the parameter of a handler (\<open>elide_catch\<close>).
\<close>

section \<open>Thrown objects and handlers\<close>

datatype exc_type = EXC_INT | EXC_CLASS_A | EXC_POINTER | EXC_NULL_PTR | EXC_ARRAY

datatype thrown = T_int int | T_A int | T_fn | T_nullptr | T_int_ptr | T_exception

datatype handler = H_exception | H_exception_ptr | H_nullptr | H_fn | H_int_ptr

definition a_destructor :: "int \<Rightarrow> string list \<Rightarrow> string list" where
  "a_destructor key out = out @ [''~A('' @ dec_int key @ '')'']"

definition b_destructor :: "int \<Rightarrow> string list \<Rightarrow> string list" where
  "b_destructor key out = out @ [''~B('' @ dec_int key @ '')'']"

text \<open>
  The constructor \<open>A(const A&&)\<close>, by which a thrown \<open>A\<close> is made, takes nothing over: its \<open>key\<close> is the
  initial value. A \<open>B\<close> is copied with its \<open>key\<close>.
\<close>

definition a_move :: "int \<Rightarrow> int" where
  "a_move key = 0"

definition b_copy_key :: "int \<Rightarrow> int" where
  "b_copy_key key = key"

text \<open>\<open>exception_object\<close>: what it throws, and the lines after its local \<open>a\<close> is gone.\<close>

definition exception_object :: "bool \<Rightarrow> exc_type \<Rightarrow> string list \<Rightarrow> thrown \<times> string list" where
  "exception_object elide_throw e out =
     (let a = 0 in
      case e of
        EXC_INT \<Rightarrow> (T_int 12, a_destructor a out)
      | EXC_CLASS_A \<Rightarrow> if elide_throw then (T_A a, out) else (T_A (a_move a), a_destructor a out)
      | EXC_NULL_PTR \<Rightarrow> (T_nullptr, a_destructor a out)
      | EXC_POINTER \<Rightarrow> (T_fn, a_destructor a out)
      | EXC_ARRAY \<Rightarrow> (T_int_ptr, a_destructor a out))"

text \<open>A handler for any type of pointer also takes a \<open>nullptr\<close>.\<close>

fun handles :: "handler \<Rightarrow> thrown \<Rightarrow> bool" where
  "handles H_exception t \<longleftrightarrow> t = T_exception"
| "handles H_exception_ptr t \<longleftrightarrow> t = T_nullptr"
| "handles H_nullptr t \<longleftrightarrow> t = T_nullptr"
| "handles H_fn t \<longleftrightarrow> t = T_fn \<or> t = T_nullptr"
| "handles H_int_ptr t \<longleftrightarrow> t = T_int_ptr \<or> t = T_nullptr"

text \<open>The handlers of the first \<open>try\<close> of \<open>main\<close>, in their order; the first that fits is taken.\<close>

definition first_handlers :: "handler list" where
  "first_handlers = [H_exception, H_exception_ptr, H_nullptr, H_fn, H_int_ptr]"

definition handler_of :: "thrown \<Rightarrow> handler option" where
  "handler_of t = find (\<lambda>h. handles h t) first_handlers"

datatype handled = Printed "string list" | Uncaught | Undefined

text \<open>\<open>e->what()\<close> in the second handler is a call on a null pointer when it took a \<open>nullptr\<close>.\<close>

definition first_try :: "(string \<Rightarrow> string) \<Rightarrow> thrown \<Rightarrow> string list \<Rightarrow> handled" where
  "first_try show_ptr t out =
     (case handler_of t of
        None \<Rightarrow> Uncaught
      | Some H_exception \<Rightarrow> Printed (out @ [''exception: '' @ show_ptr ''what''])
      | Some H_exception_ptr \<Rightarrow>
          if t = T_nullptr then Undefined else Printed (out @ [''exception*: '' @ show_ptr ''what''])
      | Some H_nullptr \<Rightarrow> Printed (out @ [''nullptr_t: '' @ show_ptr ''null''])
      | Some H_fn \<Rightarrow> Printed (out @ [''function: '' @ show_ptr ''function''])
      | Some H_int_ptr \<Rightarrow> Printed (out @ [''int*: '' @ show_ptr ''array'']))"

section \<open>The other parts of main\<close>

text \<open>Two objects of class \<open>A\<close>, the inner one is thrown; \<open>show_ptr\<close> prints an address.\<close>

definition second_try :: "(string \<Rightarrow> string) \<Rightarrow> bool \<Rightarrow> string list \<Rightarrow> string list" where
  "second_try show_ptr elide_throw out =
     (let a1 = 1; a2 = 2;
          out1 = out @ [''&a: '' @ show_ptr ''a''];
          exc = (if elide_throw then a2 else a_move a2);
          out2 = (if elide_throw then out1 else a_destructor a2 out1);
          out3 = a_destructor a1 out2;
          out4 = out3 @ [''catch(A& e): '' @ show_ptr ''e'']
      in a_destructor exc out4)"

text \<open>The inner handler has a copy; \<open>throw;\<close> goes on with the exception object itself.\<close>

definition third_try :: "(string \<Rightarrow> string) \<Rightarrow> bool \<Rightarrow> bool \<Rightarrow> int \<Rightarrow> string list \<Rightarrow> string list" where
  "third_try show_ptr elide_throw elide_catch k out =
     (let b = k;
          exc = (if elide_throw then b else b_copy_key b);
          out1 = (if elide_throw then out else b_destructor b out);
          e = (if elide_catch then exc else b_copy_key exc);
          out2 = out1 @ [''inside catch(B& e): '' @ dec_int e @ '' '' @ show_ptr ''e''];
          out3 = (if elide_catch then out2 else b_destructor e out2);
          out4 = out3 @ [''outside catch(B& e): '' @ dec_int exc @ '' '' @ show_ptr ''exc'']
      in b_destructor exc out4)"

text \<open>In the first \<open>try\<close> \<open>main\<close> throws \<open>*p\<close>, whose static type is \<open>exception\<close>.\<close>

definition exception_main :: "(string \<Rightarrow> string) \<Rightarrow> bool \<Rightarrow> bool \<Rightarrow> handled" where
  "exception_main show_ptr elide_throw elide_catch =
     (case first_try show_ptr T_exception [] of
        Printed out \<Rightarrow>
          Printed (third_try show_ptr elide_throw elide_catch 101 (second_try show_ptr elide_throw out))
      | r \<Rightarrow> r)"

section \<open>What is shown\<close>

text \<open>
  Of the exceptions of \<open>exception_object\<close> the handlers of \<open>main\<close> take the function and the array; the
  \<open>int\<close> and the \<open>A\<close> are not caught, and the null pointer goes to the handler for \<open>exception*\<close>, which calls a
  member on it.
\<close>

lemma exception_object_handled:
  "handler_of (fst (exception_object b e out)) =
     (case e of EXC_INT \<Rightarrow> None | EXC_CLASS_A \<Rightarrow> None | EXC_NULL_PTR \<Rightarrow> Some H_exception_ptr | EXC_POINTER \<Rightarrow> Some H_fn
      | EXC_ARRAY \<Rightarrow> Some H_int_ptr)"
  by (cases e) (simp_all add: exception_object_def handler_of_def first_handlers_def)

lemma null_pointer_undefined:
  "first_try show_ptr (fst (exception_object b EXC_NULL_PTR out)) out' = Undefined"
  by (simp add: first_try_def exception_object_def handler_of_def first_handlers_def)

lemma nullptr_handler_dead: "handler_of t \<noteq> Some H_nullptr"
  by (cases t) (simp_all add: handler_of_def first_handlers_def)

text \<open>A thrown \<open>A\<close> has lost its \<open>key\<close>, unless it was not moved at all.\<close>

lemma second_try_log:
  "second_try show_ptr False out = out @ [''&a: '' @ show_ptr ''a'', ''~A('' @ dec_int 2 @ '')'', ''~A('' @ dec_int 1 @ '')'',
     ''catch(A& e): '' @ show_ptr ''e'', ''~A('' @ dec_int 0 @ '')'']"
  by (simp add: second_try_def a_destructor_def a_move_def)

text \<open>The outer handler sees the \<open>key\<close> that was thrown, whatever is copied on the way.\<close>

lemma third_try_rethrows:
  "\<exists>inner. third_try show_ptr elide_throw elide_catch k out = inner @
     [''outside catch(B& e): '' @ dec_int k @ '' '' @ show_ptr ''exc'', ''~B('' @ dec_int k @ '')'']"
  by (simp add: third_try_def b_destructor_def b_copy_key_def Let_def)

lemma exception_main_prints: "\<exists>out. exception_main show_ptr elide_throw elide_catch = Printed out"
  by (simp add: exception_main_def first_try_def handler_of_def first_handlers_def)

end
