(* ===== verification/Container_Samples.thy ===== *)
theory Container_Samples
  imports Prelude "HOL-Library.Multiset"
begin

text \<open>
  The samples in \<open>Reference/container\<close> and \<open>Reference/algorithm\<close> that compute something: \<open>deque.cpp\<close>,
  \<open>list.cpp\<close>, \<open>forward_list.cpp\<close>, \<open>set.cpp\<close>, \<open>vector.cpp\<close>, \<open>array.cpp\<close>, \<open>stack.cpp\<close> and \<open>partition.cpp\<close>. A container is the list of its elements;
  a failed \<open>assert\<close>, or an access that is not allowed, is \<open>None\<close>.
\<close>

datatype item = Num int | Size nat | Text string

definition print_all :: "int list \<Rightarrow> item list" where
  "print_all xs = map Num xs"

text \<open>\<open>resize\<close> cuts off at the end or adds zeros.\<close>

definition resize :: "nat \<Rightarrow> int list \<Rightarrow> int list" where
  "resize n xs = take n xs @ replicate (n - length xs) 0"

lemma length_resize [simp]: "length (resize n xs) = n"
  by (simp add: resize_def)

section \<open>deque.cpp\<close>

text \<open>\<open>max_sz\<close> is what \<open>max_size()\<close> returns, which the standard leaves open.\<close>

definition deque_main :: "nat \<Rightarrow> item list" where
  "deque_main max_sz =
     (let di = [] @ [1]; di = di @ [12]; di = 2 # di; di = di @ [2];
          out = print_all di;
          di = []; out = out @ [Text ''di.size(): '', Size (length di)] @ print_all di;
          di = replicate 1 101; out = out @ print_all di;
          di = replicate 12 12 @ di; out = out @ [Text ''di.size(): '', Size (length di), Size max_sz];
          di2 = di; out = out @ print_all di2;
          di2 = resize 5 di2; out = out @ print_all di2 @ [Text ''di2.size(): '', Size (length di2)];
          out = out @ [Text ''swap'']; (di, di2) = (di2, di)
      in out @ print_all di2)"

section \<open>list.cpp\<close>

text \<open>\<open>merge\<close> takes the smaller first element; of two equal ones that of the list it is called on.\<close>

fun merge_lists :: "int list \<Rightarrow> int list \<Rightarrow> int list" where
  "merge_lists [] ys = ys"
| "merge_lists xs [] = xs"
| "merge_lists (x # xs) (y # ys) = (if y < x then y # merge_lists (x # xs) ys else x # merge_lists xs (y # ys))"

definition assert :: "bool \<Rightarrow> 'a \<Rightarrow> 'a option" where
  "assert b x = (if b then Some x else None)"

definition list_main :: "item list option" where
  "list_main =
     (let a = [12]; it = (0 :: nat) in Option.bind (assert (it = 0) a) (\<lambda>a.
      let a = 11 # a; a = 10 # a; b = [3, 2, 1]; a = b @ a; b = ([] :: int list); a = sort a
      in Option.bind (assert (a \<noteq> [] \<and> hd a = 1) ()) (\<lambda>_. Option.bind (assert (length b = 0) ()) (\<lambda>_.
      let b = [123, 123, 123, 324, 3]; a = sort a; b = sort b; (a, b) = (merge_lists a b, [] :: int list)
      in assert (length b = 0) (print_all a)))))"

section \<open>forward_list.cpp\<close>

definition forward_list_main :: "item list option" where
  "forward_list_main =
     (let l1 = replicate 12 1; l1 = 0 # l1; l1 = -1 # l1; l1 = filter (\<lambda>i. i \<noteq> 0) l1; l1 = 2 # l1;
          l1 = filter (\<lambda>i. \<not> odd i) l1; l1 = rev l1; l1 = resize 100 l1; l1 = rev (sort l1)
      in Option.bind (if l1 = [] then None else Some (Num (hd l1))) (\<lambda>first.
         let l2 = ([] :: int list); (l2, l1) = (l1, l2)
         in assert (l1 = []) [Text ''first: '', first]))"

section \<open>set.cpp\<close>

text \<open>A set of numbers in the order of \<open>ccomp\<close>, which is \<open><\<close>.\<close>

fun set_insert :: "int \<Rightarrow> int list \<Rightarrow> int list" where
  "set_insert x [] = [x]"
| "set_insert x (y # ys) = (if x < y then x # y # ys else if y < x then y # set_insert x ys else y # ys)"

definition lower_bound :: "int \<Rightarrow> int list \<Rightarrow> nat" where
  "lower_bound x xs = length (takeWhile (\<lambda>y. y < x) xs)"

definition upper_bound :: "int \<Rightarrow> int list \<Rightarrow> nat" where
  "upper_bound x xs = length (takeWhile (\<lambda>y. \<not> x < y) xs)"

definition set_erase :: "nat \<Rightarrow> nat \<Rightarrow> int list \<Rightarrow> int list" where
  "set_erase i j xs = take i xs @ drop j xs"

definition set_main :: "item list option" where
  "set_main =
     (let si = set_insert 1 []; si = set_insert 1 si; si = set_insert 2 si; si = set_insert 2 si;
          si = set_insert 2 si; si = set_insert (-1) si; first = lower_bound 1 si
      in Option.bind (assert (first < length si \<and> si ! first = 1) ()) (\<lambda>_.
         let kcomp = (\<lambda>x y. if x < (y :: int) then 1 else 0);
             out = [Num (kcomp 11 2)]; si = set_erase (lower_bound 1 si) (upper_bound 1 si) si
         in Some (out @ print_all si)))"

section \<open>partition.cpp\<close>

text \<open>\<open>std::partition\<close> promises a permutation with the chosen elements in front, not their order.\<close>

definition partitioned :: "(int \<Rightarrow> bool) \<Rightarrow> int list \<Rightarrow> int list \<Rightarrow> nat \<Rightarrow> bool" where
  "partitioned P xs ys bound \<longleftrightarrow> mset ys = mset xs \<and> bound \<le> length ys \<and>
     (\<forall>x \<in> set (take bound ys). P x) \<and> (\<forall>x \<in> set (drop bound ys). \<not> P x)"

text \<open>The two lines: up to \<open>bound\<close>, and from there on.\<close>

definition partition_main :: "int list \<Rightarrow> nat \<Rightarrow> int list \<times> int list" where
  "partition_main vec bound = (take bound vec, drop bound vec)"

section \<open>What is shown\<close>

lemma merge_lists_keeps:
  "set (merge_lists xs ys) = set xs \<union> set ys \<and> mset (merge_lists xs ys) = mset xs + mset ys"
proof (induction xs ys rule: merge_lists.induct)
  case (3 x xs y ys)
  then show ?case by (cases "y < x") auto
qed simp_all

lemmas merge_lists_simps [simp] = merge_lists_keeps [THEN conjunct1] merge_lists_keeps [THEN conjunct2]

lemma sorted_merge_lists: "sorted xs \<and> sorted ys \<Longrightarrow> sorted (merge_lists xs ys)"
proof (induction xs ys rule: merge_lists.induct)
  case (3 x xs y ys)
  then show ?case by (cases "y < x") (auto simp: less_imp_le)
qed simp_all

text \<open>Merging sorted lists is sorting them together.\<close>

lemma merge_lists_sort: "merge_lists (sort xs) (sort ys) = sort (xs @ ys)"
  by (rule properties_for_sort [symmetric]) (simp_all add: sorted_merge_lists)

lemma set_insert_set [simp]: "set (set_insert x xs) = insert x (set xs)"
  by (induction xs) auto

lemma set_insert_sorted: "sorted_wrt (<) xs \<Longrightarrow> sorted_wrt (<) (set_insert x xs)"
  by (induction xs) (auto simp: less_trans)

text \<open>Erasing from the lower to the upper bound of a number removes exactly that number.\<close>

lemma set_erase_bounds:
  "sorted_wrt (<) xs \<Longrightarrow> set_erase (lower_bound x xs) (upper_bound x xs) xs = filter (\<lambda>y. y \<noteq> x) xs"
proof (induction xs)
  case (Cons y ys)
  then have after: "x \<le> y \<Longrightarrow> filter (\<lambda>z. z \<noteq> x) ys = ys \<and> takeWhile (\<lambda>z. \<not> x < z) ys = []"
    by (cases ys) (auto simp: filter_id_conv)
  show ?case using Cons after
    by (cases "y < x"; cases "y = x") (auto simp: set_erase_def lower_bound_def upper_bound_def)
qed (simp add: set_erase_def lower_bound_def)

lemma partition_main_spec:
  assumes "partitioned P xs ys bound"
  shows "mset (fst (partition_main ys bound)) = mset (filter P xs) \<and>
    mset (snd (partition_main ys bound)) = mset (filter (\<lambda>x. \<not> P x) xs)"
proof -
  have "filter Q ys = filter Q (take bound ys) @ filter Q (drop bound ys)" for Q
    by (metis append_take_drop_id filter_append)
  moreover have "filter P (take bound ys) = take bound ys" "filter P (drop bound ys) = []"
    "filter (\<lambda>x. \<not> P x) (take bound ys) = []" "filter (\<lambda>x. \<not> P x) (drop bound ys) = drop bound ys"
    using assms by (auto simp: partitioned_def filter_id_conv filter_empty_conv)
  moreover have "mset (filter Q ys) = mset (filter Q xs)" for Q
    using assms by (simp add: partitioned_def)
  ultimately show ?thesis by (metis append.left_neutral append.right_neutral fst_conv partition_main_def snd_conv)
qed

text \<open>What the programs print; no \<open>assert\<close> of theirs fails.\<close>

lemma list_main_prints: "list_main = Some (map Num [1, 2, 3, 3, 10, 11, 12, 123, 123, 123, 324])"
  by code_simp

lemma set_main_prints: "set_main = Some [Num 0, Num (-1), Num 2]"
  by code_simp

lemma forward_list_main_prints: "forward_list_main = Some [Text ''first: '', Num 2]"
  by code_simp

lemma deque_main_prints:
  "deque_main max_sz = map Num [2, 1, 12, 2] @ [Text ''di.size(): '', Size 0, Num 101, Text ''di.size(): '', Size 13, Size max_sz] @
     map Num (replicate 12 12 @ [101]) @ map Num (replicate 5 12) @ [Text ''di2.size(): '', Size 5, Text ''swap''] @
     map Num (replicate 12 12 @ [101])"
  by (simp add: deque_main_def print_all_def resize_def numeral_eq_Suc)

section \<open>vector.cpp, array.cpp, stack.cpp\<close>

text \<open>\<open>at\<close> throws where \<open>operator[]\<close> is undefined; both are \<open>None\<close> here, and so is a write behind the last element.\<close>

definition vec_index :: "int list \<Rightarrow> nat \<Rightarrow> int option" where
  "vec_index t i = (if i < length t then Some (t ! i) else None)"

definition vec_write :: "int list \<Rightarrow> nat \<Rightarrow> int \<Rightarrow> int list option" where
  "vec_write t i x = (if i < length t then Some (t[i := x]) else None)"

text \<open>
  The capacities, which the library chooses, are an argument. The first part of \<open>main\<close>, up to the write
  through \<open>end()\<close>: the vector and the output; then the rest.
\<close>

definition vector_prefix :: "(nat \<Rightarrow> nat) \<Rightarrow> (int list \<times> item list) option" where
  "vector_prefix cap =
     (let t = [1, 2, 3, 4, 4, 5] in Option.bind (assert (vec_index t 0 = Some 1) t) (\<lambda>t.
      let t = resize 1 t; out = [Text ''size: '', Size (length t), Text ''capacity: '', Size (cap 0)];
          out = out @ [Text ''capacity: '', Size (cap 1)];
          t = [1, 2, 3, 4, 5, 6, 7, 8, 9, 0]; out = out @ [Text ''capacity: '', Size (cap 2)];
          t = butlast t; t = t @ [12]; out = out @ [Text ''capacity: '', Size (cap 3)];
          t = t @ [11]; out = out @ [Text ''capacity: '', Size (cap 4)];
          t = butlast t; out = out @ [Text ''capacity: '', Size (cap 5)]
      in Some (t, out @ [Size (length t)])))"

definition vector_main :: "(nat \<Rightarrow> nat) \<Rightarrow> item list option" where
  "vector_main cap =
     Option.bind (vector_prefix cap) (\<lambda>(t, out). Option.bind (vec_write t (length t) 1123212) (\<lambda>t.
     Option.bind (vec_index t 10) (\<lambda>x.
     let t = resize 100 t; out = out @ [Num x, Text ''capacity: '', Size (cap 6), Size (length t)]
     in Option.bind (vec_index t 10) (\<lambda>y. Some (out @ [Num y])))))"

text \<open>The vector has ten elements when the element behind its end is written: the program is undefined.\<close>

lemma vector_main_undefined:
  "vector_main cap = None" "map_option (length \<circ> fst) (vector_prefix cap) = Some 10"
  by (simp_all add: vector_main_def vector_prefix_def vec_index_def vec_write_def assert_def resize_def Let_def)

text \<open>\<open>array.cpp\<close>: the elements change place, the address of the first array does not.\<close>

definition array_main :: "string \<Rightarrow> item list" where
  "array_main first_pointer =
     (let a1 = resize 10 [12, 123, 12]; out = [Text (''first_pointer: '' @ first_pointer)];
          a1 = replicate (length a1) (1024 :: int); a2 = replicate 10 512; (a1, a2) = (a2, a1)
      in out @ print_all a1)"

lemma array_main_prints: "array_main addr = Text (''first_pointer: '' @ addr) # replicate 10 (Num 512)"
  by (simp add: array_main_def print_all_def)

text \<open>\<open>stack.cpp\<close>: the top is the last element; a copy is independent.\<close>

definition stack_main :: "int list \<times> int list" where
  "stack_main = (let si = [] @ [12]; si2 = si; si2 = si2 @ [1231]; top = last si; (si, si2) = (si2, si) in (si, si2))"

lemma stack_main_swapped: "stack_main = ([12, 1231], [12])"
  by (simp add: stack_main_def)

end
