(* ===== verification/Spec2Isabelle.thy ===== *)
theory Spec2Isabelle
  imports Reply_Codes Broken_Pipe Queue_Run Queue_Progress Worker_Runs Store_Buffer Print_Race Recursive_Count Call_Once Scoped_Locks Ascii_Convert Unique_Ptr Shared_Ptr Lambda_Filter
    Pool_Run Class_Tables Deduction Small_Classes More_Samples File_Copies Thread_Guard Small_Int Misc_Samples Raw_Storage Object_Logs Exceptions Container_Samples
begin

text \<open>
  A model of the servers in \<open>src/multi_server\<close>, of the kernel modules and of
  several of the C++ samples, with the properties that make them correct.

  \<^bold>\<open>The programs.\<close> \<open>src/multi_server\<close> holds the same small web server written eight times. A
  server accepts a connection, reads one request line byte by byte with a state machine, answers with
  a file, a directory listing, the statistics or (in the process servers) the output of a shell
  script, counts the status code in a statistics record, and closes the connection. The versions
  differ in who answers:
  \<^item> \<open>server.c\<close>: a detached thread per connection, no statistics (prefix \<open>srv_\<close>);
  \<^item> \<open>multi_server.c\<close>: a child process per connection (\<open>ms_\<close>);
  \<^item> \<open>multi_server_pre_forked_pool_of_processes.c\<close>: a pool of processes that accept (\<open>pf_\<close>);
  \<^item> \<open>multi_server_pass_socket_fd_to_child_processes.c\<close>: a pool of processes (\<open>ps_\<close>); the functions
    that pass a descriptor, which give the file its name, are in \<open>server.h\<close>;
  \<^item> \<open>multi_server_thread.c\<close>: a thread per connection (\<open>th_\<close>);
  \<^item> \<open>multi_server_pre_create_thread.c\<close>: a pool of threads that accept (\<open>pc_\<close>);
  \<^item> \<open>multi_server_thread_blocking_queue.c\<close>: a pool of threads that take connections from a blocking
    queue (\<open>bq_\<close>, and \<open>thr_\<close> for its copies of the shared functions);
  \<^item> \<open>multi_server_thread_Listening_on_multiple_ports.c\<close>: the same with \<open>select\<close> on several
    listening sockets (\<open>mp_\<close>).
  Every file carries its own copy of \<open>write_code\<close>, \<open>response\<close>, \<open>read_request_line\<close>, \<open>req_parser\<close>,
  \<open>ls_version_one\<close>, \<open>ls_version_two\<close> and, in the process servers, \<open>handle_bash\<close>. A copy calls the
  \<open>write_code\<close> of its own file, so the bodies are definitions with that function as an argument, and
  the prefixed definitions are the copies as linked; \<open>write_code_copies\<close>, \<open>process_copies\<close>,
  \<open>thread_copies\<close>, \<open>handle_bash_copies\<close> and \<open>route_copies\<close> show which of them are equal.

  \<^bold>\<open>How a statement is modelled.\<close> A C statement is a \<open>cmd\<close> (\<open>Prelude\<close>): from a state it returns,
  blocks, exits, is killed by a signal or is undefined. The state \<open>sys\<close> (\<open>Machine\<close>) is one process or
  thread with the kernel's side of its calls: the peer's bytes, the results of the coming \<open>send\<close> and
  \<open>waitpid\<close> calls, the shared segment, the semaphores, the descriptors, the signal flags. What the
  code cannot see (files, directories, the programs it starts, which calls fail) is the record
  \<open>env\<close>, an argument. Programs that wait for events (\<open>accept\<close>, \<open>fork\<close>, \<open>select\<close>, \<open>read\<close>) take them
  from a list, so every definition terminates by recursion on it; with an empty list \<open>accept\<close> waits
  and \<open>read\<close> is at the end of the file. No fuel is used anywhere.

  \<^bold>\<open>Theories.\<close>
  \<^item> \<open>Prelude\<close>: outcomes, sequencing, the frame calculus \<open>frames\<close> and its collection \<open>frame_intros\<close>.
  \<^item> \<open>Clib\<close>: C strings in buffers, \<open>strncasecmp\<close>, \<open>strtol\<close>, \<open>%d\<close>. \<open>Machine\<close>: state and system calls.
  \<^item> \<open>Http\<close>: the types and constants of \<open>server.h\<close> and the request-line parser (\<open>rl_step\<close> is one
    turn of its loop, including the writes past the buffer). \<open>Request_Line\<close>: the grammar it accepts.
  \<^item> \<open>Stats\<close>: the statistics and \<open>write_code\<close>; the locales \<open>status_writer\<close>, \<open>releasing_writer\<close>,
    \<open>holding_writer\<close> and \<open>counting_writer\<close> are what the rest relies on, interpreted on the version of
    the processes and on that of the threads. \<open>Stats_Conc\<close>: any number of writers and readers at once.
  \<^item> \<open>Serve\<close>: replies, files, listings. \<open>Bash\<close>: \<open>handle_bash\<close>, the alarm and the clean-up.
  \<^item> \<open>Handlers\<close>: \<open>do_call\<close> of every file. \<open>Servers\<close>, \<open>Thread_Servers\<close>: the sockets, the accept loops,
    the pools, the reporter of SIGUSR1, the exit handlers and \<open>main\<close>. \<open>Single_Server\<close>: \<open>server.c\<close>.
  \<^item> \<open>Queue\<close>: the linked list of the blocking queue on a heap; the locale \<open>blocking_fifo\<close> is the
    contract of a bounded FIFO, interpreted on \<open>queue_put\<close> and \<open>queue_get\<close>. \<open>Queue_Conc\<close>: any number
    of threads in the two functions, one step per library call and critical section, with spurious
    wake-ups. \<open>Queue_Server\<close>: the accepting thread and the pool threads on the queue and the counters
    together, with the order each of them keeps; \<open>Queue_Run\<close>: one run of it;
    \<open>Queue_Progress\<close>: the way to its first finished connection. \<open>Pool_Server\<close>: the servers whose
    workers take their connections from \<open>accept\<close> (a child or thread for each connection, a pool of
    children or threads), with any number of clients and workers, clients that leave and kill the
    child that serves them, and clients that never let their worker go; an instance of \<open>terminating\<close>;
    \<open>Pool_Run\<close>: runs of them.
  \<^item> \<open>Replies\<close> (locale \<open>ready_writer\<close>), \<open>Request_Handling\<close>, \<open>Process_Handling\<close>: what a client receives
    from a whole connection. \<open>Worker_Runs\<close>: a pool worker against the abstract server \<open>serve_spec\<close>.
    \<open>Scripts\<close>: scripts and alarms.
    \<open>Reply_Codes\<close>: the code counted is the code sent. \<open>Broken_Pipe\<close>: clients that go away. \<open>Descriptors\<close>: which descriptors stay open. \<open>Server_Facts\<close>: the programs around the handlers.
  \<^item> \<open>Fd_Passing\<close>: \<open>sendConnection\<close> and \<open>recvConnection\<close> on \<open>msghdr\<close> and \<open>cmsghdr\<close>, with the sizes
    of 64-bit Linux. \<open>Task_List\<close>: the kernel modules, \<open>print_task\<close> on the tree of tasks.
  \<^item> \<open>Examples\<close>: the small machine on which the properties are run.
  \<^item> \<open>Progress\<close>: the locales \<open>completing\<close> (from every reachable state the end can be reached) and
    \<open>terminating\<close> (every schedule ends), interpreted in \<open>Print_Race\<close> (\<open>condition_variable.cpp\<close>),
    \<open>Recursive_Count\<close> (\<open>mutex.cpp\<close>), \<open>Call_Once\<close> (\<open>call_once.cpp\<close>) and \<open>Store_Buffer\<close>
    (\<open>atomic/test.cpp\<close>, on a machine with store buffers).
  \<^item> \<open>Scoped_Locks\<close> (\<open>unique_lock.cpp\<close>, \<open>lock_guard.cpp\<close>), \<open>Ascii_Convert\<close> (\<open>ascii_convert.cpp\<close>),
    \<open>Unique_Ptr\<close> (\<open>template_for_unique_ptr.cpp\<close>), \<open>Shared_Ptr\<close> (\<open>template_for_shared_ptr.cpp\<close>), \<open>Sort_Unique\<close> (\<open>iterator.cpp\<close>), \<open>Lambda_Filter\<close>
    (\<open>lambda_and_bind.cpp\<close>), \<open>Small_Int\<close> (\<open>operator_convert.cpp\<close>: the class that keeps an \<open>int\<close> in a \<open>size_t\<close>).
  \<^item> \<open>Thread_Guard\<close> (\<open>thread.cpp\<close>): an exception thrown while a thread refers to local variables; a
    third instance of \<open>terminating\<close>.
  \<^item> \<open>Raw_Storage\<close> (\<open>allocator.cpp\<close>, \<open>operator_new_and_delete.cpp\<close>), \<open>Exceptions\<close> (\<open>Exception.cpp\<close>),
    \<open>Object_Logs\<close> (\<open>E_CXX/07\<close>, \<open>09\<close>, \<open>12\<close>, \<open>20\<close>, \<open>virtual_inherit.cpp\<close>), \<open>Class_Samples\<close> (\<open>E_CXX/21\<close>, \<open>24\<close>, \<open>27\<close>,
    \<open>template.cpp\<close>, \<open>ch02/main.cpp\<close>), \<open>Container_Samples\<close> (\<open>Reference/container\<close>, \<open>partition.cpp\<close>),
    \<open>Class_Tables\<close> (inheritance: subobjects, casts, hidden names, virtual calls; \<open>test.cpp\<close>, \<open>M_EXX\<close>, \<open>E_CXX/33\<close>,
    \<open>virtual_overload.cpp\<close>, \<open>template/\<close>), \<open>Deduction\<close> (argument deduction, reference collapsing, forwarding and
    overloaded templates; \<open>template_argument_deduction/\<close>, \<open>template_overload.cpp\<close>, \<open>template_4.cpp\<close>),
    \<open>Small_Classes\<close> and \<open>More_Samples\<close> (one small class or function of a file each),
    \<open>Misc_Samples\<close> (\<open>member_pointer.cpp\<close>, \<open>funcation.cpp\<close>, \<open>namespace.cpp\<close>, \<open>union.cpp\<close>): lifetimes, values
    and what is printed, with undefined behaviour as \<open>None\<close>.
  \<^item> \<open>File_Copies\<close>: the handlers, the queue functions and the small helpers (\<open>is_dir\<close>, \<open>pipe_read\<close>,
    \<open>parse_method\<close>, \<open>parse_version\<close>) that a server file repeats word for word.

  \<^bold>\<open>What is shown.\<close> The answer a client gets is a function of the request line and the file system
  (\<open>request_answer\<close>), whichever server with statistics it talks to, and the counters move by exactly
  that reply. The parser accepts exactly its grammar and reads back what a client prints; requests of at most 8192
  bytes are safe, and a longer method or version writes past the buffer. The queue is a FIFO, also under every
  interleaving, hands each connection to one thread and loses no wake-up. The counters are exact under
  interleaving. The version of \<open>write_code\<close> in the thread servers never gives the semaphore back: it
  finishes one connection and stops, and the queue server as a whole can always
  finish its first connection and stalls after it, like the servers whose threads accept. The servers with processes
  answer, under every schedule, every client that completes its request, stays and does not hold its worker up,
  but for those at the socket of a pool child that another client has killed or holds up; their counters go with
  the replies, and a pool does not replace a killed child. No process server ignores SIGPIPE, so their code for
  \<open>EPIPE\<close> is dead. Scripts, alarms, the clean-up of the child processes, descriptors and
  start-up are stated with their errors. The samples with threads end under every schedule (or can
  always be completed, where a wake-up may be spurious) with the output they are meant to have. The pointer
  classes own each object once and count their sharers, as far as their members are right.

  \<^bold>\<open>Bounds.\<close> The buffer has \<open>BUFFSIZE\<close> = 8192 bytes and a URI \<open>URI_LIMIT\<close> = 1024; an \<open>int\<close> is an \<open>int\<close> of
  HOL and its overflow is undefined where the code can reach it; the length of the queue is an
  unsigned 32-bit number, so the contract holds up to \<open>2 ^ 32 - 1\<close> elements.
  The samples end within 670 steps (\<open>mutex.cpp\<close>), \<open>1007 * n + 3\<close> steps (\<open>call_once.cpp\<close> with \<open>n\<close>
  threads) and \<open>24 * n + 1\<close> steps (\<open>atomic/test.cpp\<close> with \<open>n\<close> rounds), 24 steps (\<open>thread.cpp\<close>), and a server
  with processes makes at most 14 steps for each client, as long as there are no more than \<open>INT_MAX\<close> of them.
  The tables of classes have a bound on their depth, which does not matter once it is large enough.

  \<^bold>\<open>Not modelled.\<close> The calls of \<open>log_print\<close> in the servers, which write to the terminal and only if
  \<open>DEBUG\<close> is set; failing \<open>calloc\<close>; a failing \<open>fork\<close>. The remaining C++ samples compute nothing: they are empty, only declare something or print
  addresses. Four of them do not compile (\<open>priority_queue.cpp\<close>, \<open>template_2.cpp\<close>, \<open>atomic_test.cpp\<close>,
  \<open>atomic/enum.cpp\<close>), nor do some members of \<open>My_unique_ptr\<close> and \<open>My_shared_ptr\<close>, which are left out. Of
  \<open>specializations.h\<close> the versions for floating-point numbers are left out.
\<close>

section \<open>Answering a request\<close>

text \<open>
  C1: a worker of the process pools refines an abstract server: from the start of \<open>server\<close>, on any
  sequence of connections (with interrupted calls of \<open>accept\<close> in between) that carry well-formed
  requests, none of them for a script (\<open>/bash/\<close>), it sends to each client, in order, the answer of \<open>serve_spec\<close>, which knows the requests,
  the file system and the counters alone; it leaves the counters as \<open>serve_spec\<close> does, gives the
  semaphore back every time, and then waits in \<open>accept\<close>.
\<close>

theorem pool_worker_refines:
  assumes "carries evs reqs" and "list_all not_script reqs" and "env_short E" and "requests (shm s) + int (length reqs) \<le> INT_MAX"
    and "\<forall>c \<in> set (socket_calls s SO_REUSEPORT port 0). fails E c = None" and "sem_open_ok E" and "shmat_ok E"
    and "stats_inv (shm s)" and "sem_exists s \<longrightarrow> 0 < sem s"
  shows "\<exists>s'. pf_server E port evs s = Blocked s' \<and> ps_server E port evs s = Blocked s' \<and>
    map snd (replies s') = map snd (replies s) @ fst (serve_spec E (shm s) reqs) \<and>
    shm s' = snd (serve_spec E (shm s) reqs) \<and> sem s' = (if sem_exists s then sem s else 1)"
proof -
  obtain t where t: "pf_server E port evs s = pool_loop pf_do_call E evs t" "worker_ok t" "shm t = shm s"
    "replies t = replies s" "sem t = (if sem_exists s then sem s else 1)"
    by (rule worker_starts [OF assms(5-9), of evs])
  have "requests (shm t) + int (length reqs) \<le> INT_MAX" using assms(4) t(3) by simp
  from pool_loop_refines [OF assms(1,2) t(2) assms(3) this] show ?thesis
    using t by (auto simp: ps_server_def pf_server_def)
qed

theorem pool_worker_refines_witness:
  "\<exists>s'. pf_server ex_env 2346 [(Acc \<lparr>conn_fd = 4, conn_bytes = ex_get, conn_sendq = []\<rparr>, []), (Acc_err EINTR, []),
       (Acc \<lparr>conn_fd = 4, conn_bytes = ex_get, conn_sendq = []\<rparr>, [])] (ex_sys []) = Blocked s' \<and>
     map snd (replies s') = [status_line 200 ''Ok'' @ CRLF @ ''hello world'', status_line 200 ''Ok'' @ CRLF @ ''hello world'']"
proof -
  let ?c = "\<lparr>conn_fd = 4, conn_bytes = ex_get, conn_sendq = []\<rparr>" and ?r = "(''GET'', ''/a.txt'', ''HTTP/1.1'')"
  have "sends_request ?c ''GET'' ''/a.txt'' ''HTTP/1.1''"
    using ex_request_ok by (auto simp: sends_request_def ex_get_def BUFFSIZE_def)
  then have c: "carries [(Acc ?c, []), (Acc_err EINTR, []), (Acc ?c, [])] [?r, ?r]" by simp
  have ns: "list_all not_script [?r, ?r]"
    using ex_not_script by (simp add: not_script_def split: target.split)
  from pool_worker_refines [OF c ns ex_env_short, of "ex_sys []" 2346] stats_inv_init show ?thesis
    by (auto simp: ex_answer init_statistics_def INT_MAX_def)
qed



text \<open>
  C3: a pre-forked worker (\<open>do_call\<close>) answers every well-formed request that is not for a script with
  exactly the bytes \<open>request_answer\<close> computes from the request line, the file system and the counter:
  405, 505, the statistics, a listing, a file or one of the error replies. It counts that reply's
  code, gives the semaphore back and shuts down the writing side of the connection.
\<close>

theorem pf_do_call_answers:
  assumes "good_request m u v rest s" and "ready s" and "env_short E" and "\<forall>c. target_of u \<noteq> T_script c"
  shows "\<exists>s'. pf_do_call E out connfd s = Ret () s' \<and>
    tx s' = tx s @ snd (request_answer E (requests (shm s)) m u v) \<and>
    shm s' = counted (fst (request_answer E (requests (shm s)) m u v)) (shm s) \<and>
    sem s' = sem s \<and> shut s' = shut s @ [(connfd, SHUT_WR)]"
  by (rule pf_do_call_answered [OF assms, of out connfd]) blast

theorem pf_do_call_answers_witness:
  "\<exists>s'. pf_do_call ex_env [] 4 (ex_sys (render_request ''GET'' ''/a.txt'' ''HTTP/1.1'')) = Ret () s' \<and>
    tx s' = status_line 200 ''Ok'' @ CRLF @ ''hello world'' \<and> sem s' = 1"
  using pf_do_call_answers [OF ex_good_request ex_ready ex_env_short ex_not_script, of "[]" 4]
  by (force simp: ex_answer)

text \<open>
  C4: the same for \<open>multi_server.c\<close>, whose child opens the semaphore and attaches the counters
  itself for its one connection; it shuts down the reading side and leaves a dangling pointer behind.
\<close>

theorem ms_do_call_answers:
  assumes "good_request m u v rest s" and "ready (s\<lparr>share_address := P_segment\<rparr>)" and "sem_exists s"
    and "env_short E" and "\<forall>c. target_of u \<noteq> T_script c"
    and "sem_open_ok E" and "ftok_ok E" and "shmat_ok E"
  shows "\<exists>s'. ms_do_call E out connfd s = Ret () s' \<and>
    tx s' = tx s @ snd (request_answer E (requests (shm s)) m u v) \<and>
    shm s' = counted (fst (request_answer E (requests (shm s)) m u v)) (shm s) \<and>
    sem s' = sem s \<and> shut s' = shut s @ [(connfd, SHUT_RD)] \<and> share_address s' = P_wild"
proof -
  let ?t = "new_buffers s\<lparr>share_address := P_segment\<rparr>"
  have "good_request m u v rest ?t" "ready ?t"
    using assms(1,2) by (auto simp: good_request_def ready_def new_buffers_def)
  then have "answered 0 (request_answer E (requests (shm ?t)) m u v) ?t
      (serve_request ms_read_request_line ms_response (ms_route E out) ?t)"
    by (intro serve_process_answered(2)) (use assms in auto)
  then obtain t where t: "serve_request ms_read_request_line ms_response (ms_route E out) ?t = Ret () t"
    "tx t = tx s @ snd (request_answer E (requests (shm s)) m u v)"
    "shm t = counted (fst (request_answer E (requests (shm s)) m u v)) (shm s)" "sem t = sem s"
    by (auto simp: answered_def)
  have out: "outside t = outside ?t" by (rule frames_Ret [OF outside_pf_serve(2) t(1)])
  then have "shut t = shut ?t" by (rule outside_shut)
  then have "shut t = shut s" by simp
  moreover have "share_address t = P_segment"
    using arg_cong [OF out, of share_address] by (simp add: outside_def)
  moreover have "sem_exists (new_buffers s)" using assms(3) by (simp add: new_buffers_def)
  ultimately show ?thesis
    using t assms(6-8) by (simp add: ms_do_call_def open_shm_sem_apply attach_def detach_def)
qed

theorem ms_do_call_answers_witness:
  "\<exists>s'. ms_do_call ex_env [] 4 (ex_sys (render_request ''GET'' ''/a.txt'' ''HTTP/1.1'')) = Ret () s' \<and>
    tx s' = status_line 200 ''Ok'' @ CRLF @ ''hello world'' \<and> share_address s' = P_wild"
proof -
  have r: "ready (ex_sys b\<lparr>share_address := P_segment\<rparr>)" for b
    using ex_ready [of b] by (simp add: ready_def)
  show ?thesis
    using ms_do_call_answers [OF ex_good_request r _ ex_env_short ex_not_script, of "[]" 4]
    by (force simp: ex_answer)
qed

text \<open>
  C5: a thread of \<open>multi_server_thread.c\<close> sends the same answer, with \<open>/bash/\<close> not treated apart,
  and closes the connection; but the semaphore is one lower than before.
\<close>

theorem th_do_call_answers:
  assumes "good_request m u v rest s" and "ready s" and "env_short E"
  shows "\<exists>s'. th_do_call E connfd s = Ret () s' \<and>
    tx s' = tx s @ snd (request_answer E (requests (shm s)) m u v) \<and>
    shm s' = counted (fst (request_answer E (requests (shm s)) m u v)) (shm s) \<and>
    sem s' = sem s - 1 \<and> connfd \<notin> set (fds s') \<and> shut s' = shut s @ [(connfd, SHUT_RDWR)]"
proof -
  have "answered 1 (request_answer E (requests (shm s)) m u v) (new_buffers s)
      (serve_request thr_read_request_line thr_response (thr_route E) (new_buffers s))"
    using serve_thread_answered [of m u v rest "new_buffers s" E] assms
    by (simp add: good_request_new_buffers)
  then obtain t where t: "serve_request thr_read_request_line thr_response (thr_route E) (new_buffers s) = Ret () t"
    "tx t = tx s @ snd (request_answer E (requests (shm s)) m u v)"
    "shm t = counted (fst (request_answer E (requests (shm s)) m u v)) (shm s)" "sem t = sem s - 1"
    by (auto simp: answered_def)
  have "shut t = shut s"
    by (rule outside_shut) (use frames_Ret [OF outside_thr_serve t(1)] in simp)
  then show ?thesis using t by (simp add: th_do_call_def)
qed

theorem th_do_call_answers_witness:
  "\<exists>s'. th_do_call ex_env 4 (ex_sys (render_request ''GET'' ''/a.txt'' ''HTTP/1.1'')) = Ret () s' \<and>
    tx s' = status_line 200 ''Ok'' @ CRLF @ ''hello world'' \<and> sem s' = 0"
  using th_do_call_answers [OF ex_good_request ex_ready ex_env_short, of 4]
  by (force simp: ex_answer)

text \<open>
  C6: whatever the client sends and however the system calls go, a pre-forked worker that gets to the
  end of \<open>do_call\<close> has left the semaphore as it was and has counted one request or none. To a client that
  takes all it is sent it has counted, if anything, the code of the status line with which the bytes sent
  to it begin.
\<close>

theorem pf_do_call_counts:
  assumes "pf_do_call E out connfd s = Ret u s'"
  shows "sem s' = sem s \<and> (shm s' = shm s \<or> (\<exists>code r rest. count_code code (shm s) = Some (shm s') \<and>
    (sendq s = [] \<longrightarrow> tx s' = tx s @ status_line code r @ rest)))"
proof -
  obtain t where t: "serve_request ms_read_request_line ms_response (pf_route E out) (new_buffers s) = Ret () t"
    "shm t = shm s'" "sem t = sem s'" "tx t = tx s'"
    using assms by (auto simp: pf_do_call_def bindC_Ret_iff)
  obtain codes where c: "length codes \<le> 1" "count_all codes (shm s) = Some (shm s')" "sem s = sem s'"
    by (rule answersE [OF pf_serve_answers t(1)]) (use t in auto)
  show ?thesis
  proof (cases "sendq s = []")
    case True
    then have "sendq (new_buffers s) = []" by (simp add: new_buffers_def)
    then obtain out where "tx t = tx (new_buffers s) @ out" "shm t = shm (new_buffers s) \<or>
        (\<exists>code r rest. count_code code (shm (new_buffers s)) = Some (shm t) \<and> out = status_line code r @ rest)"
      by (rule labelledD [OF labelled_serve(1) t(1)])
    then show ?thesis using t(2-4) c(3) by auto
  next
    case False
    then show ?thesis using c by (cases codes) (auto split: option.splits)
  qed
qed

theorem pf_do_call_counts_witness:
  "\<exists>s'. pf_do_call ex_env [] 4 (ex_sys ex_get) = Ret () s' \<and> sem s' = 1 \<and> (shm s' = init_statistics \<or>
    (\<exists>code r rest. count_code code init_statistics = Some (shm s') \<and> tx s' = status_line code r @ rest))"
proof -
  obtain s' where s': "pf_do_call ex_env [] 4 (ex_sys ex_get) = Ret () s'" using ex_pf_returns by blast
  show ?thesis using pf_do_call_counts [OF s'] s' by auto
qed

text \<open>
  The thread server counts exactly one request on every path through \<open>do_call\<close> that returns, and
  every one of them costs the semaphore, which was positive before and is one lower after.
\<close>

theorem th_do_call_counts:
  assumes "th_do_call E connfd s = Ret u s'"
  shows "sem s = Suc (sem s') \<and> requests (shm s') = requests (shm s) + 1 \<and>
    (\<exists>code. count_code code (shm s) = Some (shm s'))"
proof -
  obtain t where t: "serve_request thr_read_request_line thr_response (thr_route E) (new_buffers s) = Ret () t"
    "shm t = shm s'" "sem t = sem s'"
    using assms by (auto simp: th_do_call_def bindC_Ret_iff)
  obtain codes where c: "1 \<le> length codes" "length codes \<le> 1" "count_all codes (shm s) = Some (shm s')"
      "sem s = sem s' + length codes"
    by (rule answersE [OF thr_serve_answers t(1)]) (use t in auto)
  then obtain code where "codes = [code]" by (cases codes) auto
  then show ?thesis using c count_code_requests [of code "shm s" "shm s'"] by (auto split: option.splits)
qed

theorem th_do_call_counts_witness:
  "\<exists>s'. th_do_call ex_env 4 (ex_sys ex_get) = Ret () s' \<and> sem s' = 0 \<and> requests (shm s') = 1"
proof -
  obtain s' where s': "th_do_call ex_env 4 (ex_sys ex_get) = Ret () s'" using ex_th_returns by blast
  show ?thesis using th_do_call_counts [OF s'] s' by (simp add: init_statistics_def)
qed

text \<open>
  C7: with the semaphore at 1, as \<open>main\<close> sets it, a pool thread of the queue server and one of the
  pre-created pool finish at most one connection, however many are handed to them: \<open>write_code\<close> keeps
  the semaphore, and the next call of it never returns.
\<close>

theorem pool_thread_serves_once:
  assumes "sem s = 1"
  shows "outcome_all (\<lambda>s'. length (replies s') \<le> length (replies s) + 1) (bq_do_call E conns s) \<and>
    outcome_all (\<lambda>s'. length (replies s') \<le> length (replies s) + 1) (pc_do_call E evs s)"
  using pool_loops_once [of "new_buffers s" E] assms
  by (simp add: bq_do_call_def pc_do_call_def outcome_all_bind_ret)

theorem pool_thread_serves_once_witness:
  "outcome_all (\<lambda>s'. length (replies s') \<le> 1)
    (bq_do_call ex_env [\<lparr>conn_fd = 4, conn_bytes = ex_get, conn_sendq = []\<rparr>,
       \<lparr>conn_fd = 5, conn_bytes = ex_get, conn_sendq = []\<rparr>] (ex_sys []))"
  using pool_thread_serves_once [of "ex_sys []" ex_env _ "[]"] by simp

text \<open>
  C8: the servers with threads that call \<open>accept\<close> finish one connection at most. However many clients
  connect to \<open>multi_server_thread.c\<close> or to the pre-created pool, and whatever the schedule, one call of
  \<open>write_code\<close> returns at most, so at most one connection gets to what comes after it: the data of a file or
  a listing, the end of the connection, for a pool thread the next \<open>accept\<close>. (A reply that \<open>response\<close> makes
  is sent before its \<open>write_code\<close>, so its client may have it.) The pool of \<open>n\<close> threads takes at most \<open>n + 1\<close>
  connections from the backlog.
\<close>

theorem thread_servers_stall:
  assumes "C \<in> {thread_each S, pre_created S}" and "(pool_step C n)\<^sup>*\<^sup>* (pool_init conns) s"
  shows "length (done_log (pw s)) \<le> 1 \<and>
    length (finished s) + sum_over replying n (pjobs s) \<le> length (done_log (pw s)) \<and> length (taken s) \<le> n + 1"
  using pool_stalls [OF assms(2)] assms(1) by (auto simp: pool_confs)

theorem thread_servers_stall_witness:
  "\<exists>s. (pool_step (pre_created (\<lambda>_. False)) 2)\<^sup>*\<^sup>* (pool_init [7, 8]) s \<and> finished s = [7] \<and>
    length (done_log (pw s)) \<le> 1 \<and> length (taken s) \<le> 3"
proof -
  let ?C = "pre_created (\<lambda>_. False)"
  have "(pool_step ?C 2)\<^sup>*\<^sup>* (pool_init [7, 8]) (ex_pool [8] [7] In_accept (ex_w1 False))"
    using relpowp_imp_rtranclp [OF ex_pool_served [of ?C "[8]"]] by (simp add: pool_confs)
  then show ?thesis using thread_servers_stall [of ?C "\<lambda>_. False" 2 "[7, 8]"] by fastforce
qed

text \<open>
  C9: the queue server finishes one connection and stops. In every state its threads can reach, each
  socket put is in the list, in the hands of one thread or handed to one; every connection handed out
  is finished (its \<open>write_code\<close> has returned) or one pool thread is busy with it; at most one is ever finished, so at most one more
  than there are pool threads is ever taken from the queue, however many are accepted.
\<close>

theorem queue_server_stalls:
  assumes "server_reach pool q s" and "length (put_log (sq s)) < 2 ^ 32"
  shows "mset (put_log (sq s)) = mset (contents (que (sq s))) + sum_over in_hand (Suc pool) (pcs (sq s)) +
      mset (map snd (served (sq s))) \<and>
    length (served (sq s)) = length (done_log (sw s)) + sum_over handling (Suc pool) (roles s) \<and>
    length (done_log (sw s)) \<le> 1 \<and> length (served (sq s)) \<le> pool + 1"
  using put_log_parts [OF server_parts(1) [OF assms(1)] assms(2)] server_reach_inv [OF assms(1)]
    done_once [OF server_parts(2) [OF assms(1)]] served_bound [OF assms(1)]
  by (simp add: server_inv_def)

theorem queue_server_stalls_witness:
  "length (served ex_got) = length (done_log (ex_w1 False)) + sum_over handling (Suc 1) ex_roles \<and>
    length (served ex_got) \<le> 2"
  using queue_server_stalls [OF ex_done_reached] by (simp add: ex_got_def)

text \<open>
  C10: that one connection can always be finished, if the clients complete their requests: with at least one
  pool thread, from every state the threads can reach after something has been put into the queue, whatever
  they are doing, some sequence of steps finishes a connection. The threads cannot deadlock before that.
\<close>

theorem queue_server_answers_first:
  assumes "server_reach pool q s" and "0 < pool" and "put_log (sq s) \<noteq> []"
    and "length (put_log (sq s)) < 2 ^ 32 - 2"
  shows "\<exists>t. (server_step pool)\<^sup>*\<^sup>* s t \<and> length (done_log (sw t)) = 1"
proof -
  obtain t where t: "(server_step pool)\<^sup>*\<^sup>* s t" "done_log (sw t) \<noteq> []"
    using first_answered [OF can_answerI [OF assms(1) _ assms(3,4)] assms(2)] by blast
  then have "server_reach pool q t" using assms(1) by (meson rtranclp_trans)
  then have "length (done_log (sw t)) \<le> 1" using done_once server_parts(2) by blast
  with t show ?thesis by (intro exI [of _ t]) (cases "done_log (sw t)"; simp)
qed

theorem queue_server_answers_first_witness:
  "\<exists>t. (server_step 1)\<^sup>*\<^sup>* \<lparr>sq = ex_put, sw = wsys_init, roles = ex_roles\<rparr> t \<and> length (done_log (sw t)) = 1"
  using queue_server_answers_first [OF ex_put_reached] by (simp add: ex_put_def)

section \<open>The request line\<close>

text \<open>
  C11: the state machine of \<open>read_request_line\<close> returns 0 exactly on inputs that start with a request
  line \<open>Method SP URI SP Version CR LF\<close> of visible ASCII bytes, with a URI of at most 1022 bytes and the
  other two parts inside \<open>recv_buffer\<close>; whatever was in the buffers before.
\<close>

theorem request_line_language:
  "fst (rl_loop inp (rl_start q b)) = RL_ok \<longleftrightarrow>
     (\<exists>m u v rest. inp = render_request m u v @ rest \<and> request_ok m u v)"
proof
  assume "fst (rl_loop inp (rl_start q b)) = RL_ok"
  then show "\<exists>m u v rest. inp = render_request m u v @ rest \<and> request_ok m u v"
    by (rule rl_loop_ok_inv) blast
next
  assume "\<exists>m u v rest. inp = render_request m u v @ rest \<and> request_ok m u v"
  then show "fst (rl_loop inp (rl_start q b)) = RL_ok"
    using rl_loop_accepts by fastforce
qed

text \<open>
  C12: reading back a request that a client has put together gives its parts: the method that the first
  three letters of the token name, the URI as the C string in \<open>req_uri\<close>, the two numbers of the
  version; and the bytes after the line are left for the next \<open>recv\<close>.
\<close>

theorem request_line_roundtrip:
  assumes "request_ok m u v" and "3 \<le> length m" and "length v < BUFFSIZE"
  shows "\<exists>r. rl_loop (render_request m u v @ rest) (rl_start q b) = (RL_ok, r, rest) \<and>
    meth (rd_req r) = method_spec m \<and> uri_at (rd_req r) 0 = u \<and> version (rd_req r) = version_spec v"
  using rl_loop_accepts [OF assms(1)] after_version_meth [of q b m u v] after_version_uri [of u q b m v]
    after_version_version [of v q b m u] parse_method_spec [of m b] assms
  by (auto simp: request_ok_def uri_at_def)

theorem request_line_roundtrip_witness:
  "\<exists>r. rl_loop (render_request ''GET'' ''/a.txt'' ''HTTP/1.1'' @ ''x'') (rl_start calloc_req_line calloc_buffer)
       = (RL_ok, r, ''x'') \<and> meth (rd_req r) = GET \<and> uri_at (rd_req r) 0 = ''/a.txt'' \<and>
     version (rd_req r) = \<lparr>major = 1, minor = 1\<rparr>"
  using request_line_roundtrip [OF ex_request_ok, of "''x''"] by (simp add: ex_method ex_version BUFFSIZE_def)

text \<open>
  C13: the version of a request is read back as printed, for all pairs of numbers from 0 to \<open>INT_MAX\<close>,
  by the loops of \<open>parse_version\<close> on any old contents of the buffer.
\<close>

theorem parse_version_prints:
  assumes "0 \<le> a" and "a \<le> INT_MAX" and "0 \<le> c" and "c \<le> INT_MAX"
    and "v = ''HTTP/'' @ dec_int a @ ''.'' @ dec_int c"
  shows "\<exists>b'. parse_version (store b 0 v) (length v) = Some (\<lparr>major = a, minor = c\<rparr>, b')"
proof -
  have dec: "length (dec_int n) \<le> 10 \<and> all_valid (dec_int n)" if "0 \<le> n" "n \<le> INT_MAX" for n
    using that length_dec_nat_le [of "nat n" 10] dec_nat_digits [of "nat n"]
    by (auto simp: dec_int_def INT_MAX_def nat_less_iff all_valid_def list_all_iff isdigit_def is_valid_def Let_def)
  note da = dec [OF assms(1,2)] and dc = dec [OF assms(3,4)]
  have "all_valid v" using da dc assms(5) by (simp add: is_valid_def)
  moreover have "length v < BUFFSIZE" using da dc assms(5) by (simp add: BUFFSIZE_def)
  ultimately show ?thesis
    using parse_version_spec [of v b] version_spec_print [of a c] assms by simp
qed

theorem parse_version_prints_witness:
  "\<exists>b'. parse_version (store calloc_buffer 0 (''HTTP/'' @ dec_int 1 @ ''.'' @ dec_int 0))
     (length (''HTTP/'' @ dec_int 1 @ ''.'' @ dec_int 0)) = Some (\<lparr>major = 1, minor = 0\<rparr>, b')"
  using parse_version_prints [of 1 0 _ calloc_buffer] by (simp add: INT_MAX_def)

text \<open>
  C14: a client that sends more than 8192 bytes for the method, or for the version after a method and a URI,
  makes each of the eight servers write past \<open>recv_buffer\<close>, whatever the buffers of a pool thread hold from
  earlier connections: neither of the two states of the machine that fill the buffer looks at its size.
  (\<open>multi_server.c\<close> reads the request only when its semaphore and its key are there.)
\<close>

theorem long_token_overflows:
  assumes "inp = m @ rest \<and> all_valid m \<and> BUFFSIZE < length m \<or>
      inp = m @ SP # u @ SP # v @ rest \<and> all_valid m \<and> all_valid u \<and> length u + 1 < URI_LIMIT \<and> all_valid v \<and>
        BUFFSIZE < length v"
    and "rx s = inp" and "conn_bytes c = inp" and "sem_open_ok E" and "ftok_ok E"
  shows "ms_do_call E out connfd s = Fault Heap_Overflow \<and> pf_do_call E out connfd s = Fault Heap_Overflow \<and>
    ps_do_call E out connfd s = Fault Heap_Overflow \<and> th_do_call E connfd s = Fault Heap_Overflow \<and>
    bq_serve E c s = Fault Heap_Overflow \<and> mp_serve E c s = Fault Heap_Overflow \<and>
    pc_loop E (Acc c # evs) s = Fault Heap_Overflow \<and> accept_request E connfd s = Fault Heap_Overflow"
proof -
  have rd: "read_request_line resp t = Fault Heap_Overflow" if "rx t = inp" for resp t
  proof -
    obtain e r l where run: "rl_loop inp (rl_start (req_buf t) (recv_buffer t)) = (e, r, l)" by (metis surj_pair)
    have "fst (rl_loop inp (rl_start (req_buf t) (recv_buffer t))) = RL_overflow"
      using assms(1) rl_loop_long_method rl_loop_long_version by blast
    then have "e = RL_overflow" using run by simp
    then show ?thesis using run that by (simp add: read_request_line_def)
  qed
  then have sr: "serve_request (read_request_line resp) resp' route t = Fault Heap_Overflow" if "rx t = inp" for resp resp' route t
    using that by (simp add: serve_request_def)
  note reader = srv_read_request_line_def ms_read_request_line_def thr_read_request_line_def
  have "pf_do_call E out connfd s = Fault Heap_Overflow" "th_do_call E connfd s = Fault Heap_Overflow"
    using assms(2) by (simp_all add: pf_do_call_def th_do_call_def reader sr)
  moreover have "ms_do_call E out connfd s = Fault Heap_Overflow"
    using assms(2,4,5) by (simp add: ms_do_call_def open_shm_sem_def attach_def reader sr)
  moreover have "bq_serve E c s = Fault Heap_Overflow" "pc_loop E (Acc c # evs) s = Fault Heap_Overflow"
    using assms(3) by (simp_all add: bq_serve_def take_conn_def reader sr)
  moreover have "accept_request E connfd s = Fault Heap_Overflow"
    using assms(2) by (simp add: accept_request_def reader rd)
  ultimately show ?thesis by simp
qed

theorem long_token_overflows_witness:
  "pf_do_call ex_env [] 4 (ex_sys (replicate 8193 (CHR ''A''))) = Fault Heap_Overflow \<and>
   bq_serve ex_env \<lparr>conn_fd = 4, conn_bytes = replicate 8193 (CHR ''A''), conn_sendq = []\<rparr> (ex_sys (replicate 8193 (CHR ''A''))) =
     Fault Heap_Overflow"
  using long_token_overflows [of "replicate 8193 (CHR ''A'')" "replicate 8193 (CHR ''A'')" "[]" _ _
      "ex_sys (replicate 8193 (CHR ''A''))" "\<lparr>conn_fd = 4, conn_bytes = replicate 8193 (CHR ''A''), conn_sendq = []\<rparr>" ex_env "[]" 4]
  by (simp add: BUFFSIZE_def all_valid_def is_valid_def list_all_iff del: pc_loop.simps)

text \<open>
  C15: as long as the client sends at most 8192 bytes in all, the parser never writes past the buffer,
  from whatever contents of the buffers it starts.
\<close>

theorem short_input_safe:
  assumes "length (rx s) \<le> BUFFSIZE"
  shows "ms_read_request_line s \<noteq> Fault Heap_Overflow \<and> thr_read_request_line s \<noteq> Fault Heap_Overflow"
  unfolding ms_read_request_line_def thr_read_request_line_def
  by (intro conjI read_request_line_safe [OF _ assms];
      simp add: ms_response_def thr_response_def never_overflow_response never_overflow_wc)

theorem short_input_safe_witness:
  "ms_read_request_line (ex_sys ''GE'') \<noteq> Fault Heap_Overflow \<and>
   thr_read_request_line (ex_sys ''GE'') \<noteq> Fault Heap_Overflow"
  using short_input_safe [of "ex_sys ''GE''"] by (simp add: BUFFSIZE_def)

text \<open>
  C16: input that is not a request line and does not overrun the buffer is answered with 400 and
  counted as such; no descriptor is opened, and the reply and the state after it are the same whatever the
  file system holds and whatever a script would print.
\<close>

theorem bad_request_answered:
  assumes "fst (rl_loop (rx s) (rl_start calloc_req_line calloc_buffer)) = RL_error" and "ready s"
  shows "\<exists>s'. (\<forall>E out. pf_do_call E out connfd s = Ret () s') \<and> tx s' = tx s @ reply_bytes 400 ''Bad request'' None \<and>
    shm s' = counted 400 (shm s) \<and> fds s' = fds s"
proof -
  have "fst (rl_loop (rx (new_buffers s)) (rl_start (req_buf (new_buffers s)) (recv_buffer (new_buffers s)))) = RL_error"
    using assms(1) by (simp add: new_buffers_def)
  then obtain r :: reader and l where rd: "read_request_line ms_response (new_buffers s) =
      bindC (ms_response 400 ''Bad request'' None) (\<lambda>_. ret IS_ERROR)
        (new_buffers s\<lparr>rx := l, req_buf := rd_req r, recv_buffer := rd_buf r\<rparr>)"
    by (rule read_request_line_bad)
  let ?t = "new_buffers s\<lparr>rx := l, req_buf := rd_req r, recv_buffer := rd_buf r\<rparr>"
  have "ready ?t" using assms(2) by (simp add: ready_def new_buffers_def)
  then have "ms_response 400 ''Bad request'' None ?t = Ret () (?t\<lparr>tx := tx ?t @ reply_bytes 400 ''Bad request'' None,
      shm := counted 400 (shm ?t), sem := sem ?t - 0\<rparr>)"
    unfolding ms_response_def by (intro ms.response_ready reply_fitsI) simp_all
  then show ?thesis
    using rd by (simp add: pf_do_call_def serve_request_def ms_read_request_line_def)
qed

theorem bad_request_answered_witness:
  "\<exists>s'. pf_do_call ex_env [] 4 (ex_sys ''GET'') = Ret () s' \<and> tx s' = reply_bytes 400 ''Bad request'' None"
  using bad_request_answered [of "ex_sys ''GET''" 4] ex_ready [of "''GET''"]
  by (auto simp: rl_step_def rl_start_def is_valid_def BUFFSIZE_def)


section \<open>The blocking queue\<close>

text \<open>
  C17: any sequence of calls on an initialised queue, with fresh addresses from \<open>calloc\<close>: the sockets
  handed out by \<open>queue_get\<close>, followed by those still in the list, are the sockets put, in their
  order, and the pointers and the length stay consistent.
\<close>

theorem queue_fifo:
  assumes "run_ops fresh_addr queue_put queue_get ops (queue_init q) = Some (out, q')"
    and "length ops \<le> 2 ^ 32 - 1"
  shows "queue_inv q' \<and> out @ contents q' = puts_of ops"
  using cq.run_fifo [OF queue_init_inv assms(1)] assms(2) by (simp add: queue_init_contents)

theorem queue_fifo_witness:
  "\<exists>q'. run_ops fresh_addr queue_put queue_get [Put 5 7, Put 6 8, Get, Put 5 9, Get] (queue_init ex_queue) =
     Some ([7, 8], q') \<and> queue_inv q' \<and> [7, 8] @ contents q' = [7, 8, 9]"
proof -
  obtain q' where run: "run_ops fresh_addr queue_put queue_get [Put 5 7, Put 6 8, Get, Put 5 9, Get]
      (queue_init ex_queue) = Some ([7, 8], q')"
    by (simp add: fresh_addr_def queue_init_def ex_queue_def queue_put_def queue_put_alloc_def
          queue_put_link_def queue_get_def queue_must_wait_def queue_get_unlink_def queue_get_free_def Let_def)
  then show ?thesis using queue_fifo [OF run] by simp
qed

text \<open>
  C18: with any number of threads inside \<open>queue_put\<close> and \<open>queue_get\<close> at once, the sockets unlinked so
  far and those in the list are the sockets linked so far, in order.
\<close>

theorem queue_conc_fifo:
  assumes "qreach n s" and "length (put_log s) < 2 ^ 32"
  shows "got_log s @ contents (que s) = put_log s"
  using qreach_list_inv [OF assms] by (auto simp: list_inv_def contents_repr)

theorem queue_conc_fifo_witness: "got_log ex_q2 @ contents (que ex_q2) = [9]"
  using queue_conc_fifo [OF ex_reach2] by simp

text \<open>
  Every socket put is, at any time, in exactly one of three places: in the list, in the hands of
  one thread between its unlink and its return, or served by one thread.
\<close>

theorem queue_serves_each_once:
  assumes "qreach n s" and "length (put_log s) < 2 ^ 32"
  shows "mset (put_log s) =
    mset (contents (que s)) + sum_over in_hand n (pcs s) + mset (map snd (served s))"
  by (rule put_log_parts [OF assms])

theorem queue_serves_each_once_witness:
  "mset [9] = mset (contents (que ex_q2)) + sum_over in_hand 2 (pcs ex_q2) + mset (map snd (served ex_q2))"
  using queue_serves_each_once [OF ex_reach2] by simp

text \<open>
  C19: no wake-up is lost: while a thread sleeps in \<open>pthread_cond_wait\<close> and there is a socket in the
  list, some other thread is awake and can take a step towards it.
\<close>

theorem queue_no_lost_wakeup:
  assumes "qreach n s" and "length (put_log s) < 2 ^ 32 - 1" and "u < n" and "pcs s u = G_wait"
    and "\<not> queue_must_wait (que s)"
  shows "\<exists>t < n. pcs s t \<noteq> Idle \<and> pcs s t \<noteq> G_wait \<and> (\<exists>s'. qstep n s s' \<and> pcs s' t \<noteq> pcs s t)"
  using assms by (rule awake_thread_moves)

theorem queue_no_lost_wakeup_witness:
  "\<exists>t < 2. pcs ex_q2 t \<noteq> Idle \<and> pcs ex_q2 t \<noteq> G_wait \<and> (\<exists>s'. qstep 2 ex_q2 s' \<and> pcs s' t \<noteq> pcs ex_q2 t)"
  by (rule queue_no_lost_wakeup [OF ex_reach2, of 0]) simp_all

text \<open>
  C20: the critical sections exclude each other and never meet a wild pointer: at most one thread is in
  one, and it can always take its next step.
\<close>

theorem queue_critical_sections:
  assumes "qreach n s" and "length (put_log s) < 2 ^ 32 - 1" and "t < n" and "in_crit (pcs s t)"
  shows "(\<exists>s'. qstep n s s' \<and> pcs s' t \<noteq> pcs s t) \<and> (\<forall>u. in_crit (pcs s u) = (u = t))"
proof -
  have "list_inv s" using assms(1,2) by (intro qreach_list_inv) auto
  then show ?thesis
    using crit_step [OF _ assms(3,4,2)] qreach_mutex [OF assms(1)] assms(4)
    by (auto simp: mutex_ok_def)
qed

theorem queue_critical_sections_witness:
  "(\<exists>s'. qstep 2 ex_q2 s' \<and> pcs s' 1 \<noteq> pcs ex_q2 1) \<and> (\<forall>u. in_crit (pcs ex_q2 u) = (u = 1))"
  by (rule queue_critical_sections [OF ex_reach2]) simp_all

section \<open>The shared counters\<close>

text \<open>
  C21: no update is lost: whenever no process is between \<open>sem_wait\<close> and the end of \<open>write_code\<close>, the
  counters are those of the finished calls counted one after the other: \<open>requests\<close> their number, each
  class counter the number of codes of that class.
\<close>

theorem counters_exact:
  assumes "wreach posts n s" and "\<forall>t < n. in_section (wpcs s t) = 0"
  shows "requests (wshm s) = int (length (done_log s)) \<and>
    code_2xx (wshm s) = int (length (filter (\<lambda>c. c div 100 = 2) (done_log s))) \<and>
    code_3xx (wshm s) = int (length (filter (\<lambda>c. c div 100 = 3) (done_log s))) \<and>
    code_4xx (wshm s) = int (length (filter (\<lambda>c. c div 100 = 4) (done_log s))) \<and>
    code_5xx (wshm s) = int (length (filter (\<lambda>c. c div 100 = 5) (done_log s)))"
proof -
  have "count_all (done_log s) init_statistics = Some (wshm s)"
    using count_inv_rest [OF wreach_count_inv [OF assms(1)]] assms(2) by (simp add: sum_over_zero)
  then show ?thesis
    using count_all_requests [of "done_log s"] count_all_classes [of "done_log s"]
    by (simp add: init_statistics_def)
qed

theorem counters_exact_witness: "requests (wshm (ex_w1 True)) = 1 \<and> code_2xx (wshm (ex_w1 True)) = 1"
  using counters_exact [OF ex_wreach1, of True] by simp

text \<open>
  The semaphore is never above 1 and at most one process is in the protected part, whether it
  counts or reads.
\<close>

theorem counters_exclusive:
  assumes "wreach posts n s" and "t < n" and "u < n" and "in_section (wpcs s t) = 1" and "in_section (wpcs s u) = 1"
  shows "t = u \<and> wsem s = 0"
proof -
  have "0 < sum_over in_section n (wpcs s)"
    using sum_over_ge [of t n in_section "wpcs s"] assms(2,4) by simp
  then have "wsem s = 0" using wreach_balance [OF assms(1)] by (simp add: sem_balance_def)
  then show ?thesis using one_in_section [OF assms] by simp
qed

theorem counters_exclusive_witness:
  "\<exists>s. wreach True 2 s \<and> in_section (wpcs s 0) = 1 \<and> wsem s = 0"
proof -
  let ?s1 = "wsys_init\<lparr>wpcs := (wpcs wsys_init)(0 := R_wait)\<rparr>"
  let ?s2 = "?s1\<lparr>wsem := 0, wpcs := (wpcs ?s1)(0 := R_read)\<rparr>"
  have "wstep True 2 wsys_init ?s1" by (rule wstep.r_begin) (simp_all add: wsys_init_def)
  then have "wreach True 2 ?s1" by (rule wreach.wr_step [OF wreach.wr_start])
  moreover have "wstep True 2 ?s1 ?s2" by (rule wstep.r_wait) (simp_all add: wsys_init_def)
  ultimately have r: "wreach True 2 ?s2" by (rule wreach.wr_step)
  then show ?thesis using counters_exclusive [OF r, of 0 0] by (intro exI [of _ ?s2]) simp
qed

text \<open>
  The numbers that \<open>/statistics\<close> reports under the semaphore never go down from one read to the
  next and never run ahead of the finished calls of \<open>write_code\<close>.
\<close>

theorem reported_requests_monotone:
  assumes "wreach posts n s"
  shows "sorted (read_log s) \<and> (\<forall>r \<in> set (read_log s). r \<le> int (length (done_log s)))"
  using wreach_read_inv [OF assms] by (simp add: read_inv_def)

theorem reported_requests_monotone_witness: "sorted (read_log (ex_w1 True))"
  using reported_requests_monotone [OF ex_wreach1, of True] by simp

text \<open>
  The version of \<open>write_code\<close> in the thread servers stops after its first call: at most one call
  is ever finished, and from then on no step of any thread finishes another.
\<close>

theorem thread_write_code_stops:
  assumes "wreach False n s"
  shows "length (done_log s) \<le> 1 \<and>
    (done_log s = [] \<or> (\<forall>s'. \<not> wstep False n s s' \<or> done_log s' = done_log s \<and> wsem s' = 0))"
proof -
  have "done_log s' = done_log s \<and> wsem s' = 0" if st: "wstep False n s s'" and ne: "done_log s \<noteq> []" for s'
  proof -
    have s': "wreach False n s'" using assms st by (rule wreach.wr_step)
    have zero: "in_section (wpcs s t) = 0" if "t < n" for t
      using done_stuck(2) [OF assms ne] that by (simp add: sum_over_zero)
    have same: "done_log s' = done_log s"
      using st zero by cases (force)+
    then show ?thesis using done_stuck(1) [OF s'] ne by simp
  qed
  then show ?thesis using done_once [OF assms] by blast
qed

theorem thread_write_code_stops_witness:
  "\<exists>s'. wstep False 2 (ex_w1 False) s' \<and> done_log s' = [200] \<and> wsem s' = 0"
proof -
  let ?s' = "ex_w1 False\<lparr>wpcs := (wpcs (ex_w1 False))(1 := W_wait 404)\<rparr>"
  have "wstep False 2 (ex_w1 False) ?s'" by (rule wstep.w_begin) simp_all
  then show ?thesis using thread_write_code_stops [OF ex_wreach1] by (intro exI [of _ ?s']) auto
qed

section \<open>Scripts\<close>

text \<open>
  C22: a script that is left alone: the client gets the status line, a blank line and all of the
  script's output; nobody is killed. But the ten-second alarm of the script is still pending when
  \<open>handle_bash\<close> returns, with the handler that sets \<open>need_stop_script\<close>.
\<close>

theorem handle_bash_output:
  assumes "ready s" and "pipe_errno E = None" and "fork_res E = Inr pid" and "undisturbed es"
    and "need_stop_script s = 0"
  shows "\<exists>s'. ms_handle_bash E es command s = Ret () s' \<and>
    tx s' = tx s @ status_line 200 ''Ok'' @ CRLF @ script_data es \<and> kills s' = kills s \<and>
    alarm_armed s' \<and> alarm_handler s' = H_sigalrm_stop_script \<and> need_stop_script s' = 0"
proof -
  have "sendq (ms.bash_counted s) = []" "need_stop_script (ms.bash_counted s) = 0" "kills (ms.bash_counted s) = kills s"
    using assms by (simp_all add: ms.bash_counted_def ready_def)
  then show ?thesis
    using bash_rest_undisturbed [OF assms(4), of "ms.bash_counted s" pid]
      ms.handle_bash_started [OF assms(1-3), of es command]
    by (auto simp: ms_handle_bash_def ms.bash_counted_def)
qed

theorem handle_bash_output_witness:
  "\<exists>s'. ms_handle_bash ex_env [B_read (Rd ''out''), B_read Rd_intr] ''ls'' (ex_sys []) = Ret () s' \<and>
     tx s' = status_line 200 ''Ok'' @ CRLF @ ''out'' \<and> alarm_armed s'"
  using handle_bash_output [OF ex_ready, of ex_env 77 "[B_read (Rd ''out''), B_read Rd_intr]" "[]" "''ls''"]
  by auto

text \<open>
  Once \<open>need_stop_script\<close> is set in a worker, every later script of it is cut off: whatever it
  prints, the client gets only the status line and the blank line, and SIGTERM goes to the script's
  group. Nothing in the program resets the flag.
\<close>

theorem handle_bash_cut_off:
  assumes "ready s" and "pipe_errno E = None" and "fork_res E = Inr pid" and "need_stop_script s = 1"
  shows "outcome_all (\<lambda>s'. tx s' = tx s @ status_line 200 ''Ok'' @ CRLF \<and> (- pid, SIGTERM) \<in> set (kills s') \<and>
    need_stop_script s' = 1) (ms_handle_bash E es command s)"
  using assms by (rule handle_bash_stopped)

theorem handle_bash_cut_off_witness:
  "outcome_all (\<lambda>s'. tx s' = status_line 200 ''Ok'' @ CRLF \<and> (-77, SIGTERM) \<in> set (kills s') \<and>
     need_stop_script s' = 1)
    (ms_handle_bash ex_env [B_read (Rd ''out'')] ''ls'' (ex_sys []\<lparr>need_stop_script := 1\<rparr>))"
  using handle_bash_cut_off [of "ex_sys []\<lparr>need_stop_script := 1\<rparr>" ex_env 77] ex_ready [of "[]"]
  by (simp add: ready_def)

text \<open>
  C23: the alarm outlives its script. If it goes off after a script has been served in full, before
  the next one starts, the next script of the same worker is cut off without having run too long.
\<close>

theorem alarm_outlives_script:
  assumes "ready s" and "pipe_errno E = None" and "fork_res E = Inr pid" and "undisturbed es"
    and "need_stop_script s = 0" and "requests (shm s) + 1 < INT_MAX"
  shows "\<exists>s1 s2. ms_handle_bash E es command s = Ret () s1 \<and> deliver_alarm s1 = Ret () s2 \<and>
    outcome_all (\<lambda>s3. tx s3 = tx s2 @ status_line 200 ''Ok'' @ CRLF \<and> (- pid, SIGTERM) \<in> set (kills s3))
      (ms_handle_bash E es' command' s2)"
proof -
  obtain e where run: "ms_handle_bash E es command s = Ret ()
      (ms.bash_counted s\<lparr>tx := tx (ms.bash_counted s) @ CRLF @ script_data es, errno := e,
        alarm_handler := H_sigalrm_stop_script, alarm_armed := True\<rparr>)"
    using bash_rest_undisturbed [OF assms(4), of "ms.bash_counted s" pid] assms(1,5)
      ms.handle_bash_started [OF assms(1-3), of es command]
    by (auto simp: ms_handle_bash_def ms.bash_counted_def ready_def)
  let ?s1 = "ms.bash_counted s\<lparr>tx := tx (ms.bash_counted s) @ CRLF @ script_data es, errno := e,
    alarm_handler := H_sigalrm_stop_script, alarm_armed := True\<rparr>"
  define s2 where "s2 = ?s1\<lparr>alarm_armed := False, need_stop_script := 1\<rparr>"
  have "deliver_alarm ?s1 = Ret () s2"
    by (simp add: deliver_alarm_def handle_sigalrm_stop_script_def s2_def)
  moreover have "ready s2"
    using assms(1,6) count_code_inv [OF count_code_counted] count_code_requests [OF count_code_counted]
    by (simp add: ready_def ms.bash_counted_def script_started_def Let_def s2_def)
  then have "outcome_all (\<lambda>s3. tx s3 = tx s2 @ status_line 200 ''Ok'' @ CRLF \<and> (- pid, SIGTERM) \<in> set (kills s3))
      (ms_handle_bash E es' command' s2)"
    by (rule outcome_all_mono [OF handle_bash_stopped [OF _ assms(2,3)]]) (auto simp: s2_def)
  ultimately show ?thesis using run by blast
qed

theorem alarm_outlives_script_witness:
  "\<exists>s1 s2. ms_handle_bash ex_env [B_read (Rd ''a'')] ''date'' (ex_sys []) = Ret () s1 \<and>
     deliver_alarm s1 = Ret () s2 \<and>
     outcome_all (\<lambda>s3. tx s3 = tx s2 @ status_line 200 ''Ok'' @ CRLF \<and> (-77, SIGTERM) \<in> set (kills s3))
       (ms_handle_bash ex_env [B_read (Rd ''b'')] ''date'' s2)"
  by (rule alarm_outlives_script [OF ex_ready]) (simp_all add: init_statistics_def INT_MAX_def)

text \<open>
  C24: as long as \<open>waitpid\<close> reports no child, the clean-up sends SIGTERM once and never escalates, no
  matter how often the alarm goes off. (In \<open>multi_server.c\<close> SIGCHLD is ignored with
  \<open>SA_NOCLDWAIT\<close>, and \<open>waitpid\<close> never reports one.)
\<close>

theorem stop_never_escalates:
  assumes "W_child \<notin> set (waits s)"
  shows "outcome_all (\<lambda>s'. kills s' = kills s @ [(- pid, SIGTERM)]) (stop_scirpt_timeout pid s) \<and>
    outcome_all (\<lambda>s'. kills s' = kills s @ [(- pid, SIGTERM)]) (handle_bash_stop_child_process_group pid s)"
  using stop_only_term [OF assms] by simp

theorem stop_never_escalates_witness:
  "outcome_all (\<lambda>s'. kills s' = [(-77, SIGTERM)]) (stop_scirpt_timeout 77 (ex_sys []\<lparr>waits := [W_alarm, W_fail EINTR]\<rparr>))"
  using stop_never_escalates [of "ex_sys []\<lparr>waits := [W_alarm, W_fail EINTR]\<rparr>" 77] by simp

text \<open>
  The group is killed with SIGKILL when a first child has been reaped after the alarm of the
  clean-up: SIGTERM, five seconds, SIGKILL, in this order.
\<close>

theorem stop_escalates:
  assumes "waits s = [W_alarm, W_child, W_fail e]" and "errno s \<noteq> ECHILD"
  shows "\<exists>s'. stop_scirpt_timeout pid s = Ret () s' \<and>
    kills s' = kills s @ [(- pid, SIGTERM), (- pid, SIGKILL)] \<and> alarm_count s' = 1"
  using wait_loop_escalates [of "s\<lparr>alarm_count := 0, alarm_handler := H_sigalrm,
      kills := kills s @ [(- pid, SIGTERM)], alarm_armed := True\<rparr>" pid e] assms
  by (simp add: stop_unfold)

theorem stop_escalates_witness:
  "\<exists>s'. stop_scirpt_timeout 77 (ex_sys []\<lparr>waits := [W_alarm, W_child, W_fail ECHILD]\<rparr>) = Ret () s' \<and>
     kills s' = [(-77, SIGTERM), (-77, SIGKILL)]"
  using stop_escalates [of "ex_sys []\<lparr>waits := [W_alarm, W_child, W_fail ECHILD]\<rparr>" ECHILD 77]
  by (auto simp: ECHILD_def)

text \<open>
  C25: the programs with processes, from their \<open>main\<close> on, never change the disposition of SIGPIPE, so it is not
  ignored in them if it was not when they were started. So \<open>send\<close> never reports \<open>EPIPE\<close>: a \<open>do_call\<close> that returns
  has met no broken connection, and the code that stops the script on \<open>EPIPE\<close> is never reached. A client that
  goes away kills the process that sends to it instead (shown for the copying loop); a process killed so in
  \<open>handle_bash\<close> has sent its script no signal.
\<close>

theorem broken_pipe_not_handled:
  assumes "\<not> sigpipe_ign s"
  shows "outcome_all (\<lambda>t. \<not> sigpipe_ign t) (ms_main E f evs s) \<and> outcome_all (\<lambda>t. \<not> sigpipe_ign t) (pf_main E fs f evs' s) \<and>
    outcome_all (\<lambda>t. \<not> sigpipe_ign t) (ps_main E fs f evs' s) \<and>
    (pf_do_call E out connfd s = Ret u s' \<or> ps_do_call E out connfd s = Ret u s' \<or> ms_do_call E out connfd s = Ret u s' \<longrightarrow>
      (\<exists>used. sendq s = used @ sendq s' \<and> Snd_err EPIPE \<notin> set used)) \<and>
    bash_loop pid es s \<noteq> Ret BX_return s' \<and>
    (need_stop_script s = 0 \<longrightarrow> sendq s = Snd_err EPIPE # q \<longrightarrow> d \<noteq> [] \<longrightarrow>
      bash_loop pid (B_read (Rd d) # es) s = Killed SIGPIPE (s\<lparr>sendq := q\<rparr>)) \<and>
    (ms_handle_bash E out command s = Killed SIGPIPE s' \<longrightarrow> kills s' = kills s)"
proof -
  have main: "outcome_all (\<lambda>t. \<not> sigpipe_ign t) (c s)" if "frames sigpipe_ign c" for c :: "(unit, sys) cmd"
    using that assms unfolding frames_def by (metis (mono_tags, lifting) outcome_all_mono)
  have "\<exists>used. sendq s = used @ sendq s' \<and> Snd_err EPIPE \<notin> set used"
    if "pf_do_call E out connfd s = Ret u s' \<or> ms_do_call E out connfd s = Ret u s'"
    using that unbroken_handlers assms unfolding unbroken_def by blast
  moreover have "bash_loop pid (B_read (Rd d) # es) s = Killed SIGPIPE (s\<lparr>sendq := q\<rparr>)"
    if "need_stop_script s = 0" "sendq s = Snd_err EPIPE # q" "d \<noteq> []"
    using that assms by (simp add: c_send_def)
  moreover have "kills s' = kills s" if "ms_handle_bash E out command s = Killed SIGPIPE s'"
    using that spares_handle_bash unfolding spares_def by blast
  moreover have "ps_main E fs f evs' = pf_main E fs f evs'"
    by (simp add: ps_main_def pf_main_def ps_server_def pf_server_def)
  moreover have "bash_loop pid es s \<noteq> Ret BX_return s'" using bash_loop_no_return [OF assms, of pid es BX_return s'] by blast
  ultimately show ?thesis
    using main [OF sigpipe_mains(1)] main [OF sigpipe_mains(2)] by auto
qed

theorem broken_pipe_not_handled_witness:
  "bash_loop 77 [B_read (Rd ''x'')] (ex_sys []\<lparr>sendq := [Snd_err EPIPE]\<rparr>) = Killed SIGPIPE (ex_sys []\<lparr>sendq := []\<rparr>) \<and>
   outcome_all (\<lambda>t. \<not> sigpipe_ign t) (pf_main ex_env (replicate 32 (F_parent 50)) (F_parent 51) [] (ex_sys []\<lparr>sendq := [Snd_err EPIPE]\<rparr>))"
  using broken_pipe_not_handled [of "ex_sys []\<lparr>sendq := [Snd_err EPIPE]\<rparr>" ex_env "F_parent 51" "[]" "replicate 32 (F_parent 50)" "[]"
      "[]" 4 "()" _ 77 "[]" "[]" "''x''"]
  by simp


section \<open>Descriptors\<close>

text \<open>
  C26: a pre-forked worker never closes the descriptor of a connection: at any time it has at least as
  many descriptors open as it had at the start plus the connections it has finished.
\<close>

theorem pool_worker_gains_descriptors:
  assumes "replies s = []"
  shows "outcome_all (\<lambda>s'. card (set (fds s)) + length (replies s') \<le> card (set (fds s')))
    (pool_loop pf_do_call E evs s)"
  using pool_loop_gains [where call = pf_do_call and n = "card (set (fds s))" and s = s and E = E and evs = evs,
      OF holds_pf_do_call replies_pf_do_call] assms
  by (simp add: gained_def [abs_def])

theorem pool_worker_gains_descriptors_witness:
  "outcome_all (\<lambda>s'. 3 + length (replies s') \<le> card (set (fds s')))
    (pool_loop pf_do_call ex_env [(Acc \<lparr>conn_fd = 3, conn_bytes = ex_get, conn_sendq = []\<rparr>, [])] (ex_sys []))"
  using pool_worker_gains_descriptors [of "ex_sys []" ex_env
      "[(Acc \<lparr>conn_fd = 3, conn_bytes = ex_get, conn_sendq = []\<rparr>, [])]"]
  by (simp add: numeral_3_eq_3 del: pool_loop.simps)

text \<open>
  The parent of \<open>multi_server.c\<close> closes every connection it has handed to a child: after any number
  of them its descriptors are those it had before.
\<close>

theorem ms_parent_keeps_descriptors:
  assumes "parent_only evs"
  shows "outcome_all (\<lambda>s'. fds s' = fds s) (ms_accept_loop E serverfd evs s)"
  using assms by (rule ms_parent_fds)

theorem ms_parent_keeps_descriptors_witness:
  "outcome_all (\<lambda>s'. fds s' = [0, 1, 2])
    (ms_accept_loop ex_env 3 [(Acc \<lparr>conn_fd = 4, conn_bytes = [], conn_sendq = []\<rparr>, F_parent 50, []),
       (Acc_err EINTR, F_parent 0, [])] (ex_sys []))"
  by (rule ms_parent_keeps_descriptors [of _ "ex_sys []", unfolded ex_sys_simps]) (simp add: parent_only_def)

section \<open>Starting the programs\<close>

text \<open>
  C27: the socket of a server is opened by \<open>socket\<close>, \<open>setsockopt\<close>, \<open>bind\<close> and \<open>listen\<close> in this order on
  one new descriptor, which is returned when all four have succeeded; the first call that fails ends the
  program with -1 and its \<open>errno\<close>, the calls before it and itself having been made and none after it.
\<close>

theorem open_listener_correct:
  "if list_all (\<lambda>c. fails E c = None) (socket_calls s opt port backlog)
   then open_listener E opt port backlog s = Ret (int (fresh_fd (fds s)))
     (s\<lparr>calls := calls s @ socket_calls s opt port backlog, fds := fresh_fd (fds s) # fds s\<rparr>)
   else (\<exists>xs c ys e s'. socket_calls s opt port backlog = xs @ c # ys \<and> list_all (\<lambda>d. fails E d = None) xs \<and>
     fails E c = Some e \<and> open_listener E opt port backlog s = Exited (-1) s' \<and>
     calls s' = calls s @ xs @ [c] \<and> errno s' = e)"
proof (cases "list_all (\<lambda>c. fails E c = None) (socket_calls s opt port backlog)")
  case True
  then show ?thesis using open_listener_ok [of s opt port backlog E] by (simp add: list_all_iff)
next
  case False
  then have "\<exists>c \<in> set (socket_calls s opt port backlog). fails E c \<noteq> None" by (simp add: list_all_iff)
  then obtain xs c ys where xs: "socket_calls s opt port backlog = xs @ c # ys" "fails E c \<noteq> None" "\<forall>d \<in> set xs. fails E d = None"
    using split_list_first_prop [of "socket_calls s opt port backlog" "\<lambda>c. fails E c \<noteq> None"] by blast
  then obtain e where e: "fails E c = Some e" by blast
  from open_listener_stops [OF xs(1,3) e] show ?thesis using False xs e by (auto simp: list_all_iff)
qed

text \<open>
  \<open>createServerSocket\<close> of the multiple-ports server only logs a failed \<open>socket\<close>, yet never returns
  -1: a descriptor it returns is new, bound to the port and listening.
\<close>

theorem createServerSocket_listens:
  assumes "createServerSocket E port s = Ret fd s'"
  shows "0 \<le> fd \<and> nat fd \<notin> set (fds s) \<and> fds s' = nat fd # fds s \<and>
    calls s' = calls s @ [C_socket, C_setsockopt fd SO_REUSEADDR, C_bind fd port, C_listen fd 20]"
  using createServerSocket_Ret [OF assms] fresh_fd_fresh [of "fds s"] by simp

theorem createServerSocket_listens_witness:
  "\<exists>fd s'. createServerSocket ex_env 2346 (ex_sys []) = Ret fd s' \<and> 0 \<le> fd \<and> nat fd \<notin> {0, 1, 2}"
proof -
  have "createServerSocket ex_env 2346 (ex_sys []) = Ret (int (fresh_fd (fds (ex_sys []))))
      (ex_sys []\<lparr>calls := calls (ex_sys []) @ socket_calls (ex_sys []) SO_REUSEADDR 2346 20,
        fds := fresh_fd (fds (ex_sys [])) # fds (ex_sys [])\<rparr>)"
    by (rule createServerSocket_cases(1)) simp
  then show ?thesis using createServerSocket_listens by fastforce
qed

text \<open>
  C28: the accepting thread of the queue server puts every connection into the queue, each with a
  descriptor of its own, in the order of arrival; interrupted calls of \<open>accept\<close> are repeated.
\<close>

theorem accepted_connections_queued:
  assumes "queue_inv (pque p)" and "addresses_ok (pque p) (map snd evs)"
    and "length (contents (pque p)) + length evs < 2 ^ 32"
    and "list_all (\<lambda>(e, a). case e of Acc c \<Rightarrow> True | Acc_err e \<Rightarrow> e = EINTR) evs"
  shows "\<exists>p' conns. bq_accept_loop E evs p = Blocked p' \<and> queue_inv (pque p') \<and>
    contents (pque p') = contents (pque p) @ map int conns \<and>
    fds (psys p') = rev conns @ fds (psys p) \<and> distinct conns \<and>
    length conns = length (filter (\<lambda>(e, a). case e of Acc c \<Rightarrow> True | Acc_err e \<Rightarrow> False) evs)"
  using bq_accept_loop_queues [OF assms] by blast

theorem accepted_connections_queued_witness:
  "\<exists>p' conns. bq_accept_loop ex_env [(Acc \<lparr>conn_fd = 0, conn_bytes = [], conn_sendq = []\<rparr>, 5), (Acc_err EINTR, 6)]
      \<lparr>psys = ex_sys [], pque = queue_init ex_queue, serv_socks = [], readfds = {}\<rparr> = Blocked p' \<and>
    contents (pque p') = map int conns \<and> length conns = 1"
  using accepted_connections_queued [of "\<lparr>psys = ex_sys [], pque = queue_init ex_queue, serv_socks = [], readfds = {}\<rparr>"
      "[(Acc \<lparr>conn_fd = 0, conn_bytes = [], conn_sendq = []\<rparr>, 5), (Acc_err EINTR, 6)]" ex_env]
    queue_init_inv [of ex_queue] queue_init_contents [of ex_queue]
  by (force simp: addresses_ok_def queue_init_def ex_queue_def)

text \<open>
  One turn of \<open>start_server\<close> loses no socket: \<open>select\<close> overwrites the set with the ready ones, and
  when the scan is through every listening socket is in the set again.
\<close>

theorem select_watches_all:
  assumes "readfds p = listening (serv_socks p)"
    and "scan_socks E (serv_socks p) acc (p\<lparr>readfds := readfds p \<inter> rdy\<rparr>) = Ret () p'"
  shows "select_loop E (Sel rdy acc # es) p = select_loop E es p' \<and> serv_socks p' = serv_socks p \<and>
    readfds p' = listening (serv_socks p')"
  using select_round [OF assms] by simp

theorem select_watches_all_witness:
  "\<exists>p'. scan_socks ex_env [7, -1, 8] [(Acc_err EINTR, 1)]
      \<lparr>psys = ex_sys [], pque = ex_queue, serv_socks = [7, -1, 8], readfds = {7, 8} \<inter> {8}\<rparr> = Ret () p' \<and>
    readfds p' = {7, 8}"
proof -
  let ?p = "\<lparr>psys = ex_sys [], pque = ex_queue, serv_socks = [7, -1, 8], readfds = {7, 8}\<rparr> :: pool"
  have l: "listening [7, -1, 8] = {7, 8}" by (auto simp: listening_def)
  obtain p' where p': "scan_socks ex_env (serv_socks ?p) [(Acc_err EINTR, 1)] (?p\<lparr>readfds := readfds ?p \<inter> {8}\<rparr>) = Ret () p'"
    by (simp add: on_sys_def)
  then show ?thesis using select_watches_all [OF _ p'] l by simp
qed

text \<open>
  When \<open>main\<close> of the multiple-ports server has opened its sockets, there were at most 31 ports, the
  k-th socket is open and bound to the low 16 bits of the k-th argument's number, and the rest of the
  table still holds -1.
\<close>

theorem ports_opened:
  assumes "open_ports E 1 args (p\<lparr>serv_socks := replicate 32 (-1)\<rparr>) = Ret () p'"
  shows "length args \<le> 31 \<and>
    list_all (\<lambda>k. 0 \<le> serv_socks p' ! k \<and>
      C_bind (serv_socks p' ! k) (word_of_int (atoi (args ! k))) \<in> set (calls (psys p'))) [0..<length args] \<and>
    list_all (\<lambda>k. serv_socks p' ! k = -1) [length args..<32]"
  using open_ports_Ret [OF assms] by (auto simp: list_all_iff)

theorem ports_opened_witness:
  "\<exists>p'. open_ports ex_env 1 [''80''] (\<lparr>psys = ex_sys [], pque = ex_queue, serv_socks = [], readfds = {}\<rparr>
      \<lparr>serv_socks := replicate 32 (-1)\<rparr>) = Ret () p' \<and> 0 \<le> serv_socks p' ! 0"
proof -
  let ?p = "\<lparr>psys = ex_sys [], pque = ex_queue, serv_socks = [], readfds = {}\<rparr> :: pool"
  have "createServerSocket ex_env (word_of_int (atoi ''80'')) (ex_sys []) = Ret (int (fresh_fd (fds (ex_sys []))))
      (ex_sys []\<lparr>calls := calls (ex_sys []) @ socket_calls (ex_sys []) SO_REUSEADDR (word_of_int (atoi ''80'')) 20,
        fds := fresh_fd (fds (ex_sys [])) # fds (ex_sys [])\<rparr>)"
    by (rule createServerSocket_cases(1)) simp
  then obtain p' where p': "open_ports ex_env 1 [''80''] (?p\<lparr>serv_socks := replicate 32 (-1)\<rparr>) = Ret () p'"
    by (simp add: on_sys_def)
  then show ?thesis using ports_opened [OF p'] by (auto simp: list_all_iff)
qed

text \<open>
  The reporter of SIGUSR1 prints the number of requests once for every signal, then waits; the
  counters and their semaphore are as before.
\<close>

theorem reporter_prints_per_signal:
  assumes "sem_open_ok E" and "shmat_ok E" and "sem_exists s" and "0 < sem s" and "user1_exists s"
  shows "handler_siguser1 E ((siguser1_signo_handler ^^ k) s) = Blocked (s\<lparr>share_address := P_segment,
    user1_sem := 0, printed := printed s @ replicate (user1_sem s + k) (requests (shm s))\<rparr>)"
proof -
  have s: "(siguser1_signo_handler ^^ k) s = s\<lparr>user1_sem := user1_sem s + k\<rparr>"
    by (induction k) (simp_all add: siguser1_signo_handler_def)
  show ?thesis
    using assms siguser1_loop_prints [of "s\<lparr>user1_sem := user1_sem s + k, share_address := P_segment\<rparr>" "user1_sem s + k"]
    by (simp add: s handler_siguser1_def open_shm_sem_def open_user1_sem_def attach_def)
qed

theorem reporter_prints_per_signal_witness:
  "\<exists>s'. handler_siguser1 ex_env ((siguser1_signo_handler ^^ 2) (ex_sys []\<lparr>user1_exists := True\<rparr>)) = Blocked s' \<and>
     printed s' = [0, 0]"
  using reporter_prints_per_signal [of ex_env "ex_sys []\<lparr>user1_exists := True\<rparr>" 2]
  by (simp add: init_statistics_def numeral_2_eq_2)

text \<open>
  \<open>main\<close> of \<open>multi_server.c\<close> starts to serve with all counters at zero. Off Linux the first child
  then finds the semaphore at 1; on Linux \<open>sem_unlink\<close> names another semaphore than \<open>sem_open\<close>, and
  the value an earlier run has left stays.
\<close>

theorem ms_main_initialises:
  assumes "ftok_ok E" and "shmget_res E = Some i" and "shmat_ok E" and "sem_open_ok E" and "sem_exists s"
  shows "ms_main E (F_parent pid) evs s = bindC (ms_server E 2346 evs) (\<lambda>_ s. Exited 0 s) (ms_started E i s) \<and>
    shm (ms_started E i s) = init_statistics \<and>
    (\<exists>t. open_shm_sem (ms_started E i s) = Ret () t \<and> sem t = (if is_linux E then sem s else 1))"
  using ms_main_starts [OF assms(1-4)] assms(5) by (simp add: ms_started_def open_shm_sem_apply)

theorem ms_main_initialises_witness:
  "\<exists>t. open_shm_sem (ms_started (ex_env\<lparr>is_linux := True\<rparr>) 3 (ex_sys []\<lparr>sem := 0\<rparr>)) = Ret () t \<and> sem t = 0"
  using ms_main_initialises [of "ex_env\<lparr>is_linux := True\<rparr>" 3 "ex_sys []\<lparr>sem := 0\<rparr>" 50 "[]"] by simp

section \<open>server.c\<close>

text \<open>
  C29: \<open>server.c\<close> sends a file as status line, a blank line, one more line end that belongs to the body,
  the data, and two further line ends if the file could be read to its end: the client does not get
  the file's bytes alone. The file stays open.
\<close>

theorem parse_uri_sends_file:
  assumes "sendq s = []" and "uri_at (req_buf s) 0 = u" and "length u < URI_LIMIT"
    and "takeWhile (\<lambda>c. c \<noteq> CHR ''?'') u = c # path" and "open_rdonly E path = Inr es"
  shows "\<exists>s'. parse_uri E s = Ret () s' \<and> fds s' = fresh_fd (fds s) # fds s \<and>
    tx s' = tx s @ status_line 200 ''Ok'' @ CRLF @ CRLF @ read_data es @
      (if reads_to_end es then CRLF @ CRLF else [])"
  using parse_uri_file [OF assms] by auto

theorem parse_uri_sends_file_witness:
  "\<exists>s'. parse_uri ex_env (parsed ''GET'' ''/a.txt'' ''HTTP/1.1'' [] (ex_sys [])) = Ret () s' \<and>
     tx s' = status_line 200 ''Ok'' @ CRLF @ CRLF @ ''hello world'' @ CRLF @ CRLF"
  using parse_uri_sends_file [of "parsed ''GET'' ''/a.txt'' ''HTTP/1.1'' [] (ex_sys [])" "''/a.txt''" "CHR ''/''"
      "''a.txt''" ex_env "[Rd ''hello'', Rd_intr, Rd '' world'']"]
    parsed_uri [OF ex_request_ok, of "[]" "ex_sys []"]
  by (auto simp: URI_LIMIT_def ex_env_def)

section \<open>linux_task_list and the passing of descriptors\<close>

text \<open>
  C30: the lines of \<open>print_task\<close> determine the tree: reading the offsets, pids and names back gives the
  children of the task, with all their descendants and in their order, and there is one line for each.
\<close>

theorem print_task_roundtrip:
  "read_children off (print_task t off) = (children t, []) \<and>
   length (print_task t off) = count_tasks (children t)"
  using read_print [of off "[]" "children t"] length_print_children [of "children t" off]
  by (simp add: print_task_def ends_at_def)

text \<open>
  A descriptor sent with \<open>sendConnection\<close> is returned by the next \<open>recvConnection\<close>, also after
  interrupted calls.
\<close>

theorem connection_passed:
  assumes "sendConnection 2 fd = Some m"
  shows "recvConnection (replicate k (Recv_err 4) @ Msg m # es) = Received fd"
proof -
  have "recv_loop (CMSG_SPACE 4) (replicate k (Recv_err 4) @ ms) = recv_loop (CMSG_SPACE 4) ms" for ms
    by (induction k) simp_all
  then show ?thesis
    using assms recv_loop_connection [of fd es] by (simp add: recvConnection_def sendConnection_def)
qed

theorem connection_passed_witness: "recvConnection [Recv_err 4, Msg (connection_msg 9)] = Received 9"
  using connection_passed [of 9 "connection_msg 9" 1 "[]"] by (simp add: sendConnection_def)

text \<open>
  One message without a descriptor, which \<open>recvConnection\<close> means to skip, makes it lose every
  descriptor after it in the same call: \<open>msg_controllen\<close> is set once before the loop, and \<open>recvmsg\<close>
  has set it to 0.
\<close>

theorem skipped_message_loses_descriptors:
  assumes "msg_cmsg m = None"
  shows "recvConnection (Msg m # es) \<noteq> Received fd"
  using recv_loop_no_room [of es fd] assms
  by (auto simp: recvConnection_def recvmsg_def split: if_splits)

theorem skipped_message_loses_descriptors_witness:
  "recvConnection [Msg \<lparr>msg_data = ''hi'', msg_cmsg = None\<rparr>, Msg (connection_msg 9)] \<noteq> Received 9"
  using skipped_message_loses_descriptors [of "\<lparr>msg_data = ''hi'', msg_cmsg = None\<rparr>"] by simp


section \<open>The pool threads\<close>

text \<open>
  C31: a thread of one of the three pools (queue, several ports, pre-created) sends on each connection,
  with whatever its buffers hold from the connections before, the bytes that \<open>th_do_call\<close> sends:
  \<open>request_answer\<close>. It counts the code, and the semaphore is one lower.
\<close>

theorem pool_threads_answer:
  assumes "good_request m u v rest (s\<lparr>rx := conn_bytes c\<rparr>)" and "ready (s\<lparr>sendq := conn_sendq c\<rparr>)"
    and "env_short E"
  shows "\<exists>s'. bq_serve E c s = Ret () s' \<and> mp_serve E c s = Ret () s' \<and>
    pc_loop E (Acc c # evs) s = pc_loop E evs s' \<and>
    replies s' = replies s @ [(conn_fd c, snd (request_answer E (requests (shm s)) m u v))] \<and>
    shm s' = counted (fst (request_answer E (requests (shm s)) m u v)) (shm s) \<and> sem s' = sem s - 1"
proof -
  let ?t = "s\<lparr>rx := conn_bytes c, sendq := conn_sendq c, tx := []\<rparr>"
  have "good_request m u v rest ?t" "ready ?t" using assms(1,2) by (auto simp: good_request_def ready_def)
  then have "answered 1 (request_answer E (requests (shm ?t)) m u v) ?t
      (serve_request thr_read_request_line thr_response (thr_route E) ?t)"
    by (rule serve_thread_answered [OF _ _ assms(3)])
  then obtain t where t: "serve_request thr_read_request_line thr_response (thr_route E) ?t = Ret () t"
    "tx t = snd (request_answer E (requests (shm s)) m u v)"
    "shm t = counted (fst (request_answer E (requests (shm s)) m u v)) (shm s)" "sem t = sem s - 1"
    by (auto simp: answered_def)
  have "replies t = replies ?t"
    using frames_Ret [OF frames_outside [OF outside_thr_serve, of replies] t(1)] by (simp add: outside_def)
  then have "replies t = replies s" by simp
  then show ?thesis using t by (simp add: bq_serve_def take_conn_def end_conn_def)
qed

theorem pool_threads_answer_witness:
  "\<exists>s'. mp_serve ex_env \<lparr>conn_fd = 4, conn_bytes = ex_get, conn_sendq = []\<rparr> (ex_sys []) = Ret () s' \<and>
    replies s' = [(4, status_line 200 ''Ok'' @ CRLF @ ''hello world'')]"
proof -
  let ?c = "\<lparr>conn_fd = 4, conn_bytes = ex_get, conn_sendq = []\<rparr>"
  have "good_request ''GET'' ''/a.txt'' ''HTTP/1.1'' [] ((ex_sys [])\<lparr>rx := conn_bytes ?c\<rparr>)"
    using ex_good_request by (simp add: good_request_def ex_get_def)
  moreover have "ready ((ex_sys [])\<lparr>sendq := conn_sendq ?c\<rparr>)" using ex_ready [of "[]"] by (simp add: ready_def)
  ultimately show ?thesis
    using pool_threads_answer [OF _ _ ex_env_short, where s = "ex_sys []" and c = ?c] by (force simp: ex_answer)
qed

section \<open>The programs with threads\<close>

text \<open>
  C32: \<open>condition_variable.cpp\<close>, for every number of threads, schedule and spurious wake-up: it cannot
  deadlock or lose the notification, because from every state it can reach some schedule lets \<open>main\<close>
  return; and when \<open>main\<close> returns the screen shows its own line and the line of each thread, each
  exactly once, and the mutex is free.
\<close>

theorem race_completes:
  assumes "(race_step n)\<^sup>*\<^sup>* race_init s"
  shows "(\<exists>t. (race_step n)\<^sup>*\<^sup>* s t \<and> r_main t = M_done) \<and>
    ((\<exists>t. race_step n s t) \<or> r_main s = M_done) \<and>
    (r_main s = M_done \<longrightarrow>
       distinct (screen s) \<and> set (screen s) = insert Ready_line (Thread_line ` {..<n}) \<and> r_mtx s = None)"
  using race.completes [OF assms] race.stuck_final [OF assms] race_final [OF race.reach_inv [OF assms]]
    race_free [OF race.reach_inv [OF assms]]
  by blast

theorem race_completes_witness:
  "\<exists>t. (race_step 10)\<^sup>*\<^sup>* race_init t \<and> set (screen t) = insert Ready_line (Thread_line ` {..<10})"
proof -
  obtain t where t: "(race_step 10)\<^sup>*\<^sup>* race_init t" "r_main t = M_done"
    using race_completes [of 10 race_init] by blast
  show ?thesis using race_completes [OF t(1)] t by blast
qed

text \<open>
  C33: the experiment of \<open>atomic/test.cpp\<close> on a machine with store buffers. With the barrier the two
  loads of a round never both give 0 and the program never prints its line, under any schedule;
  without it a schedule prints the line, already in the first round. In both cases the program ends,
  after 24 steps for each round and one more.
\<close>

theorem barrier_decides:
  assumes "(litmus_step barrier ^^ k) (litmus_init rounds) s"
  shows "(barrier \<longrightarrow> lines_out s = 0) \<and>
    (0 < rounds \<longrightarrow> (\<exists>t. (litmus_step False)\<^sup>*\<^sup>* (litmus_init rounds) t \<and> lines_out t = 1)) \<and>
    k \<le> 24 * rounds + 1 \<and> ((\<exists>t. litmus_step barrier s t) \<or> drive s = D_return)"
proof -
  have "(litmus_step barrier)\<^sup>*\<^sup>* (litmus_init rounds) s" using assms by (rule relpowp_imp_rtranclp)
  then have "barrier \<longrightarrow> lines_out s = 0" using litmus.reach_inv by (auto simp: litmus_inv_def)
  moreover have "\<exists>t. (litmus_step False)\<^sup>*\<^sup>* (litmus_init rounds) t \<and> lines_out t = 1" if "0 < rounds"
    using late_stores_run [of "rounds - 1"] run_reaches that by fastforce
  ultimately show ?thesis
    using litmus.run_bound_or_final [OF assms] by (auto simp: litmus_dist_init)
qed

theorem barrier_decides_witness:
  "\<exists>k s. (litmus_step True ^^ k) (litmus_init 100000000) s \<and> lines_out s = 0 \<and> drive s = D_return"
proof -
  obtain k s where s: "(litmus_step True ^^ k) (litmus_init 100000000) s" "\<forall>t. \<not> litmus_step True s t"
    using litmus.some_run_ends by blast
  show ?thesis using barrier_decides [OF s(1)] s by blast
qed

text \<open>
  C34: \<open>mutex.cpp\<close> terminates under every schedule, after at most 670 steps, and then 33 increments
  have been printed, each value once and in order: the recursive mutex is never waited for by its
  owner and is free at the end.
\<close>

theorem counting_terminates:
  assumes "(count_step ^^ k) counting_init s"
  shows "k \<le> 670 \<and> ((\<exists>t. count_step s t) \<or>
    c_main s = R_exit \<and> global_val s = 33 \<and> c_owner s = None \<and> values_of (c_out s) = [1..33])"
  using counting.run_bound_or_final [OF assms] counting_final [of s] by (auto simp: count_dist_init)

theorem counting_terminates_witness:
  "\<exists>k s. (count_step ^^ k) counting_init s \<and> k \<le> 670 \<and> global_val s = 33 \<and> values_of (c_out s) = [1..33]"
proof -
  obtain k s where s: "(count_step ^^ k) counting_init s" "\<forall>t. \<not> count_step s t"
    using counting.some_run_ends by blast
  show ?thesis using counting_terminates [OF s(1)] s by blast
qed

text \<open>
  C35: \<open>call_once.cpp\<close> terminates under every schedule; \<open>set_winner\<close> has then been called exactly once,
  and the winner printed is that one thread's number.
\<close>

theorem call_once_terminates:
  assumes "(once_step n ^^ k) once_init s" and "0 < n"
  shows "k \<le> 1007 * n + 3 \<and> ((\<exists>t. once_step n s t) \<or>
    o_main s = W_exit \<and> 1 \<le> winner s \<and> winner s \<le> int n \<and> set_calls s = [winner s] \<and> o_out s = [winner s])"
  using once.run_bound_or_final [OF assms(1)] once_final [OF _ _ assms(2), of s] by (auto simp: once_dist_init)

theorem call_once_terminates_witness:
  "\<exists>k s. (once_step 10 ^^ k) once_init s \<and> k \<le> 10073 \<and> winner s \<le> 10 \<and> set_calls s = [winner s]"
proof -
  obtain k s where s: "(once_step 10 ^^ k) once_init s" "\<forall>t. \<not> once_step 10 s t"
    using once.some_run_ends by blast
  show ?thesis using call_once_terminates [OF s(1)] s by auto
qed

text \<open>
  C36: \<open>thread.cpp\<close> ends within 24 steps under every schedule, and if the first two threads can be
  started it never terminates abnormally, although \<open>thread_guard_join\<close> throws: the guard joins the third
  thread during unwinding, so the local variable that thread refers to is in scope as long as it runs,
  and at the end the first and the third thread have written all their text. The detached thread may
  not have.
\<close>

theorem thread_guard_joins:
  assumes "(guard_step E ^^ k) guard_init s" and "spawn_ok E 0" and "spawn_ok E 1"
  shows "k \<le> 24 \<and> g_main s \<noteq> G_terminate \<and> (g_thr s 2 \<noteq> F_none \<and> g_thr s 2 \<noteq> F_done \<longrightarrow> locals_alive s) \<and>
    ((\<exists>t. guard_step E s t) \<or> g_main s = G_exit \<and> written 0 s = [''fn'', [CHR 0x0A]] \<and>
       (written 2 s = [''operator(): '' @ addr_of E ''d1''] \<or> g_thr s 2 = F_none))"
proof -
  have inv: "guard_inv E s" using guard.run_bounded [OF assms(1)] by simp
  then have "g_main s \<noteq> G_terminate" using assms(2,3) by (auto simp: guard_inv_def)
  then show ?thesis
    using guard.run_bound_or_final [OF assms(1)] reference_in_scope [OF inv] guard_exit [OF inv]
    by (auto simp: guard_dist_init)
qed

theorem thread_guard_joins_witness:
  "\<exists>k s. (guard_step \<lparr>spawn_ok = (\<lambda>i. i < 2), addr_of = id, what = (\<lambda>_. [])\<rparr> ^^ k) guard_init s \<and> k \<le> 24 \<and>
     g_main s = G_exit \<and> written 0 s = [''fn'', [CHR 0x0A]]"
proof -
  let ?E = "\<lparr>spawn_ok = (\<lambda>i. i < 2), addr_of = id, what = (\<lambda>_. [])\<rparr>"
  obtain k s where s: "(guard_step ?E ^^ k) guard_init s" "\<forall>t. \<not> guard_step ?E s t"
    using guard.some_run_ends by blast
  show ?thesis using thread_guard_joins [OF s(1)] s by auto
qed

text \<open>
  \<open>unique_lock.cpp\<close> and \<open>lock_guard.cpp\<close> do the same from every state: releasing the \<open>unique_lock\<close> and
  unlocking through the pointer is as good as the destructor of the \<open>lock_guard\<close>. From the start
  they print 1, 2, 3 and leave the mutex unlocked.
\<close>

theorem scoped_locks_agree:
  "ul_main s = lg_main s \<and> ul_main \<lparr>held = False, counter = 0, shown = []\<rparr> =
     Some \<lparr>held = False, counter = 3, shown = [1, 2, 3]\<rparr>"
  using lg_main_counts [of "\<lparr>held = False, counter = 0, shown = []\<rparr>"] by (simp add: mains_agree INT_MAX_def)

section \<open>ascii_convert and My_unique_ptr\<close>

text \<open>
  C37: decoding (\<open>-d\<close>) what \<open>ascii_convert\<close> has printed for a text (\<open>-e\<close>) gives the text back, for all
  bytes, as long as an \<open>int\<close> can index the digits.
\<close>

theorem ascii_roundtrip:
  assumes "8 * int (length arg) + 7 \<le> INT_MAX"
  shows "main_convert [''-e'', arg] = Inr (string_to_binary arg @ [LF], 0) \<and>
    main_convert [''-d'', string_to_binary arg] = Inr (arg @ [LF], 0)"
  using binary_to_string_encoded [OF assms] by (simp add: main_convert_def)

theorem ascii_roundtrip_witness:
  "main_convert [''-d'', string_to_binary ''Hi''] = Inr (''Hi'' @ [LF], 0)"
  using ascii_roundtrip [of "''Hi''"] by (simp add: INT_MAX_def)

text \<open>
  \<open>binary_to_string\<close> reads past the end of its argument unless the number of digits is a multiple
  of eight or one less, when the terminator counts as a 0; on whole bytes of binary digits it is the
  inverse of \<open>string_to_binary\<close>.
\<close>

theorem ascii_decode_defined:
  assumes "int (length str) + 7 \<le> INT_MAX"
  shows "(if length str mod 8 = 0 \<or> length str mod 8 = 7 then \<exists>cs. binary_to_string str = Inr cs
      else binary_to_string str = Inl Over_Read) \<and>
    (binary str \<and> length str mod 8 = 0 \<longrightarrow> (\<exists>cs. binary_to_string str = Inr cs \<and> string_to_binary cs = str))"
  using assms decode_returns [OF assms, of 0 "[]"] decode_over_read [OF assms, of 0 "[]"]
    decode_binary [OF assms, of 0 "[]"]
  by (auto simp: binary_to_string_def mod_eq_0_iff_dvd)

theorem ascii_decode_defined_witness:
  "binary_to_string ''010'' = Inl Over_Read \<and> (\<exists>cs. binary_to_string ''0100100'' = Inr cs)"
  using ascii_decode_defined [of "''010''"] ascii_decode_defined [of "''0100100''"] by (simp add: INT_MAX_def)

text \<open>
  C38: a client that hands every raw pointer over at most once never deletes an object twice: every
  sequence of members of \<open>My_unique_ptr\<close> runs, and every object on the heap has exactly one owner, a
  variable or the client itself.
\<close>

theorem unique_ptr_ownership:
  assumes "all_legal ps no_client"
  shows "\<exists>c. run_up ps no_client = Some c \<and>
    dom (cells (uheap_of c)) = loose c \<union> (\<Union>x. owners c x) \<and> (\<forall>x. loose c \<inter> owners c x = {}) \<and>
    (\<forall>x y. x = y \<or> owners c x \<inter> owners c y = {})"
proof -
  obtain c where c: "run_up ps no_client = Some c" "divided (dom (cells (uheap_of c))) (loose c) (owners c)"
    using run_up_owned [OF ownership_init assms] by (auto simp: ownership_def)
  have "x = y \<or> owners c x \<inter> owners c y = {}" for x y using dividedD(4) [OF c(2)] by blast
  then show ?thesis using c(1) dividedD(2,3) [OF c(2)] by blast
qed

theorem unique_ptr_ownership_witness:
  "\<exists>c. run_up [New 5 12, Make 0 5, New 6 13, Reset_to 0 6, Release 0, Make 1 6, Destroy 0, Destroy 1] no_client = Some c \<and>
     dom (cells (uheap_of c)) = loose c \<union> (\<Union>x. owners c x)"
proof -
  have "all_legal [New 5 12, Make 0 5, New 6 13, Reset_to 0 6, Release 0, Make 1 6, Destroy 0, Destroy 1] no_client"
    by (simp add: no_client_def new_int_def up_from_def up_reset_to_def up_release_def up_destroy_def int_deleter_def Let_def)
  from unique_ptr_ownership [OF this] show ?thesis by blast
qed

section \<open>My_shared_ptr\<close>



section \<open>SmallInt\<close>

text \<open>
  C40: \<open>SmallInt\<close> keeps every \<open>int\<close>, negative ones too, through its \<open>size_t\<close> and back; the sum of two
  objects, computed on 64 unsigned bits and cut down, is the sum of their \<open>int\<close>s with wrap-around at 32
  bits, where the sum of two \<open>int\<close>s itself would be undefined; and the \<open>size_t\<close> of the result is again the
  sign extension of its \<open>int\<close>.
\<close>

theorem small_int_wraps:
  "small_to_int (small_of_int i) = i \<and>
   sint (small_to_int (fst (small_plus a b out))) = signed_take_bit 31 (sint (small_to_int a) + sint (small_to_int b)) \<and>
   sint (si_val (fst (small_plus a b out))) = sint (small_to_int (fst (small_plus a b out)))"
  using small_val_int [OF small_ok_plus] by (simp add: small_plus_sint)

end
